(* ===== verification/Prelude.thy ===== *)
theory Prelude
  imports Main "HOL-Library.Word" "HOL-Library.Monad_Syntax" "HOL-Library.Mapping"
    "HOL-Library.Signed_Division"
begin

text \<open>
  The vocabulary every component of the development shares.

  A Go function that may panic at run time is a function into \<open>'a option\<close>, \<open>None\<close> being
  the panic: slice expressions, element writes and the fixed-width readers of
  encoding/binary are checked operations that return \<open>None\<close> outside their bounds, and
  the bodies are written with the option monad (\<open>do\<close>). A slice expression is checked
  against the length of the slice, which is stricter than Go (capacity), so a body that is
  shown not to return \<open>None\<close> does not panic in Go either.

  Go's int and int64 (64 bits) are HOL integers with the wrap-around written out by \<open>i64\<close>
  where an operation could leave the range; uint8, uint16, uint32 and uint64 values read
  from or written to the wire are words. Lengths and loop counters, which Go keeps
  non-negative, are naturals.
\<close>

unbundle bit_operations_syntax

type_synonym byte = "8 word"
type_synonym bytes = "byte list"
type_synonym uint16 = "16 word"
type_synonym uint32 = "32 word"
type_synonym uint64 = "64 word"

named_theorems go_eval \<open>evaluation of checked operations inside their bounds\<close>

section \<open>64-bit signed integers\<close>

definition i64 :: "int \<Rightarrow> int" where
  "i64 x = (x + 2 ^ 63) mod 2 ^ 64 - 2 ^ 63"

definition in_i64 :: "int \<Rightarrow> bool" where
  "in_i64 x \<longleftrightarrow> - (2 ^ 63) \<le> x \<and> x < 2 ^ 63"

lemma zero_i64: "in_i64 0"
  by (simp add: in_i64_def)

lemma i64_id [go_eval]: "- (2 ^ 63) \<le> x \<Longrightarrow> x < 2 ^ 63 \<Longrightarrow> i64 x = x"
  by (simp add: i64_def)

lemma int_below_2p63: "n < 2 ^ 63 \<Longrightarrow> int n < 2 ^ 63"
  by simp

lemma i64_in_range: "in_i64 (i64 x)"
proof -
  have "0 \<le> (x + 2 ^ 63) mod 2 ^ 64" "(x + 2 ^ 63) mod 2 ^ 64 < 2 ^ (64::nat)"
    by (rule pos_mod_sign, simp, rule pos_mod_bound, simp)
  then show ?thesis by (auto simp: in_i64_def i64_def)
qed

lemma smod_nonneg: "0 \<le> (a::int) \<Longrightarrow> 0 < b \<Longrightarrow> a smod b = a mod b"
  by (cases "a = 0") (simp_all add: signed_modulo_int_def signed_divide_int_def minus_div_mult_eq_mod)

lemma sdiv_nonneg: "0 \<le> (a::int) \<Longrightarrow> 0 < b \<Longrightarrow> a sdiv b = a div b"
  by (cases "a = 0") (simp_all add: signed_divide_int_def)

lemma smod_eq_0: "(a::int) smod b = 0 \<longleftrightarrow> a mod b = 0"
proof -
  have "a smod b = 0 \<longleftrightarrow> a = 0 \<or> \<bar>b\<bar> dvd \<bar>a\<bar>"
    by (simp add: smod_int_alt_def sgn_eq_0_iff dvd_eq_mod_eq_0)
  then show ?thesis by (auto simp: dvd_eq_mod_eq_0 [symmetric])
qed

section \<open>Slices\<close>

definition subslice :: "'a list \<Rightarrow> nat \<Rightarrow> nat \<Rightarrow> 'a list option" where
  "subslice xs lo hi =
     (if lo \<le> hi \<and> hi \<le> length xs then Some (take (hi - lo) (drop lo xs)) else None)"

text \<open>The same slice expression where the bounds are of type int64 and may be negative.\<close>

definition subslicei :: "'a list \<Rightarrow> int \<Rightarrow> int \<Rightarrow> 'a list option" where
  "subslicei xs lo hi = (if lo < 0 \<or> hi < lo then None else subslice xs (nat lo) (nat hi))"

text \<open>The statement copy(dst[lo:hi], src), and a fixed-width store into dst[lo:hi].\<close>

definition copy_into :: "'a list \<Rightarrow> nat \<Rightarrow> nat \<Rightarrow> 'a list \<Rightarrow> 'a list option" where
  "copy_into dst lo hi src =
     (if lo \<le> hi \<and> hi \<le> length dst
      then (let k = min (hi - lo) (length src)
            in Some (take lo dst @ take k src @ drop (lo + k) dst))
      else None)"

definition put_into :: "'a list \<Rightarrow> nat \<Rightarrow> nat \<Rightarrow> 'a list \<Rightarrow> 'a list option" where
  "put_into dst lo hi src =
     (if length src \<le> hi - lo then copy_into dst lo hi src else None)"

text \<open>An element read.\<close>

definition elem_at :: "'a list \<Rightarrow> nat \<Rightarrow> 'a option" where
  "elem_at xs i = (if i < length xs then Some (xs ! i) else None)"

text \<open>A length handed to make panics when it is negative.\<close>

definition as_len :: "int \<Rightarrow> nat option" where
  "as_len x = (if x < 0 then None else Some (nat x))"

lemma subslice_Some [go_eval]:
  "lo \<le> hi \<Longrightarrow> hi \<le> length xs \<Longrightarrow> subslice xs lo hi = Some (take (hi - lo) (drop lo xs))"
  by (simp add: subslice_def)

lemma subslicei_int [simp]: "subslicei xs (int lo) (int hi) = subslice xs lo hi"
  by (simp add: subslicei_def subslice_def)

lemma elem_at_Some [go_eval]: "i < length xs \<Longrightarrow> elem_at xs i = Some (xs ! i)"
  by (simp add: elem_at_def)

lemma subslice_length: "subslice xs lo hi = Some ys \<Longrightarrow> length ys = hi - lo"
  by (auto simp: subslice_def split: if_splits)

lemma copy_into_length: "copy_into dst lo hi src = Some dst' \<Longrightarrow> length dst' = length dst"
  by (auto simp: copy_into_def Let_def split: if_splits)

lemma put_into_length: "put_into dst lo hi src = Some dst' \<Longrightarrow> length dst' = length dst"
  by (auto simp: put_into_def copy_into_length split: if_splits)

lemma copy_into_exact [go_eval]:
  "lo \<le> hi \<Longrightarrow> hi \<le> length dst \<Longrightarrow> length src = hi - lo \<Longrightarrow>
   copy_into dst lo hi src = Some (take lo dst @ src @ drop hi dst)"
  by (simp add: copy_into_def)

lemma put_into_exact [go_eval]:
  "lo \<le> hi \<Longrightarrow> hi \<le> length dst \<Longrightarrow> length src = hi - lo \<Longrightarrow>
   put_into dst lo hi src = Some (take lo dst @ src @ drop hi dst)"
  by (simp add: put_into_def copy_into_exact)

lemma as_len_nat [simp]: "as_len (int n) = Some n"
  by (simp add: as_len_def)

section \<open>Loops\<close>

text \<open>
  \<open>for_list body xs s\<close> is Go's range loop over \<open>xs\<close> with loop state \<open>s\<close>; it stops at the
  first panic. The values of the loop variable of a counting loop are the lists
  \<open>range_lt lo hi st\<close> (for i := lo; i < hi; i += st) and \<open>range_le lo hi st\<close>
  (for i := lo; i+st <= hi; i += st), for a positive stride.
\<close>

primrec for_list :: "('a \<Rightarrow> 's \<Rightarrow> 's option) \<Rightarrow> 'a list \<Rightarrow> 's \<Rightarrow> 's option" where
  "for_list f [] s = Some s"
| "for_list f (x # xs) s = do { s' \<leftarrow> f x s; for_list f xs s' }"

function range_lt :: "nat \<Rightarrow> nat \<Rightarrow> nat \<Rightarrow> nat list" where
  "range_lt lo hi st = (if lo < hi \<and> 0 < st then lo # range_lt (lo + st) hi st else [])"
  by pat_completeness auto
termination
  by (relation "measure (\<lambda>(lo, hi, st). hi - lo)") auto

function range_le :: "nat \<Rightarrow> nat \<Rightarrow> nat \<Rightarrow> nat list" where
  "range_le lo hi st = (if lo + st \<le> hi \<and> 0 < st then lo # range_le (lo + st) hi st else [])"
  by pat_completeness auto
termination
  by (relation "measure (\<lambda>(lo, hi, st). Suc hi - lo)") auto

declare range_lt.simps [simp del] range_le.simps [simp del]

lemma range_lt_mult:
  "0 < st \<Longrightarrow> range_lt (a * st) ((a + k) * st) st = map (\<lambda>i. i * st) [a..<a + k]"
proof (induction k arbitrary: a)
  case 0
  then show ?case by (simp add: range_lt.simps)
next
  case (Suc k)
  have "range_lt (a * st) ((a + Suc k) * st) st
      = a * st # range_lt (Suc a * st) ((Suc a + k) * st) st"
    using Suc.prems by (subst range_lt.simps) (simp add: algebra_simps)
  also have "\<dots> = a * st # map (\<lambda>i. i * st) [Suc a..<Suc a + k]"
    using Suc.IH [of "Suc a"] Suc.prems by simp
  finally show ?case by (simp add: upt_conv_Cons del: upt_Suc)
qed

lemma range_le_mult:
  assumes "0 < st"
  shows "a * st \<le> hi \<Longrightarrow> range_le (a * st) hi st = map (\<lambda>i. i * st) [a..<hi div st]"
proof (induction "hi div st - a" arbitrary: a)
  case 0
  then have "hi div st \<le> a" by simp
  then have "\<not> a * st + st \<le> hi"
    using assms by (metis add.commute div_le_mono le_trans mult_Suc nonzero_mult_div_cancel_right
      not_less_eq_eq neq0_conv)
  with 0 show ?case by (simp add: range_le.simps)
next
  case (Suc d)
  then have le: "Suc a * st \<le> hi"
    using assms by (metis Suc_leI less_eq_div_iff_mult_less_eq zero_less_Suc zero_less_diff)
  have "range_le (Suc a * st) hi st = map (\<lambda>i. i * st) [Suc a..<hi div st]"
    using Suc.hyps(1) [of "Suc a"] Suc.hyps(2) le by simp
  moreover have "a < hi div st" using Suc.hyps(2) by simp
  ultimately show ?case
    using assms le by (subst range_le.simps) (simp add: upt_conv_Cons add.commute)
qed

lemma range_le_from_0: "0 < st \<Longrightarrow> range_le 0 hi st = map (\<lambda>i. i * st) [0..<hi div st]"
  using range_le_mult [of st 0 hi] by simp

lemma for_list_append:
  "for_list f (xs @ ys) s = do { s' \<leftarrow> for_list f xs s; for_list f ys s' }"
  by (induction xs arbitrary: s) (auto split: bind_splits)

lemma for_list_map: "for_list f (map g xs) s = for_list (\<lambda>x. f (g x)) xs s"
  by (induction xs arbitrary: s) (auto split: bind_splits)

lemma for_list_pure:
  "(\<And>x t. x \<in> set xs \<Longrightarrow> f x t = Some (g x t)) \<Longrightarrow> for_list f xs s = Some (fold g xs s)"
  by (induction xs arbitrary: s) simp_all

lemma for_list_cong:
  "(\<And>x t. x \<in> set xs \<Longrightarrow> f x t = g x t) \<Longrightarrow> for_list f xs s = for_list g xs s"
  by (induction xs arbitrary: s) (auto split: bind_splits)

text \<open>The loop rule: an invariant that each pass keeps, passes not panicking under it.\<close>

lemma for_list_inv:
  assumes "P s" and "\<And>x t. x \<in> set xs \<Longrightarrow> P t \<Longrightarrow> \<exists>t'. f x t = Some t' \<and> P t'"
  shows "\<exists>s'. for_list f xs s = Some s' \<and> P s'"
  using assms
proof (induction xs arbitrary: s)
  case Nil
  then show ?case by simp
next
  case (Cons x xs)
  then obtain t where "f x s = Some t" "P t" by (metis list.set_intros(1))
  with Cons.IH [of t] Cons.prems(2) show ?case by auto
qed

lemma those_map_Some: "(\<And>x. x \<in> set xs \<Longrightarrow> f x = Some (g x)) \<Longrightarrow> those (map f xs) = Some (map g xs)"
  by (induction xs) simp_all

lemma disjoint_ranges: "A \<subseteq> {a..<b} \<Longrightarrow> B \<subseteq> {c..<d} \<Longrightarrow> b \<le> c \<Longrightarrow> A \<inter> B = {}"
  for a b c d :: nat
  by fastforce

section \<open>First match of a list\<close>

lemma find_SomeD: "find P xs = Some x \<Longrightarrow> x \<in> set xs \<and> P x"
  by (auto simp: find_Some_iff)

lemma find_exists: "(\<exists>x. find P xs = Some x) \<longleftrightarrow> (\<exists>x\<in>set xs. P x)"
  by (metis find_None_iff find_SomeD not_None_eq)

section \<open>Lists cut into blocks of equal length\<close>

text \<open>\<open>pieces k n xs\<close> are the first \<open>n\<close> blocks of length \<open>k\<close> of \<open>xs\<close>.\<close>

definition pieces :: "nat \<Rightarrow> nat \<Rightarrow> 'a list \<Rightarrow> 'a list list" where
  "pieces k n xs = map (\<lambda>i. take k (drop (i * k) xs)) [0..<n]"

definition overwrite :: "'a list \<Rightarrow> nat \<Rightarrow> 'a list \<Rightarrow> 'a list" where
  "overwrite xs off p = take off xs @ p @ drop (off + length p) xs"

lemma length_concat_blocks:
  "(\<And>x. x \<in> set xs \<Longrightarrow> length x = k) \<Longrightarrow> length (concat xs) = length xs * k"
  by (induction xs) auto

lemma drop_concat_blocks:
  "(\<And>x. x \<in> set xs \<Longrightarrow> length x = k) \<Longrightarrow> drop (i * k) (concat xs) = concat (drop i xs)"
proof (induction i arbitrary: xs)
  case 0
  then show ?case by simp
next
  case (Suc i)
  then show ?case by (cases xs) auto
qed

lemma take_concat_blocks:
  "(\<And>x. x \<in> set xs \<Longrightarrow> length x = k) \<Longrightarrow> take (i * k) (concat xs) = concat (take i xs)"
proof (induction i arbitrary: xs)
  case 0
  then show ?case by simp
next
  case (Suc i)
  then show ?case by (cases xs) auto
qed

lemma take_concat_mid:
  assumes "\<And>x. x \<in> set xs \<Longrightarrow> length x = k" "q < length xs" "r \<le> k"
  shows "take (q * k + r) (concat xs) = concat (take q xs) @ take r (xs ! q)"
proof -
  have "take (q * k + r) (concat xs) = take (q * k) (concat xs) @ take r (drop (q * k) (concat xs))"
    by (rule take_add)
  moreover have "drop (q * k) (concat xs) = xs ! q @ concat (drop (Suc q) xs)"
    using drop_concat_blocks [of xs k q] assms(1,2) by (simp flip: Cons_nth_drop_Suc)
  moreover have "length (xs ! q) = k" using assms(1,2) by simp
  ultimately show ?thesis using take_concat_blocks [of xs k q] assms(1,3) by simp
qed

lemma nth_concat_blocks:
  assumes "\<And>x. x \<in> set xs \<Longrightarrow> length x = k" "0 < k" "i < length xs * k"
  shows "concat xs ! i = xs ! (i div k) ! (i mod k)"
proof -
  have q: "i div k < length xs" using assms(3) by (simp add: less_mult_imp_div_less)
  have "drop (i div k * k) (concat xs) = xs ! (i div k) @ concat (drop (Suc (i div k)) xs)"
    using drop_concat_blocks [of xs k "i div k"] assms(1) q by (simp flip: Cons_nth_drop_Suc)
  moreover have "i mod k < length (xs ! (i div k))" using assms(1,2) q by simp
  moreover have "i div k * k \<le> length (concat xs)"
    using length_concat_blocks [of xs k] assms(1) q by (metis less_imp_le_nat mult_le_mono1)
  moreover have "concat xs ! i = drop (i div k * k) (concat xs) ! (i mod k)"
    using calculation(3) by simp
  ultimately show ?thesis by (simp add: nth_append)
qed

lemma concat_list_update:
  assumes "\<And>x. x \<in> set xs \<Longrightarrow> length x = k" "0 < k" "i < length xs * k"
  shows "(concat xs)[i := y] = concat (xs[i div k := (xs ! (i div k))[i mod k := y]])"
  using assms
proof (induction xs arbitrary: i)
  case (Cons x xs)
  show ?case
  proof (cases "i < k")
    case True
    then show ?thesis using Cons.prems by (simp add: list_update_append)
  next
    case False
    then have d: "i div k = Suc ((i - k) div k)" "i mod k = (i - k) mod k"
      using Cons.prems(2) by (simp_all add: div_if le_mod_geq)
    from False Cons.prems Cons.IH [of "i - k"] show ?thesis
      by (simp add: list_update_append d)
  qed
qed simp

lemma pieces_concat:
  assumes "\<And>x. x \<in> set xs \<Longrightarrow> length x = k" and "n \<le> length xs"
  shows "pieces k n (concat xs @ ys) = take n xs"
proof (rule nth_equalityI)
  show "length (pieces k n (concat xs @ ys)) = length (take n xs)"
    using assms by (simp add: pieces_def)
next
  fix i assume "i < length (pieces k n (concat xs @ ys))"
  then have i: "i < n" "i < length xs" using assms by (simp_all add: pieces_def)
  have le: "i * k \<le> length (concat xs)"
    using i length_concat_blocks [of xs k] assms(1) by simp
  have "drop (i * k) (concat xs) = xs ! i @ concat (drop (Suc i) xs)"
    using i drop_concat_blocks [of xs k i] assms(1) by (simp flip: Cons_nth_drop_Suc)
  then have "take k (drop (i * k) (concat xs @ ys)) = xs ! i"
    using le i assms(1) by simp
  then show "pieces k n (concat xs @ ys) ! i = take n xs ! i"
    using i by (simp add: pieces_def)
qed

lemma length_pieces [simp]: "length (pieces k n xs) = n"
  by (simp add: pieces_def)

lemma pieces_length: "n * k \<le> length xs \<Longrightarrow> x \<in> set (pieces k n xs) \<Longrightarrow> length x = k"
proof -
  assume le: "n * k \<le> length xs" and "x \<in> set (pieces k n xs)"
  then obtain i where i: "i < n" "x = take k (drop (i * k) xs)" by (auto simp: pieces_def)
  have "Suc i * k \<le> n * k" using i by (intro mult_le_mono1) simp
  with le i show "length x = k" by simp
qed

lemma concat_pieces: "n * k \<le> length xs \<Longrightarrow> concat (pieces k n xs) = take (n * k) xs"
proof (induction n)
  case 0
  then show ?case by (simp add: pieces_def)
next
  case (Suc n)
  then have "concat (pieces k n xs) = take (n * k) xs" by simp
  moreover have "take (n * k + k) xs = take (n * k) xs @ take k (drop (n * k) xs)"
    by (rule take_add)
  ultimately show ?case by (simp add: pieces_def add.commute)
qed

lemma length_overwrite [simp]: "off + length p \<le> length xs \<Longrightarrow> length (overwrite xs off p) = length xs"
  by (simp add: overwrite_def)

lemma overwrite_Nil [simp]: "overwrite xs off [] = xs"
  by (simp add: overwrite_def)

lemma overwrite_same:
  "off + length p \<le> length xs \<Longrightarrow> take (length p) (drop off (overwrite xs off p)) = p"
  by (simp add: overwrite_def)

lemma overwrite_append:
  "off + length p + length q \<le> length xs \<Longrightarrow>
   overwrite (overwrite xs off p) (off + length p) q = overwrite xs off (p @ q)"
  by (simp add: overwrite_def ac_simps)

lemma overwrite_nth:
  "off + length p \<le> length xs \<Longrightarrow> i < length xs \<Longrightarrow>
   overwrite xs off p ! i = (if off \<le> i \<and> i < off + length p then p ! (i - off) else xs ! i)"
  by (auto simp: overwrite_def nth_append add.commute)

lemma overwrite_overwrite:
  "length p = length q \<Longrightarrow> off + length p \<le> length xs \<Longrightarrow>
   overwrite (overwrite xs off p) off q = overwrite xs off q"
  by (simp add: overwrite_def)

lemma overwrite_commute:
  assumes "a + length p \<le> b" "b + length q \<le> length xs"
  shows "overwrite (overwrite xs a p) b q = overwrite (overwrite xs b q) a p"
  using assms by (intro nth_equalityI) (auto simp: overwrite_nth)

section \<open>Little-endian integers (encoding/binary)\<close>

definition le_put :: "nat \<Rightarrow> 'a::len word \<Rightarrow> bytes" where
  "le_put k w = map (\<lambda>i. ucast (drop_bit (8 * i) w)) [0..<k]"

definition le_get :: "bytes \<Rightarrow> 'a::len word" where
  "le_get bs = foldr (\<lambda>b acc. ucast b OR push_bit 8 acc) bs 0"

definition get_u16 :: "bytes \<Rightarrow> uint16 option" where
  "get_u16 bs = (if length bs < 2 then None else Some (le_get (take 2 bs)))"

definition get_u32 :: "bytes \<Rightarrow> uint32 option" where
  "get_u32 bs = (if length bs < 4 then None else Some (le_get (take 4 bs)))"

definition get_u64 :: "bytes \<Rightarrow> uint64 option" where
  "get_u64 bs = (if length bs < 8 then None else Some (le_get (take 8 bs)))"

lemma length_le_put [simp]: "length (le_put k w) = k"
  by (simp add: le_put_def)

lemma get_u16_Some [go_eval]: "2 \<le> length bs \<Longrightarrow> get_u16 bs = Some (le_get (take 2 bs))"
  by (simp add: get_u16_def)

lemma get_u32_Some [go_eval]: "4 \<le> length bs \<Longrightarrow> get_u32 bs = Some (le_get (take 4 bs))"
  by (simp add: get_u32_def)

lemma get_u64_Some [go_eval]: "8 \<le> length bs \<Longrightarrow> get_u64 bs = Some (le_get (take 8 bs))"
  by (simp add: get_u64_def)

lemma bit_le_get:
  "bit (le_get bs :: 'a::len word) n \<longleftrightarrow>
   n < LENGTH('a) \<and> n div 8 < length bs \<and> bit (bs ! (n div 8)) (n mod 8)"
proof (induction bs arbitrary: n)
  case Nil
  then show ?case by (simp add: le_get_def)
next
  case (Cons b bs)
  have *: "(le_get (b # bs) :: 'a word) = ucast b OR push_bit 8 (le_get bs)"
    by (simp add: le_get_def)
  show ?case
  proof (cases "n < 8")
    case True
    then show ?thesis by (auto simp: * bit_simps)
  next
    case False
    then have "n div 8 = Suc ((n - 8) div 8)" "n mod 8 = (n - 8) mod 8"
      by (simp_all add: div_if le_mod_geq)
    with False Cons.IH [of "n - 8"] show ?thesis
      by (auto simp: * bit_simps not_less dest: bit_imp_le_length)
  qed
qed

lemma le_get_put:
  assumes "LENGTH('a::len) = 8 * k"
  shows "le_get (le_put k (w :: 'a word)) = w"
proof (rule bit_word_eqI)
  fix n assume n: "n < LENGTH('a)"
  then have "n div 8 < k" using assms by simp
  with n show "bit (le_get (le_put k w) :: 'a word) n = bit w n"
    by (simp add: bit_le_get le_put_def bit_simps)
qed

lemma le_put_get:
  assumes "LENGTH('a::len) = 8 * length bs"
  shows "le_put (length bs) (le_get bs :: 'a word) = bs"
proof (rule nth_equalityI)
  fix i assume "i < length (le_put (length bs) (le_get bs :: 'a word))"
  then have i: "i < length bs" by simp
  show "le_put (length bs) (le_get bs :: 'a word) ! i = bs ! i"
  proof (rule bit_word_eqI)
    fix n assume "n < LENGTH(8)"
    then have n: "n < 8" by simp
    then have "8 * i + n < LENGTH('a)" using i assms by simp
    moreover have "(8 * i + n) div 8 = i" "(8 * i + n) mod 8 = n" using n by simp_all
    ultimately show "bit (le_put (length bs) (le_get bs :: 'a word) ! i) n = bit (bs ! i) n"
      using i n by (simp add: le_put_def bit_simps bit_le_get)
  qed
qed simp

lemmas le_get_put_sizes [simp] =
  le_get_put [where 'a = 16 and k = 2, simplified]
  le_get_put [where 'a = 32 and k = 4, simplified]
  le_get_put [where 'a = 64 and k = 8, simplified]

lemma le_get_inj:
  "LENGTH('a::len) = 8 * length xs \<Longrightarrow> length xs = length ys \<Longrightarrow>
   (le_get xs :: 'a word) = le_get ys \<longleftrightarrow> xs = ys"
  by (metis le_put_get)

end
