(* ===== verification/Device.thy ===== *)
theory Device
  imports Prelude
begin

text \<open>
  src/blockdevice/blockdevice.go: the copy-on-write device. A Device is a record of the
  base image and the dirty overlay (a map from int64 block indices to blocks); New,
  checkRange, ReadAt and WriteAt are translated statement by statement. The contract of the
  device is a flat image: reads return a range of it, writes splice into it. The locale
  \<open>flat_store\<close> states that contract; what follows from it alone (read after write,
  independence of disjoint writes, runs of writes) is proved there once.
\<close>

definition BlockSize :: nat where
  "BlockSize = 4096"

datatype device_error = ErrUnaligned | ErrOutOfRange

record device =
  base :: bytes
  dirty :: "(int, bytes) mapping"

text \<open>New panics when the base is not block-aligned.\<close>

definition New :: "bytes \<Rightarrow> device option" where
  "New bs = (if length bs mod BlockSize \<noteq> 0 then None
             else Some \<lparr>base = bs, dirty = Mapping.empty\<rparr>)"

text \<open>The error of checkRange, \<open>None\<close> standing for nil.\<close>

definition checkRange :: "device \<Rightarrow> nat \<Rightarrow> int \<Rightarrow> device_error option" where
  "checkRange d n off =
     (if off smod int BlockSize \<noteq> 0 \<or> n mod BlockSize \<noteq> 0 then Some ErrUnaligned
      else if off < 0 \<or> off > int (length (base d))
              \<or> int n > i64 (int (length (base d)) - off) then Some ErrOutOfRange
      else None)"

declare Option.bind_cong [fundef_cong]

text \<open>The loop of ReadAt: the buffer \<open>p\<close> and the counter \<open>n\<close> are its state.\<close>

function ReadAt_loop :: "device \<Rightarrow> int \<Rightarrow> nat \<Rightarrow> bytes \<Rightarrow> (bytes \<times> nat) option" where
  "ReadAt_loop d off n p =
     (if n < length p then do {
        let idx = i64 (off + int n) sdiv int BlockSize;
        src \<leftarrow> subslicei (base d) (i64 (idx * int BlockSize)) (i64 ((idx + 1) * int BlockSize));
        let src = (case Mapping.lookup (dirty d) idx of Some b \<Rightarrow> b | None \<Rightarrow> src);
        p' \<leftarrow> copy_into p n (n + BlockSize) src;
        ReadAt_loop d off (n + BlockSize) p'
      } else Some (p, n))"
  by pat_completeness auto
termination
  by (relation "measure (\<lambda>(d, off, n, p). length p - n)")
    (auto simp: BlockSize_def dest!: copy_into_length)

definition ReadAt ::
    "device \<Rightarrow> bytes \<Rightarrow> int \<Rightarrow> (bytes \<times> nat \<times> device_error option) option" where
  "ReadAt d p off =
     (case checkRange d (length p) off of
        Some e \<Rightarrow> Some (p, 0, Some e)
      | None \<Rightarrow> do { (p', n) \<leftarrow> ReadAt_loop d off 0 p; Some (p', n, None) })"

text \<open>The loop of WriteAt: the device and the counter are its state.\<close>

function WriteAt_loop :: "device \<Rightarrow> bytes \<Rightarrow> int \<Rightarrow> nat \<Rightarrow> (device \<times> nat) option" where
  "WriteAt_loop d p off n =
     (if n < length p then do {
        let idx = i64 (off + int n) sdiv int BlockSize;
        let b = (case Mapping.lookup (dirty d) idx of Some b \<Rightarrow> b | None \<Rightarrow> replicate BlockSize 0);
        chunk \<leftarrow> subslice p n (n + BlockSize);
        b' \<leftarrow> copy_into b 0 (length b) chunk;
        WriteAt_loop (d\<lparr>dirty := Mapping.update idx b' (dirty d)\<rparr>) p off (n + BlockSize)
      } else Some (d, n))"
  by pat_completeness auto
termination
  by (relation "measure (\<lambda>(d, p, off, n). length p - n)") (auto simp: BlockSize_def)

definition WriteAt ::
    "device \<Rightarrow> bytes \<Rightarrow> int \<Rightarrow> (device \<times> nat \<times> device_error option) option" where
  "WriteAt d p off =
     (case checkRange d (length p) off of
        Some e \<Rightarrow> Some (d, 0, Some e)
      | None \<Rightarrow> do { (d', n) \<leftarrow> WriteAt_loop d p off 0; Some (d', n, None) })"

declare ReadAt_loop.simps [simp del] WriteAt_loop.simps [simp del]

section \<open>Well-formed devices and the disk_image they present\<close>

lemma BlockSize_pos [simp]: "0 < BlockSize" "BlockSize \<noteq> 0"
  by (simp_all add: BlockSize_def)

definition nblocks :: "bytes \<Rightarrow> nat" where
  "nblocks bs = length bs div BlockSize"

definition valid_base :: "bytes \<Rightarrow> bool" where
  "valid_base bs \<longleftrightarrow> length bs mod BlockSize = 0 \<and> int (length bs) < 2 ^ 63"

definition valid_overlay :: "nat \<Rightarrow> (int, bytes) mapping \<Rightarrow> bool" where
  "valid_overlay k m \<longleftrightarrow>
     (\<forall>i b. Mapping.lookup m i = Some b \<longrightarrow> 0 \<le> i \<and> i < int k \<and> length b = BlockSize)"

definition valid_device :: "device \<Rightarrow> bool" where
  "valid_device d \<longleftrightarrow> valid_base (base d) \<and> valid_overlay (nblocks (base d)) (dirty d)"

definition block_at :: "device \<Rightarrow> nat \<Rightarrow> bytes" where
  "block_at d i =
     (case Mapping.lookup (dirty d) (int i) of
        Some b \<Rightarrow> b
      | None \<Rightarrow> take BlockSize (drop (i * BlockSize) (base d)))"

definition disk_image :: "device \<Rightarrow> bytes" where
  "disk_image d = concat (map (block_at d) [0..<nblocks (base d)])"

lemma valid_overlayD:
  assumes "valid_overlay k m" "Mapping.lookup m i = Some b"
  shows "0 \<le> i" "i < int k" "length b = BlockSize"
  using assms by (auto simp: valid_overlay_def)

lemma valid_overlay_empty [simp]: "valid_overlay k Mapping.empty"
  by (simp add: valid_overlay_def)

lemma valid_overlay_update:
  "valid_overlay k m \<Longrightarrow> 0 \<le> i \<Longrightarrow> i < int k \<Longrightarrow> length b = BlockSize \<Longrightarrow>
   valid_overlay k (Mapping.update i b m)"
  by (auto simp: valid_overlay_def lookup_update' split: if_splits)

lemma valid_overlay_finite: "valid_overlay k m \<Longrightarrow> finite (Mapping.keys m)"
  by (rule finite_subset [of _ "{0..<int k}"])
    (auto simp: keys_dom_lookup valid_overlay_def)

lemma valid_base_length: "valid_base bs \<Longrightarrow> nblocks bs * BlockSize = length bs"
  by (simp add: valid_base_def nblocks_def mod_0_imp_dvd)

lemma base_block_length:
  "valid_base bs \<Longrightarrow> i < nblocks bs \<Longrightarrow> length (take BlockSize (drop (i * BlockSize) bs)) = BlockSize"
proof -
  assume "valid_base bs" "i < nblocks bs"
  then have "Suc i * BlockSize \<le> length bs"
    by (metis Suc_leI mult_le_mono1 valid_base_length)
  then show ?thesis by simp
qed

lemma block_at_length:
  "valid_device d \<Longrightarrow> i < nblocks (base d) \<Longrightarrow> length (block_at d i) = BlockSize"
  using base_block_length [of "base d" i]
  by (auto simp: valid_device_def block_at_def valid_overlay_def split: option.splits)

lemma blocks_length:
  "valid_device d \<Longrightarrow> x \<in> set (map (block_at d) [0..<nblocks (base d)]) \<Longrightarrow> length x = BlockSize"
  by (auto simp: block_at_length)

lemma disk_image_length: "valid_device d \<Longrightarrow> length (disk_image d) = length (base d)"
  unfolding disk_image_def
  by (subst length_concat_blocks [where k = BlockSize])
    (auto simp: block_at_length valid_base_length valid_device_def)

lemma New_valid: "valid_base bs \<Longrightarrow> New bs = Some \<lparr>base = bs, dirty = Mapping.empty\<rparr>"
  by (simp add: New_def valid_base_def)

lemma valid_device_fresh: "valid_base bs \<Longrightarrow> valid_device \<lparr>base = bs, dirty = Mapping.empty\<rparr>"
  by (simp add: valid_device_def)

lemma disk_image_fresh: "valid_base bs \<Longrightarrow> disk_image \<lparr>base = bs, dirty = Mapping.empty\<rparr> = bs"
proof -
  assume v: "valid_base bs"
  have "disk_image \<lparr>base = bs, dirty = Mapping.empty\<rparr> = concat (pieces BlockSize (nblocks bs) bs)"
    by (simp add: disk_image_def pieces_def block_at_def cong: map_cong)
  with v show ?thesis by (simp add: concat_pieces valid_base_length)
qed

text \<open>A range of whole blocks of the image.\<close>

lemma disk_image_range:
  assumes "valid_device d" "i + k \<le> nblocks (base d)"
  shows "take (k * BlockSize) (drop (i * BlockSize) (disk_image d)) = concat (map (block_at d) [i..<i + k])"
proof -
  let ?xs = "map (block_at d) [0..<nblocks (base d)]"
  have len: "length x = BlockSize" if "x \<in> set ?xs" for x
    using that assms(1) by (rule blocks_length [rotated])
  have "drop (i * BlockSize) (disk_image d) = concat (drop i ?xs)"
    unfolding disk_image_def using len by (rule drop_concat_blocks)
  also have "take (k * BlockSize) \<dots> = concat (take k (drop i ?xs))"
    using len by (intro take_concat_blocks) (meson in_set_dropD)
  also have "take k (drop i ?xs) = map (block_at d) [i..<i + k]"
    using assms(2) by (simp add: drop_map take_map drop_upt take_upt)
  finally show ?thesis .
qed

section \<open>The loops of ReadAt and WriteAt\<close>

text \<open>The range check, stated over the integers: nothing wraps for a slice-sized device.\<close>

lemma checkRange_eq:
  assumes "int (length (base d)) < 2 ^ 63"
  shows "checkRange d n off =
    (if off mod int BlockSize \<noteq> 0 \<or> n mod BlockSize \<noteq> 0 then Some ErrUnaligned
     else if off < 0 \<or> int (length (base d)) < off + int n then Some ErrOutOfRange
     else None)"
proof -
  have "i64 (int (length (base d)) - off) = int (length (base d)) - off"
    if "0 \<le> off" "off \<le> int (length (base d))"
    using that assms by (intro i64_id) auto
  then show ?thesis unfolding checkRange_def smod_eq_0 by auto
qed

text \<open>Block-aligned requests, as block numbers: \<open>k\<close> blocks from block \<open>i\<close>.\<close>

lemma checkRange_None:
  assumes "valid_base (base d)" "checkRange d n off = None"
  obtains i k where "off = int (i * BlockSize)" "n = k * BlockSize" "i + k \<le> nblocks (base d)"
proof
  from assms have *: "off mod int BlockSize = 0" "n mod BlockSize = 0" "0 \<le> off"
      "off + int n \<le> int (length (base d))"
    by (auto simp: checkRange_eq valid_base_def split: if_splits)
  then show o: "off = int (nat off div BlockSize * BlockSize)"
    by (metis div_mult_mod_eq add.right_neutral int_nat_eq nat_mod_as_int of_nat_0 nat_0
        of_nat_eq_0_iff zmod_int)
  from * show n: "n = n div BlockSize * BlockSize" by (simp add: mod_0_imp_dvd)
  have "nat off + n \<le> length (base d)" using * by linarith
  then have "nat off div BlockSize * BlockSize + n div BlockSize * BlockSize
      \<le> nblocks (base d) * BlockSize"
    using o n assms(1) by (metis nat_int valid_base_length)
  then show "nat off div BlockSize + n div BlockSize \<le> nblocks (base d)"
    by (simp flip: add_mult_distrib)
qed

lemma checkRange_Some_cases:
  "checkRange d n off = Some e \<Longrightarrow> e = ErrUnaligned \<or> e = ErrOutOfRange"
  by (cases e) simp_all

text \<open>Inside the device the index arithmetic of the loops does not wrap.\<close>

lemma io_index:
  assumes "valid_base bs" "i + j < nblocks bs"
  shows "i64 (int (i * BlockSize) + int (j * BlockSize)) sdiv int BlockSize = int (i + j)"
    and "i64 (int (i + j) * int BlockSize) = int ((i + j) * BlockSize)"
    and "i64 ((int (i + j) + 1) * int BlockSize) = int (Suc (i + j) * BlockSize)"
    and "Suc (i + j) * BlockSize \<le> length bs"
proof -
  define a b where "a = (i + j) * BlockSize" and "b = Suc (i + j) * BlockSize"
  show "Suc (i + j) * BlockSize \<le> length bs"
    using assms by (metis Suc_leI mult_le_mono1 valid_base_length)
  then have "b \<le> length bs" unfolding b_def .
  then have "int b < 2 ^ 63" using assms(1) by (simp add: valid_base_def)
  moreover have "a \<le> b" unfolding a_def b_def by (intro mult_le_mono1) simp
  ultimately have i64: "i64 (int a) = int a" "i64 (int b) = int b"
    by (simp_all add: i64_id)
  have "int (i * BlockSize) + int (j * BlockSize) = int a" by (simp add: a_def algebra_simps)
  then show "i64 (int (i * BlockSize) + int (j * BlockSize)) sdiv int BlockSize = int (i + j)"
    unfolding i64 by (simp add: i64 sdiv_nonneg) (simp add: a_def)
  show "i64 (int (i + j) * int BlockSize) = int ((i + j) * BlockSize)"
    using i64(1) by (simp add: a_def)
  show "i64 ((int (i + j) + 1) * int BlockSize) = int (Suc (i + j) * BlockSize)"
    using i64(2) by (simp add: b_def algebra_simps)
qed

lemma ReadAt_loop_eq:
  assumes "valid_device d" "i + k \<le> nblocks (base d)" "length p = k * BlockSize" "j \<le> k"
  shows "ReadAt_loop d (int (i * BlockSize)) (j * BlockSize) p
       = Some (take (j * BlockSize) p @ concat (map (block_at d) [i + j..<i + k]), k * BlockSize)"
  using assms(3,4)
proof (induction "k - j" arbitrary: j p)
  case 0
  then show ?case by (simp add: ReadAt_loop.simps)
next
  case (Suc m)
  then have j: "j < k" "i + j < nblocks (base d)" using assms(2) by simp_all
  have vb: "valid_base (base d)" using assms(1) by (simp add: valid_device_def)
  note ix = io_index [OF vb j(2)]
  define b where "b = block_at d (i + j)"
  have lb: "length b = BlockSize"
    using assms(1) j(2) by (simp add: b_def block_at_length)
  define p' where "p' = take (j * BlockSize) p @ b @ drop (Suc j * BlockSize) p"
  have Sj: "Suc j * BlockSize \<le> length p" using j Suc.prems(1) by (metis Suc_leI mult_le_mono1)
  have lt: "j * BlockSize < length p" using j Suc.prems by simp
  have step: "ReadAt_loop d (int (i * BlockSize)) (j * BlockSize) p
      = ReadAt_loop d (int (i * BlockSize)) (Suc j * BlockSize) p'"
  proof -
    have sl: "subslice (base d) ((i + j) * BlockSize) (Suc (i + j) * BlockSize)
        = Some (take BlockSize (drop ((i + j) * BlockSize) (base d)))"
      using ix(4) by (simp add: subslice_Some)
    have b: "(case Mapping.lookup (dirty d) (int (i + j)) of Some b \<Rightarrow> b
        | None \<Rightarrow> take BlockSize (drop ((i + j) * BlockSize) (base d))) = b"
      by (simp add: b_def block_at_def)
    have sj: "j * BlockSize + BlockSize = Suc j * BlockSize" by simp
    have cp: "copy_into p (j * BlockSize) (Suc j * BlockSize) b = Some p'"
      using Sj lb by (subst copy_into_exact) (simp_all add: p'_def)
    show ?thesis
      by (subst ReadAt_loop.simps)
        (simp only: lt if_True Let_def ix subslicei_int sl bind.bind_lunit b cp sj)
  qed
  have "ReadAt_loop d (int (i * BlockSize)) (Suc j * BlockSize) p'
      = Some (take (Suc j * BlockSize) p' @ concat (map (block_at d) [i + Suc j..<i + k]), k * BlockSize)"
  proof (rule Suc.hyps(1))
    show "m = k - Suc j" using Suc.hyps(2) by simp
    show "length p' = k * BlockSize" using Sj lb Suc.prems(1) by (simp add: p'_def)
    show "Suc j \<le> k" using j by simp
  qed
  moreover have "take (Suc j * BlockSize) p' = take (j * BlockSize) p @ b"
    using Sj lb lt by (simp add: p'_def min_def)
  ultimately show ?case
    using j by (simp add: step upt_conv_Cons [of "i + j"] b_def del: of_nat_mult)
qed

lemma ReadAt_eq:
  assumes "valid_device d" "checkRange d (length p) off = None"
  shows "ReadAt d p off = Some (take (length p) (drop (nat off) (disk_image d)), length p, None)"
proof -
  from assms obtain i k where ik: "off = int (i * BlockSize)" "length p = k * BlockSize"
      "i + k \<le> nblocks (base d)"
    by (auto simp: valid_device_def elim: checkRange_None)
  then show ?thesis
    using ReadAt_loop_eq [OF assms(1) ik(3,2), of 0] disk_image_range [OF assms(1) ik(3)] assms(2)
    by (simp add: ReadAt_def del: of_nat_mult)
qed

section \<open>WriteAt splices the disk_image\<close>

lemma block_at_update:
  "block_at (d\<lparr>dirty := Mapping.update (int i) b (dirty d)\<rparr>) j = (if i = j then b else block_at d j)"
  by (simp add: block_at_def lookup_update' split: option.split)

lemma valid_device_update:
  "valid_device d \<Longrightarrow> i < nblocks (base d) \<Longrightarrow> length b = BlockSize \<Longrightarrow>
   valid_device (d\<lparr>dirty := Mapping.update (int i) b (dirty d)\<rparr>)"
  by (simp add: valid_device_def valid_overlay_update)

lemma disk_image_update:
  assumes "valid_device d" "i < nblocks (base d)" "length b = BlockSize"
  shows "disk_image (d\<lparr>dirty := Mapping.update (int i) b (dirty d)\<rparr>) = overwrite (disk_image d) (i * BlockSize) b"
proof -
  let ?n = "nblocks (base d)"
  let ?f = "block_at d"
  have up: "[0..<?n] = [0..<i] @ i # [Suc i..<?n]"
    using assms(2) by (metis le0 upt_add_eq_append upt_conv_Cons less_imp_le_nat le_add_diff_inverse)
  have "disk_image (d\<lparr>dirty := Mapping.update (int i) b (dirty d)\<rparr>)
      = concat (map ?f [0..<i]) @ b @ concat (map ?f [Suc i..<?n])"
  proof -
    let ?g = "block_at (d\<lparr>dirty := Mapping.update (int i) b (dirty d)\<rparr>)"
    have "map ?g [0..<i] = map ?f [0..<i]" "map ?g [Suc i..<?n] = map ?f [Suc i..<?n]"
      by (simp_all add: block_at_update)
    moreover have "?g i = b" by (simp add: block_at_update)
    ultimately have "map ?g [0..<?n] = map ?f [0..<i] @ b # map ?f [Suc i..<?n]"
      by (simp only: up map_append list.map)
    then show ?thesis by (simp add: disk_image_def)
  qed
  moreover have "concat (map ?f [0..<i]) = take (i * BlockSize) (disk_image d)"
    using disk_image_range [OF assms(1), of 0 i] assms(2) by simp
  moreover have "concat (map ?f [Suc i..<?n]) = drop (i * BlockSize + length b) (disk_image d)"
    using disk_image_range [OF assms(1), of "Suc i" "?n - Suc i"] assms
    by (simp add: disk_image_length valid_base_length diff_mult_distrib valid_device_def add.commute)
  ultimately show ?thesis by (simp add: overwrite_def)
qed

text \<open>One pass of the loop stores the next block of the buffer.\<close>

lemma WriteAt_loop_step:
  assumes "valid_device d" "i + k \<le> nblocks (base d)" "length p = k * BlockSize" "j < k"
  shows "WriteAt_loop d p (int (i * BlockSize)) (j * BlockSize)
       = WriteAt_loop (d\<lparr>dirty := Mapping.update (int (i + j))
           (take BlockSize (drop (j * BlockSize) p)) (dirty d)\<rparr>) p (int (i * BlockSize)) (Suc j * BlockSize)"
proof -
  have vb: "valid_base (base d)" and j: "i + j < nblocks (base d)"
    using assms by (simp_all add: valid_device_def)
  note ix = io_index [OF vb j]
  define b where
    "b = (case Mapping.lookup (dirty d) (int (i + j)) of Some b \<Rightarrow> b | None \<Rightarrow> replicate BlockSize 0)"
  have lb: "length b = BlockSize"
    using assms(1) by (auto simp: b_def valid_device_def valid_overlay_def split: option.splits)
  define c where "c = take BlockSize (drop (j * BlockSize) p)"
  have Sj: "Suc j * BlockSize \<le> length p" using assms(3,4) by (metis Suc_leI mult_le_mono1)
  have sj: "j * BlockSize + BlockSize = Suc j * BlockSize" by simp
  have lt: "j * BlockSize < length p" using assms(3,4) by simp
  have ch: "subslice p (j * BlockSize) (Suc j * BlockSize) = Some c"
    using Sj by (simp add: subslice_Some c_def)
  have cp: "copy_into b 0 (length b) c = Some c"
    using Sj lb by (subst copy_into_exact) (simp_all add: c_def)
  show ?thesis
    by (subst WriteAt_loop.simps)
      (simp only: lt if_True Let_def ix b_def [symmetric] sj ch bind.bind_lunit cp c_def [symmetric])
qed

lemma WriteAt_loop_eq:
  assumes "valid_device d" "i + k \<le> nblocks (base d)" "length p = k * BlockSize" "j \<le> k"
  shows "\<exists>d'. WriteAt_loop d p (int (i * BlockSize)) (j * BlockSize) = Some (d', k * BlockSize)
    \<and> valid_device d' \<and> base d' = base d
    \<and> disk_image d' = overwrite (disk_image d) ((i + j) * BlockSize) (drop (j * BlockSize) p)
    \<and> Mapping.keys (dirty d') = Mapping.keys (dirty d) \<union> int ` {i + j..<i + k}"
  using assms(1,2,4)
proof (induction "k - j" arbitrary: j d)
  case 0
  then have "(i + j) * BlockSize \<le> length (disk_image d)"
    by (simp add: disk_image_length valid_base_length [symmetric] valid_device_def)
  with 0 assms(3) show ?case by (simp add: WriteAt_loop.simps overwrite_def)
next
  case (Suc m)
  let ?c = "take BlockSize (drop (j * BlockSize) p)"
  let ?d = "d\<lparr>dirty := Mapping.update (int (i + j)) ?c (dirty d)\<rparr>"
  have j: "j < k" "i + j < nblocks (base d)" using Suc by simp_all
  have Sj: "Suc j * BlockSize \<le> length p" using j(1) assms(3) by (metis Suc_leI mult_le_mono1)
  then have lc: "length ?c = BlockSize" by simp
  have "m = k - Suc j" "valid_device ?d" "i + k \<le> nblocks (base ?d)" "Suc j \<le> k"
    using Suc j lc by (simp_all add: valid_device_update del: of_nat_add)
  from Suc.hyps(1) [OF this] obtain d' where
    d': "WriteAt_loop ?d p (int (i * BlockSize)) (Suc j * BlockSize) = Some (d', k * BlockSize)"
      "valid_device d'" "base d' = base d"
      "disk_image d' = overwrite (disk_image ?d) ((i + Suc j) * BlockSize) (drop (Suc j * BlockSize) p)"
      "Mapping.keys (dirty d') = insert (int (i + j)) (Mapping.keys (dirty d)) \<union> int ` {i + Suc j..<i + k}"
    by auto
  have "(i + k) * BlockSize \<le> length (disk_image d)"
    using Suc.prems by (metis disk_image_length mult_le_mono1 valid_base_length valid_device_def)
  then have bnd: "(i + j) * BlockSize + length ?c + length (drop (Suc j * BlockSize) p) \<le> length (disk_image d)"
    using Sj assms(3) by (simp add: add_mult_distrib)
  have "(i + Suc j) * BlockSize = (i + j) * BlockSize + length ?c" using lc by simp
  then have "disk_image d' = overwrite (disk_image d) ((i + j) * BlockSize) (?c @ drop (Suc j * BlockSize) p)"
    using d'(4) by (simp only: disk_image_update [OF Suc.prems(1) j(2) lc] overwrite_append [OF bnd])
  moreover have "?c @ drop (Suc j * BlockSize) p = drop (j * BlockSize) p"
    by (metis add.commute append_take_drop_id drop_drop mult_Suc)
  moreover have "insert (int (i + j)) (int ` {i + Suc j..<i + k}) = int ` {i + j..<i + k}"
  proof -
    have "{i + j..<i + k} = insert (i + j) {i + Suc j..<i + k}" using j by auto
    then show ?thesis by (simp del: of_nat_add)
  qed
  ultimately show ?case
    using d' WriteAt_loop_step [OF Suc.prems(1,2) assms(3) j(1)] by auto
qed

lemma WriteAt_eq:
  assumes "valid_device d" "checkRange d (length p) off = None"
  shows "\<exists>d'. WriteAt d p off = Some (d', length p, None) \<and> valid_device d' \<and> base d' = base d
    \<and> disk_image d' = overwrite (disk_image d) (nat off) p
    \<and> Mapping.keys (dirty d') = Mapping.keys (dirty d)
        \<union> int ` {nat off div BlockSize..<(nat off + length p) div BlockSize}"
proof -
  from assms obtain i k where ik: "off = int (i * BlockSize)" "length p = k * BlockSize"
      "i + k \<le> nblocks (base d)"
    by (auto simp: valid_device_def elim: checkRange_None)
  have "nat off div BlockSize = i" "(nat off + length p) div BlockSize = i + k"
    unfolding ik by (simp_all flip: add_mult_distrib del: of_nat_mult)
  moreover from WriteAt_loop_eq [OF assms(1) ik(3,2), of 0] obtain d' where
    "WriteAt_loop d p (int (i * BlockSize)) 0 = Some (d', k * BlockSize)"
    "valid_device d'" "base d' = base d" "disk_image d' = overwrite (disk_image d) (i * BlockSize) p"
    "Mapping.keys (dirty d') = Mapping.keys (dirty d) \<union> int ` {i..<i + k}"
    by auto
  ultimately show ?thesis
    using assms(2) by (simp add: WriteAt_def ik del: of_nat_mult)
qed

lemma checkRange_bounds:
  assumes "valid_device d" "checkRange d n off = None"
  shows "0 \<le> off" "nat off + n \<le> length (disk_image d)"
  using assms by (auto simp: checkRange_eq valid_device_def valid_base_def disk_image_length
      split: if_splits)

lemma WriteAt_base:
  assumes "valid_device d" "WriteAt d p off = Some (d', n, e)"
  shows "base d' = base d"
proof (cases "checkRange d (length p) off")
  case None
  with WriteAt_eq [OF assms(1) None] assms(2) show ?thesis by auto
next
  case (Some e)
  then show ?thesis using assms(2) by (simp add: WriteAt_def)
qed

section \<open>The contract of a flat store\<close>

text \<open>
  What a user of ReadAt and WriteAt relies on: \<open>acc\<close> is the check of a request, \<open>img\<close> the
  bytes the store presents. An accepted read returns a range of the image, an accepted
  write splices the image, neither panics, and a refused request changes nothing.
\<close>

locale flat_store =
  fixes inv :: "'s \<Rightarrow> bool"
    and img :: "'s \<Rightarrow> bytes"
    and acc :: "'s \<Rightarrow> nat \<Rightarrow> int \<Rightarrow> 'e option"
    and rd :: "'s \<Rightarrow> bytes \<Rightarrow> int \<Rightarrow> (bytes \<times> nat \<times> 'e option) option"
    and wr :: "'s \<Rightarrow> bytes \<Rightarrow> int \<Rightarrow> ('s \<times> nat \<times> 'e option) option"
  assumes acc_bounds: "inv s \<Longrightarrow> acc s n off = None \<Longrightarrow> 0 \<le> off \<and> nat off + n \<le> length (img s)"
    and rd_ok: "inv s \<Longrightarrow> acc s (length p) off = None \<Longrightarrow>
      rd s p off = Some (take (length p) (drop (nat off) (img s)), length p, None)"
    and rd_err: "acc s (length p) off = Some e \<Longrightarrow> rd s p off = Some (p, 0, Some e)"
    and wr_ok: "inv s \<Longrightarrow> acc s (length p) off = None \<Longrightarrow>
      \<exists>s'. wr s p off = Some (s', length p, None) \<and> inv s' \<and> acc s' = acc s
        \<and> img s' = overwrite (img s) (nat off) p"
    and wr_err: "acc s (length p) off = Some e \<Longrightarrow> wr s p off = Some (s, 0, Some e)"
begin

lemma rd_total: "inv s \<Longrightarrow> rd s p off \<noteq> None"
  by (cases "acc s (length p) off") (simp_all add: rd_ok rd_err)

lemma wr_total: "inv s \<Longrightarrow> \<exists>s' n e. wr s p off = Some (s', n, e) \<and> inv s' \<and> acc s' = acc s
    \<and> length (img s') = length (img s)"
proof (cases "acc s (length p) off")
  case None
  assume "inv s"
  with wr_ok [OF this None] acc_bounds [OF this None] show ?thesis by auto
next
  case (Some e)
  assume "inv s"
  with Some show ?thesis by (simp add: wr_err)
qed

lemma read_after_write:
  assumes "inv s" "acc s (length p) off = None" "length q = length p"
  shows "\<exists>s'. wr s p off = Some (s', length p, None) \<and> rd s' q off = Some (p, length p, None)"
proof -
  from wr_ok [OF assms(1,2)] obtain s' where s': "wr s p off = Some (s', length p, None)"
      "inv s'" "acc s' = acc s" "img s' = overwrite (img s) (nat off) p"
    by blast
  then have "rd s' q off = Some (take (length q) (drop (nat off) (img s')), length q, None)"
    using assms by (intro rd_ok) simp_all
  with s' assms acc_bounds [OF assms(1,2)] show ?thesis by (simp add: overwrite_same)
qed

lemma write_elsewhere:
  assumes "inv s" "acc s (length p) off = None" "acc s (length q) off' = None"
    and "nat off + length p \<le> nat off' \<or> nat off' + length q \<le> nat off"
    and "wr s p off = Some (s', n, e)"
  shows "rd s' q off' = rd s q off'"
proof -
  from wr_ok [OF assms(1,2)] assms(5) have s': "inv s'" "acc s' = acc s"
      "img s' = overwrite (img s) (nat off) p"
    by auto
  have b: "nat off + length p \<le> length (img s)" "nat off' + length q \<le> length (img s)"
    using acc_bounds [OF assms(1,2)] acc_bounds [OF assms(1,3)] by simp_all
  have "take (length q) (drop (nat off') (overwrite (img s) (nat off) p))
      = take (length q) (drop (nat off') (img s))"
    using assms(4) b by (intro nth_equalityI) (auto simp: overwrite_nth)
  then show ?thesis using s' assms(1,3) by (simp add: rd_ok)
qed

text \<open>A run of accepted writes, in order; the image is the fold of the splices.\<close>

primrec write_run :: "(bytes \<times> int) list \<Rightarrow> 's \<Rightarrow> 's option" where
  "write_run [] s = Some s"
| "write_run (w # ws) s = do { (s', n, e) \<leftarrow> wr s (fst w) (snd w); write_run ws s' }"

lemma write_run_image:
  assumes "inv s" "\<And>w. w \<in> set ws \<Longrightarrow> acc s (length (fst w)) (snd w) = None"
  shows "\<exists>s'. write_run ws s = Some s' \<and> inv s' \<and> acc s' = acc s
    \<and> img s' = fold (\<lambda>w xs. overwrite xs (nat (snd w)) (fst w)) ws (img s)"
  using assms
proof (induction ws arbitrary: s)
  case Nil
  then show ?case by simp
next
  case (Cons w ws)
  from Cons.prems have "acc s (length (fst w)) (snd w) = None" by simp
  from wr_ok [OF Cons.prems(1) this] obtain s' where s': "wr s (fst w) (snd w) = Some (s', length (fst w), None)"
      "inv s'" "acc s' = acc s" "img s' = overwrite (img s) (nat (snd w)) (fst w)"
    by blast
  with Cons.IH [of s'] Cons.prems(2) show ?case by simp
qed

end

text \<open>The copy-on-write device is a flat store; its operations keep the base untouched.\<close>

lemma checkRange_base: "base d' = base d \<Longrightarrow> checkRange d' = checkRange d"
  by (intro ext) (simp add: checkRange_def)

interpretation cow: flat_store valid_device disk_image checkRange ReadAt WriteAt
proof unfold_locales
  show "0 \<le> off \<and> nat off + n \<le> length (disk_image s)"
    if "valid_device s" "checkRange s n off = None" for s n off
    using checkRange_bounds [OF that] by simp
  show "ReadAt s p off = Some (take (length p) (drop (nat off) (disk_image s)), length p, None)"
    if "valid_device s" "checkRange s (length p) off = None" for s p off
    using that by (rule ReadAt_eq)
  show "ReadAt s p off = Some (p, 0, Some e)" if "checkRange s (length p) off = Some e" for s p off e
    using that by (simp add: ReadAt_def)
  show "\<exists>s'. WriteAt s p off = Some (s', length p, None) \<and> valid_device s'
      \<and> checkRange s' = checkRange s \<and> disk_image s' = overwrite (disk_image s) (nat off) p"
    if "valid_device s" "checkRange s (length p) off = None" for s p off
    using WriteAt_eq [OF that] checkRange_base by blast
  show "WriteAt s p off = Some (s, 0, Some e)" if "checkRange s (length p) off = Some e" for s p off e
    using that by (simp add: WriteAt_def)
qed

section \<open>Sample devices\<close>

text \<open>An all-zero base of two blocks, bare and with its first block overwritten.\<close>

definition sample_base :: bytes where
  "sample_base = replicate (2 * BlockSize) 0"

definition sample_block :: bytes where
  "sample_block = replicate BlockSize 1"

definition sample_device :: device where
  "sample_device = \<lparr>base = sample_base, dirty = Mapping.update 0 sample_block Mapping.empty\<rparr>"

lemma sample_base_valid: "valid_base sample_base" "nblocks sample_base = 2"
  "length sample_base mod BlockSize = 0"
  by (simp_all add: sample_base_def valid_base_def nblocks_def) (simp add: BlockSize_def)

lemma sample_block_length [simp]: "length sample_block = BlockSize"
  by (simp add: sample_block_def)

lemma sample_device_simps [simp]:
  "base sample_device = sample_base"
  "Mapping.lookup (dirty sample_device) i = (if i = 0 then Some sample_block else None)"
  "Mapping.keys (dirty sample_device) = {0}"
  by (auto simp: sample_device_def lookup_update')

lemma sample_device_valid: "valid_device sample_device"
  by (simp add: valid_device_def valid_overlay_def sample_base_valid)

lemma sample_request:
  "checkRange sample_device BlockSize 0 = None"
  "checkRange sample_device BlockSize (int BlockSize) = None"
  by (simp_all add: checkRange_eq sample_base_def BlockSize_def)

section \<open>Properties of the device\<close>

text \<open>
  C10: an accepted write followed by a read of the same range returns the written bytes, and
  neither operation panics.
\<close>

theorem ReadAt_after_WriteAt:
  assumes "valid_device d" "checkRange d (length p) off = None" "length q = length p"
  shows "\<exists>d'. WriteAt d p off = Some (d', length p, None)
    \<and> ReadAt d' q off = Some (p, length p, None)"
  using assms by (rule cow.read_after_write)

theorem ReadAt_after_WriteAt_witness:
  "\<exists>d'. WriteAt sample_device sample_block 0 = Some (d', length sample_block, None)
    \<and> ReadAt d' sample_block 0 = Some (sample_block, length sample_block, None)"
  by (rule ReadAt_after_WriteAt) (simp_all add: sample_device_valid sample_request)

text \<open>
  C29: every WriteAt returns. A request that checkRange refuses changes nothing; an accepted
  one returns the length of the data, keeps the base and the invariant, splices the data into
  the image at the offset, and adds to the overlay exactly the blocks of the request.
\<close>

theorem WriteAt_correct:
  assumes "valid_device d"
  shows "case checkRange d (length p) off of
      Some e \<Rightarrow> WriteAt d p off = Some (d, 0, Some e)
    | None \<Rightarrow> \<exists>d'. WriteAt d p off = Some (d', length p, None) \<and> valid_device d' \<and> base d' = base d
        \<and> disk_image d' = overwrite (disk_image d) (nat off) p
        \<and> Mapping.keys (dirty d') = Mapping.keys (dirty d)
            \<union> int ` {nat off div BlockSize..<(nat off + length p) div BlockSize}"
  using WriteAt_eq [OF assms] by (auto simp: cow.wr_err split: option.split)

theorem WriteAt_correct_witness:
  "\<exists>d'. WriteAt sample_device sample_block (int BlockSize) = Some (d', length sample_block, None)
    \<and> valid_device d' \<and> base d' = sample_base"
  using WriteAt_correct [OF sample_device_valid, of sample_block "int BlockSize"]
  by (auto simp: sample_request)

text \<open>
  C30: every ReadAt returns; an accepted request fills the buffer with the range of the image
  (overlay blocks over the base), a refused one leaves it as it was.
\<close>

theorem ReadAt_correct:
  assumes "valid_device d"
  shows "ReadAt d p off = Some (case checkRange d (length p) off of
      Some e \<Rightarrow> (p, 0, Some e)
    | None \<Rightarrow> (take (length p) (drop (nat off) (disk_image d)), length p, None))"
  using ReadAt_eq [OF assms] by (simp add: cow.rd_err split: option.split)

theorem ReadAt_correct_witness:
  "ReadAt sample_device sample_block 0 =
     Some (take BlockSize (disk_image sample_device), BlockSize, None)"
  using ReadAt_correct [OF sample_device_valid, of sample_block 0] by (simp add: sample_request)

text \<open>
  C31: checkRange is exact for every int64 offset and every length: the subtraction in its bounds
  test does not wrap, so it refuses precisely the misaligned requests and those that leave
  the device, misalignment first.
\<close>

theorem checkRange_exact:
  assumes "int (length (base d)) < 2 ^ 63" "in_i64 off" "int n < 2 ^ 63"
  shows "checkRange d n off =
    (if \<not> (int BlockSize dvd off \<and> BlockSize dvd n) then Some ErrUnaligned
     else if 0 \<le> off \<and> off + int n \<le> int (length (base d)) then None
     else Some ErrOutOfRange)"
  using assms by (auto simp: checkRange_eq dvd_eq_mod_eq_0)

theorem checkRange_exact_witness:
  "checkRange sample_device BlockSize (2 ^ 63 - int BlockSize) = Some ErrOutOfRange"
proof -
  have "int BlockSize dvd 2 ^ 63 - int BlockSize" by (simp add: BlockSize_def dvd_eq_mod_eq_0)
  moreover have "int (length (base sample_device)) < 2 ^ 63" "in_i64 (2 ^ 63 - int BlockSize)"
    "int BlockSize < 2 ^ 63" "\<not> 2 ^ 63 - int BlockSize + int BlockSize \<le> int (length (base sample_device))"
    by (simp_all add: sample_base_def BlockSize_def in_i64_def)
  ultimately show ?thesis using checkRange_exact [of sample_device "2 ^ 63 - int BlockSize" BlockSize] by simp
qed

text \<open>
  C12: a device created over a base and written any number of times presents the flat image that
  the same writes, in the same order, make of the base; no write panics or fails.
\<close>

theorem device_refines_flat_image:
  assumes "valid_base bs"
    and "\<And>p off. (p, off) \<in> set ws \<Longrightarrow> checkRange \<lparr>base = bs, dirty = Mapping.empty\<rparr> (length p) off = None"
  shows "\<exists>d d'. New bs = Some d
    \<and> for_list (\<lambda>(p, off) d. do { (d', n, e) \<leftarrow> WriteAt d p off; Some d' }) ws d = Some d'
    \<and> valid_device d' \<and> base d' = bs
    \<and> disk_image d' = fold (\<lambda>(p, off) xs. overwrite xs (nat off) p) ws bs"
proof -
  let ?d = "\<lparr>base = bs, dirty = Mapping.empty\<rparr>"
  obtain d' where d': "cow.write_run ws ?d = Some d'" "valid_device d'" "checkRange d' = checkRange ?d"
      "disk_image d' = fold (\<lambda>w xs. overwrite xs (nat (snd w)) (fst w)) ws (disk_image ?d)"
    using cow.write_run_image [OF valid_device_fresh [OF assms(1)], of ws] assms(2) by fastforce
  have run: "for_list (\<lambda>(p, off) d. do { (d', n, e) \<leftarrow> WriteAt d p off; Some d' }) ws d = cow.write_run ws d" for d
    by (induction ws arbitrary: d) (auto simp: case_prod_unfold split: bind_splits)
  have keep: "base d2 = base d1" if "valid_device d1" "cow.write_run ws' d1 = Some d2" for ws' d1 d2
    using that
  proof (induction ws' arbitrary: d1)
    case (Cons w ws')
    obtain d3 n e where w: "WriteAt d1 (fst w) (snd w) = Some (d3, n, e)" "valid_device d3"
      using cow.wr_total [OF Cons.prems(1)] by blast
    have "base d3 = base d1"
      using WriteAt_base [OF Cons.prems(1) w(1)] .
    then show ?case using Cons.IH [of d3] Cons.prems w by simp
  qed simp
  show ?thesis
    using d' run keep [OF valid_device_fresh [OF assms(1)] d'(1)] disk_image_fresh [OF assms(1)]
    by (simp add: New_valid [OF assms(1)] case_prod_unfold)
qed

theorem device_refines_flat_image_witness:
  "\<exists>d d'. New sample_base = Some d
    \<and> for_list (\<lambda>(p, off) d. do { (d', n, e) \<leftarrow> WriteAt d p off; Some d' })
        [(sample_block, int BlockSize), (sample_block @ sample_block, 0)] d = Some d'
    \<and> valid_device d' \<and> base d' = sample_base \<and> disk_image d' = sample_block @ sample_block"
proof -
  have b: "BlockSize + BlockSize = length sample_base" by (simp add: sample_base_def)
  have r: "checkRange \<lparr>base = sample_base, dirty = Mapping.empty\<rparr> (length p) off = None"
    if "(p, off) \<in> set [(sample_block, int BlockSize), (sample_block @ sample_block, 0)]" for p off
    using that by (auto simp: checkRange_eq sample_base_def BlockSize_def)
  have "fold (\<lambda>(p, off) xs. overwrite xs (nat off) p)
      [(sample_block, int BlockSize), (sample_block @ sample_block, 0)] sample_base
    = sample_block @ sample_block"
    by (simp add: overwrite_def sample_base_def)
  then show ?thesis using device_refines_flat_image [OF sample_base_valid(1) r] by metis
qed

text \<open>
  A write leaves every read of a disjoint range unchanged, byte for byte.
\<close>

theorem WriteAt_elsewhere:
  assumes "valid_device d" "checkRange d (length p) off = None" "checkRange d (length q) off' = None"
    and "nat off + length p \<le> nat off' \<or> nat off' + length q \<le> nat off"
    and "WriteAt d p off = Some (d', n, e)"
  shows "ReadAt d' q off' = ReadAt d q off'"
  using assms by (rule cow.write_elsewhere)

theorem WriteAt_elsewhere_witness:
  "\<exists>d' n e. WriteAt sample_device sample_block 0 = Some (d', n, e)
    \<and> ReadAt d' sample_block (int BlockSize) = ReadAt sample_device sample_block (int BlockSize)"
proof -
  obtain d' n e where w: "WriteAt sample_device sample_block 0 = Some (d', n, e)"
    using cow.wr_total [OF sample_device_valid] by blast
  with WriteAt_elsewhere [OF sample_device_valid _ _ _ w, of sample_block "int BlockSize"]
  show ?thesis by (simp add: sample_request)
qed

end
