(* ===== verification/Crc32.thy ===== *)
theory Crc32
  imports Prelude
begin

text \<open>
  hash/crc32 of Go's standard library with the IEEE polynomial: the reflected, bit-serial
  definition of the checksum that ChecksumIEEE and Update compute. The facts below are what
  the wire format relies on: an update continues a checksum, and a change confined to four
  consecutive bytes always changes the checksum.
\<close>

definition crc_poly :: uint32 where
  "crc_poly = 0xEDB88320"

definition crc_shift :: "uint32 \<Rightarrow> uint32" where
  "crc_shift c = (if bit c 0 then drop_bit 1 c XOR crc_poly else drop_bit 1 c)"

definition crc_byte :: "uint32 \<Rightarrow> byte \<Rightarrow> uint32" where
  "crc_byte c b = (crc_shift ^^ 8) (c XOR ucast b)"

definition crc_update :: "uint32 \<Rightarrow> bytes \<Rightarrow> uint32" where
  "crc_update c bs = NOT (foldl crc_byte (NOT c) bs)"

definition ChecksumIEEE :: "bytes \<Rightarrow> uint32" where
  "ChecksumIEEE bs = crc_update 0 bs"

text \<open>Evaluation on literals, and the check value of the CRC-32 catalogue.\<close>

lemma crc_shift_literal:
  "crc_shift (numeral k) = (if odd (numeral k :: uint32)
     then drop_bit 1 (numeral k) XOR 0xEDB88320 else drop_bit 1 (numeral k))"
  "crc_shift (- numeral k) = (if odd (- numeral k :: uint32)
     then drop_bit 1 (- numeral k) XOR 0xEDB88320 else drop_bit 1 (- numeral k))"
  "crc_shift 0 = 0" "crc_shift 1 = 0xEDB88320"
  by (simp_all add: crc_shift_def crc_poly_def bit_0)

lemma funpow_8: "(f ^^ 8) x = f (f (f (f (f (f (f (f x)))))))"
  by (simp add: eval_nat_numeral)

lemmas crc_eval = ChecksumIEEE_def crc_update_def crc_byte_def funpow_8 crc_shift_literal

lemma ChecksumIEEE_check: "ChecksumIEEE [49, 50, 51, 52, 53, 54, 55, 56, 57] = 0xCBF43926"
  by (simp add: crc_eval)

lemma crc_update_append: "crc_update c (xs @ ys) = crc_update (crc_update c xs) ys"
  by (simp add: crc_update_def)

lemma ChecksumIEEE_append: "ChecksumIEEE (xs @ ys) = crc_update (ChecksumIEEE xs) ys"
  by (simp add: ChecksumIEEE_def crc_update_append)

section \<open>The shift register is a linear bijection\<close>

lemma crc_poly_msb: "bit crc_poly 31"
  by (simp add: crc_poly_def bit_simps)

lemma bit_drop1_31: "\<not> bit (drop_bit 1 (c :: uint32)) 31"
  by (auto simp: bit_drop_bit_eq dest: bit_imp_le_length)

lemma crc_shift_xor: "crc_shift (a XOR b) = crc_shift a XOR crc_shift b"
  by (rule bit_word_eqI) (auto simp: crc_shift_def bit_simps)

lemma crc_shift_pow_xor: "(crc_shift ^^ n) (a XOR b) = (crc_shift ^^ n) a XOR (crc_shift ^^ n) b"
  by (induction n arbitrary: a b) (simp_all add: crc_shift_xor)

lemma crc_shift_0_iff: "crc_shift c = 0 \<longleftrightarrow> c = 0"
proof
  assume 0: "crc_shift c = 0"
  have b0: "\<not> bit c 0"
  proof
    assume "bit c 0"
    then have "bit (crc_shift c) 31"
      using crc_poly_msb bit_drop1_31 by (simp add: crc_shift_def bit_xor_iff)
    with 0 show False by simp
  qed
  with 0 have d: "drop_bit 1 c = 0" by (simp add: crc_shift_def)
  show "c = 0"
  proof (rule bit_word_eqI)
    fix n
    have "\<not> bit c n"
    proof (cases n)
      case (Suc m)
      from d have "\<not> bit (drop_bit 1 c) m" by simp
      then show ?thesis using Suc by (simp add: bit_drop_bit_eq)
    qed (use b0 in simp)
    then show "bit c n = bit 0 n" by simp
  qed
qed (simp add: crc_shift_def)

lemma crc_shift_inj: "crc_shift a = crc_shift b \<longleftrightarrow> a = b"
proof
  assume "crc_shift a = crc_shift b"
  then have "crc_shift (a XOR b) = 0" by (simp add: crc_shift_xor)
  then have "a XOR b = 0" by (simp add: crc_shift_0_iff)
  then have "(a XOR b) XOR b = b" by simp
  then show "a = b" by (simp add: xor.assoc)
qed simp

lemma crc_shift_pow_inj: "(crc_shift ^^ n) a = (crc_shift ^^ n) b \<longleftrightarrow> a = b"
  by (induction n arbitrary: a b) (simp_all add: crc_shift_inj)

lemma crc_byte_inj: "crc_byte a x = crc_byte b x \<longleftrightarrow> a = b"
proof
  assume "crc_byte a x = crc_byte b x"
  then have "a XOR ucast x = b XOR ucast x"
    by (simp add: crc_byte_def crc_shift_pow_inj)
  then have "(a XOR ucast x) XOR ucast x = (b XOR ucast x) XOR ucast x" by simp
  then show "a = b" by (simp add: xor.assoc)
qed simp

lemma crc_fold_inj: "foldl crc_byte a xs = foldl crc_byte b xs \<longleftrightarrow> a = b"
  by (induction xs arbitrary: a b) (simp_all add: crc_byte_inj)

section \<open>Up to four bytes enter the register as one word\<close>

lemma crc_shift_push: "\<not> bit x 31 \<Longrightarrow> crc_shift (push_bit 1 x) = x"
proof (rule bit_word_eqI)
  fix n assume x: "\<not> bit x 31" and n: "n < LENGTH(32)"
  have "\<not> bit (push_bit 1 x) 0" by (simp only: bit_push_bit_iff) simp
  then have "bit (crc_shift (push_bit 1 x)) n = bit (push_bit 1 x) (Suc n)"
    by (simp add: crc_shift_def bit_drop_bit_eq)
  also have "\<dots> = bit x n"
    using x n by (cases "n = 31", simp_all only: bit_push_bit_iff) auto
  finally show "bit (crc_shift (push_bit 1 x)) n = bit x n" .
qed

lemma crc_shift_pow_push:
  "k \<le> 32 \<Longrightarrow> (\<And>j. 32 - k \<le> j \<Longrightarrow> \<not> bit x j) \<Longrightarrow> (crc_shift ^^ k) (push_bit k x) = x"
proof (induction k)
  case 0
  then show ?case by simp
next
  case (Suc k)
  have "push_bit (Suc k) x = push_bit 1 (push_bit k x)" by simp
  moreover have "\<not> bit (push_bit k x) 31"
    using Suc.prems by (auto simp: bit_simps)
  ultimately have "crc_shift (push_bit (Suc k) x) = push_bit k x"
    using crc_shift_push by metis
  then show ?case
    using Suc by (simp add: funpow_Suc_right del: funpow.simps push_bit_Suc)
qed

lemma crc_fold_word:
  "length bs \<le> 4 \<Longrightarrow> foldl crc_byte c bs = (crc_shift ^^ (8 * length bs)) (c XOR le_get bs)"
proof (induction bs arbitrary: c)
  case Nil
  then show ?case by (simp add: le_get_def)
next
  case (Cons b bs)
  let ?g = "le_get bs :: uint32"
  have hi: "\<not> bit ?g j" if "32 - 8 \<le> j" for j
    using that Cons.prems by (auto simp: bit_le_get)
  have g: "(le_get (b # bs) :: uint32) = ucast b XOR push_bit 8 ?g"
    by (rule bit_word_eqI) (auto simp: le_get_def bit_simps dest: bit_imp_le_length)
  have "foldl crc_byte c (b # bs)
      = (crc_shift ^^ (8 * length bs)) (crc_byte c b XOR ?g)"
    using Cons by simp
  also have "?g = (crc_shift ^^ 8) (push_bit 8 ?g)"
    using hi by (simp add: crc_shift_pow_push del: funpow.simps)
  also have "crc_byte c b XOR (crc_shift ^^ 8) (push_bit 8 ?g)
      = (crc_shift ^^ 8) (c XOR le_get (b # bs))"
    by (simp add: crc_byte_def crc_shift_pow_xor g xor.assoc del: funpow.simps)
  also have "(crc_shift ^^ (8 * length bs)) ((crc_shift ^^ 8) (c XOR le_get (b # bs)))
      = (crc_shift ^^ (8 * length (b # bs))) (c XOR le_get (b # bs))"
    by (simp add: funpow_add [symmetric, unfolded o_def, THEN fun_cong] add.commute
        del: funpow.simps)
  finally show ?case .
qed

text \<open>A change confined to at most four consecutive bytes is always seen.\<close>

lemma ChecksumIEEE_burst:
  assumes "length a = length b" "length a \<le> 4"
  shows "ChecksumIEEE (p @ a @ s) = ChecksumIEEE (p @ b @ s) \<longleftrightarrow> a = b"
proof
  assume eq: "ChecksumIEEE (p @ a @ s) = ChecksumIEEE (p @ b @ s)"
  define c where "c = foldl crc_byte (NOT 0) p"
  from eq have "foldl crc_byte (foldl crc_byte c a) s = foldl crc_byte (foldl crc_byte c b) s"
    by (simp add: ChecksumIEEE_def crc_update_def c_def)
  then have "foldl crc_byte c a = foldl crc_byte c b" by (simp add: crc_fold_inj)
  with assms have "c XOR le_get a = c XOR (le_get b :: uint32)"
    by (simp add: crc_fold_word crc_shift_pow_inj)
  then have "c XOR (c XOR le_get a) = c XOR (c XOR (le_get b :: uint32))" by simp
  then have g: "(le_get a :: uint32) = le_get b" by (simp add: xor.assoc [symmetric])
  show "a = b"
  proof (rule nth_equalityI)
    fix i assume i: "i < length a"
    show "a ! i = b ! i"
    proof (rule bit_word_eqI)
      fix n assume "n < LENGTH(8)"
      then have n: "n < 8" by simp
      then have "8 * i + n < 32" "(8 * i + n) div 8 = i" "(8 * i + n) mod 8 = n"
        using i assms by simp_all
      then show "bit (a ! i) n = bit (b ! i) n"
        using arg_cong [OF g, of "\<lambda>w. bit w (8 * i + n)"] i assms by (simp add: bit_le_get)
    qed
  qed (use assms in simp)
qed simp

lemma ChecksumIEEE_byte:
  assumes "i < length xs" "y \<noteq> xs ! i"
  shows "ChecksumIEEE (xs[i := y]) \<noteq> ChecksumIEEE xs"
proof -
  have "xs[i := y] = take i xs @ [y] @ drop (Suc i) xs"
    using assms by (simp add: upd_conv_take_nth_drop)
  moreover have "xs = take i xs @ [xs ! i] @ drop (Suc i) xs"
    using assms by (simp add: id_take_nth_drop [symmetric])
  ultimately show ?thesis
    using ChecksumIEEE_burst [of "[y]" "[xs ! i]" "take i xs" "drop (Suc i) xs"] assms
    by (metis length_Cons list.inject list.size(3) one_le_numeral One_nat_def)
qed

text \<open>
  A buffer whose first \<open>m\<close> bytes are followed by their checksum: replacing any one byte of
  either breaks the check.
\<close>

lemma checksum_field_flip:
  assumes "ChecksumIEEE (take m r) = le_get (take 4 (drop m r))" "m + 4 \<le> length r"
    and "i < m + 4" "y \<noteq> r ! i"
  shows "ChecksumIEEE (take m (r[i := y])) \<noteq> le_get (take 4 (drop m (r[i := y])))"
proof (cases "i < m")
  case True
  then have "take m (r[i := y]) = (take m r)[i := y]" "drop m (r[i := y]) = drop m r"
    by (simp_all add: take_update_swap)
  moreover have "ChecksumIEEE ((take m r)[i := y]) \<noteq> ChecksumIEEE (take m r)"
    using True assms(2,4) by (intro ChecksumIEEE_byte) simp_all
  ultimately show ?thesis using assms(1) by simp
next
  case False
  then have d: "take m (r[i := y]) = take m r"
    "take 4 (drop m (r[i := y])) = (take 4 (drop m r))[i - m := y]"
    by (simp, simp add: drop_update_swap take_update_swap)
  have "i - m < length (take 4 (drop m r))" "take 4 (drop m r) ! (i - m) = r ! i"
    using False assms(2,3) by simp_all
  then have "(take 4 (drop m r))[i - m := y] \<noteq> take 4 (drop m r)"
    using assms(4) by (metis nth_list_update_eq)
  then have "le_get ((take 4 (drop m r))[i - m := y]) \<noteq> (le_get (take 4 (drop m r)) :: uint32)"
    using assms(2) by (subst le_get_inj) simp_all
  with assms(1) d show ?thesis by simp
qed

end
