(* ===== verification/Goroutines.thy ===== *)
theory Goroutines
  imports Crc32
begin

text \<open>
  The fan-out of src/blockdevice: writeRecords, writeRecordsSharded and the shard-header loop
  of SerializeRS start goroutines that write disjoint parts of one buffer and wait for all of
  them. A goroutine is the list of its memory operations; a schedule is a list of numbers
  that says which goroutine moves next, and wg.Wait lets the rest run to the end. The locale
  \<open>disjoint_tasks\<close> states what makes the outcome independent of the schedule, and the
  buffer operations are shown to provide it.
\<close>

section \<open>Memory operations on a shared buffer\<close>

text \<open>
  The statements the goroutines execute: copy(buf[lo:hi], src), binary.LittleEndian.PutUintN
  on buf[lo:hi], and the store of crc32.ChecksumIEEE(buf[rlo:rhi]) into buf[lo:hi].
\<close>

datatype mem_op =
    CopyOp nat nat bytes
  | PutOp nat nat bytes
  | PutCRCOp nat nat nat nat

fun exec_op :: "mem_op \<Rightarrow> bytes \<Rightarrow> bytes option" where
  "exec_op (CopyOp lo hi src) m = copy_into m lo hi src"
| "exec_op (PutOp lo hi src) m = put_into m lo hi src"
| "exec_op (PutCRCOp rlo rhi lo hi) m = do {
     xs \<leftarrow> subslice m rlo rhi;
     put_into m lo hi (le_put 4 (ChecksumIEEE xs))
   }"

fun footprint :: "mem_op \<Rightarrow> nat set" where
  "footprint (CopyOp lo hi src) = {lo..<lo + min (hi - lo) (length src)}"
| "footprint (PutOp lo hi src) = {lo..<lo + length src}"
| "footprint (PutCRCOp rlo rhi lo hi) = {rlo..<rhi} \<union> {lo..<lo + 4}"

text \<open>
  A run under a schedule. A number names a goroutine modulo their count; one that has already
  finished does nothing.
\<close>

fun run_sched :: "('a \<Rightarrow> 's \<Rightarrow> 's option) \<Rightarrow> nat list \<Rightarrow> 'a list list \<Rightarrow> 's \<Rightarrow> 's option" where
  "run_sched exec [] gs s = for_list exec (concat gs) s"
| "run_sched exec (c # cs) gs s =
     (if gs = [] then Some s
      else (let i = c mod length gs in
        (case gs ! i of
           [] \<Rightarrow> run_sched exec cs gs s
         | a # as \<Rightarrow> do { s' \<leftarrow> exec a s; run_sched exec cs (gs[i := as]) s' })))"

section \<open>Disjoint tasks do not depend on the schedule\<close>

definition apart :: "('a \<Rightarrow> nat set) \<Rightarrow> 'a list \<Rightarrow> 'a list \<Rightarrow> bool" where
  "apart foot xs ys \<longleftrightarrow> (\<forall>x\<in>set xs. \<forall>y\<in>set ys. foot x \<inter> foot y = {})"

locale disjoint_tasks =
  fixes exec :: "'a \<Rightarrow> 's \<Rightarrow> 's option"
    and foot :: "'a \<Rightarrow> nat set"
  assumes commute: "foot a \<inter> foot b = {} \<Longrightarrow>
    Option.bind (exec a s) (exec b) = Option.bind (exec b s) (exec a)"
begin

lemma for_list_commute:
  "apart foot [a] xs \<Longrightarrow>
   Option.bind (for_list exec xs s) (exec a) = Option.bind (exec a s) (for_list exec xs)"
proof (induction xs arbitrary: s)
  case Nil
  then show ?case by simp
next
  case (Cons x xs)
  then have ax: "foot a \<inter> foot x = {}" and IH: "apart foot [a] xs" by (auto simp: apart_def)
  have "Option.bind (for_list exec (x # xs) s) (exec a)
      = Option.bind (exec x s) (\<lambda>t. Option.bind (for_list exec xs t) (exec a))"
    by (cases "exec x s") simp_all
  also have "\<dots> = Option.bind (exec x s) (\<lambda>t. Option.bind (exec a t) (for_list exec xs))"
    using Cons.IH [OF IH] by simp
  also have "\<dots> = Option.bind (Option.bind (exec x s) (exec a)) (for_list exec xs)"
    by (cases "exec x s") simp_all
  also have "\<dots> = Option.bind (Option.bind (exec a s) (exec x)) (for_list exec xs)"
    by (simp only: commute [OF ax])
  also have "\<dots> = Option.bind (exec a s) (for_list exec (x # xs))"
    by (cases "exec a s") simp_all
  finally show ?case .
qed

lemma for_list_move_front:
  assumes "apart foot [a] xs"
  shows "for_list exec (xs @ a # ys) s = Option.bind (exec a s) (for_list exec (xs @ ys))"
proof -
  have "for_list exec (xs @ a # ys) s
      = Option.bind (Option.bind (for_list exec xs s) (exec a)) (for_list exec ys)"
    by (simp add: for_list_append bind_assoc)
  also have "\<dots> = Option.bind (Option.bind (exec a s) (for_list exec xs)) (for_list exec ys)"
    by (simp only: for_list_commute [OF assms])
  also have "\<dots> = Option.bind (exec a s) (for_list exec (xs @ ys))"
    by (cases "exec a s") (simp_all add: for_list_append)
  finally show ?thesis .
qed

theorem schedule_independent:
  "(\<And>i j. i < length gs \<Longrightarrow> j < length gs \<Longrightarrow> i \<noteq> j \<Longrightarrow> apart foot (gs ! i) (gs ! j)) \<Longrightarrow>
   run_sched exec cs gs s = for_list exec (concat gs) s"
proof (induction cs arbitrary: gs s)
  case Nil
  then show ?case by simp
next
  case (Cons c cs)
  show ?case
  proof (cases "gs = []")
    case False
    define i where "i = c mod length gs"
    have i: "i < length gs" using False by (simp add: i_def)
    show ?thesis
    proof (cases "gs ! i")
      case Nil
      with Cons False show ?thesis by (simp add: i_def)
    next
      case (Cons a as)
      have gs: "gs = take i gs @ (a # as) # drop (Suc i) gs"
        using i Cons by (metis id_take_nth_drop)
      have "apart foot [a] (gs ! j)" if "j < i" for j
        using Cons.prems [of i j] that i Cons by (auto simp: apart_def)
      then have front: "apart foot [a] (concat (take i gs))"
        using i by (fastforce simp: apart_def in_set_conv_nth)
      have rest: "apart foot ((gs[i := as]) ! j) ((gs[i := as]) ! k)"
        if "j < length (gs[i := as])" "k < length (gs[i := as])" "j \<noteq> k" for j k
        using Cons.prems [of j k] that Cons by (cases "j = i"; cases "k = i") (auto simp: apart_def)
      have "for_list exec (concat gs) s
          = for_list exec (concat (take i gs) @ a # as @ concat (drop (Suc i) gs)) s"
        by (subst gs) simp
      also have "\<dots> = Option.bind (exec a s)
          (for_list exec (concat (take i gs) @ as @ concat (drop (Suc i) gs)))"
        by (rule for_list_move_front [OF front])
      also have "concat (take i gs) @ as @ concat (drop (Suc i) gs) = concat (gs[i := as])"
        using i by (simp add: upd_conv_take_nth_drop)
      finally have "for_list exec (concat gs) s = Option.bind (exec a s) (for_list exec (concat (gs[i := as])))" .
      moreover have "run_sched exec cs (gs[i := as]) = for_list exec (concat (gs[i := as]))"
        using Cons.IH [OF rest] by (intro ext)
      ultimately show ?thesis
        using False Cons by (simp add: i_def [symmetric])
    qed
  qed simp
qed

end

section \<open>Buffer operations with disjoint footprints commute\<close>

text \<open>
  Every operation writes one value at one place: \<open>op_fits\<close> are its bounds, \<open>op_val\<close> the
  value, which depends on the footprint only.
\<close>

fun op_fits :: "mem_op \<Rightarrow> nat \<Rightarrow> bool" where
  "op_fits (CopyOp lo hi src) n \<longleftrightarrow> lo \<le> hi \<and> hi \<le> n"
| "op_fits (PutOp lo hi src) n \<longleftrightarrow> lo \<le> hi \<and> hi \<le> n \<and> length src \<le> hi - lo"
| "op_fits (PutCRCOp rlo rhi lo hi) n \<longleftrightarrow> rlo \<le> rhi \<and> rhi \<le> n \<and> lo \<le> hi \<and> hi \<le> n \<and> 4 \<le> hi - lo"

fun op_start :: "mem_op \<Rightarrow> nat" where
  "op_start (CopyOp lo hi src) = lo"
| "op_start (PutOp lo hi src) = lo"
| "op_start (PutCRCOp rlo rhi lo hi) = lo"

fun op_val :: "mem_op \<Rightarrow> bytes \<Rightarrow> bytes" where
  "op_val (CopyOp lo hi src) m = take (hi - lo) src"
| "op_val (PutOp lo hi src) m = src"
| "op_val (PutCRCOp rlo rhi lo hi) m = le_put 4 (ChecksumIEEE (take (rhi - rlo) (drop rlo m)))"

lemma exec_op_eq:
  "exec_op a m = (if op_fits a (length m) then Some (overwrite m (op_start a) (op_val a m)) else None)"
  by (cases a) (auto simp: copy_into_def put_into_def subslice_def overwrite_def Let_def min_def)

lemma exec_op_length: "exec_op a m = Some m' \<Longrightarrow> length m' = length m"
  by (cases a) (auto simp: copy_into_length put_into_length split: bind_splits)

lemma op_val_local:
  assumes "op_fits a (length m)" "length m = length m'" "\<And>i. i \<in> footprint a \<Longrightarrow> m ! i = m' ! i"
  shows "op_val a m = op_val a m'"
proof (cases a)
  case (PutCRCOp rlo rhi lo hi)
  have "take (rhi - rlo) (drop rlo m) = take (rhi - rlo) (drop rlo m')"
  proof (rule nth_equalityI)
    fix i assume i: "i < length (take (rhi - rlo) (drop rlo m))"
    then have "m ! (rlo + i) = m' ! (rlo + i)" using PutCRCOp by (intro assms(3)) (auto simp: less_diff_conv add.commute)
    with i show "take (rhi - rlo) (drop rlo m) ! i = take (rhi - rlo) (drop rlo m') ! i"
      using assms(1,2) PutCRCOp by simp
  qed (use assms(2) in simp)
  then show ?thesis using PutCRCOp by simp
qed simp_all

lemma op_val_within:
  assumes "op_fits a (length m)" "i < length (op_val a m)"
  shows "op_start a + i \<in> footprint a" "op_start a + length (op_val a m) \<le> length m"
  using assms by (cases a; auto)+

lemma exec_op_frame:
  assumes "op_fits a (length m)" "i \<notin> footprint a" "i < length m"
  shows "overwrite m (op_start a) (op_val a m) ! i = m ! i"
proof (cases "op_val a m = []")
  case False
  then have le: "op_start a + length (op_val a m) \<le> length m"
    using op_val_within(2) [OF assms(1), of 0] by simp
  have "\<not> (op_start a \<le> i \<and> i < op_start a + length (op_val a m))"
    using op_val_within(1) [OF assms(1), of "i - op_start a"] assms(2)
    by (metis add_less_cancel_left le_add_diff_inverse)
  then show ?thesis using assms(3) le by (subst overwrite_nth) auto
qed simp

lemma exec_op_commute:
  assumes dis: "footprint a \<inter> footprint b = {}"
  shows "Option.bind (exec_op a m) (exec_op b) = Option.bind (exec_op b m) (exec_op a)"
proof (cases "op_fits a (length m) \<and> op_fits b (length m)")
  case True
  let ?ma = "overwrite m (op_start a) (op_val a m)" and ?mb = "overwrite m (op_start b) (op_val b m)"
  have len: "length (overwrite m (op_start x) (op_val x m)) = length m"
    if "op_fits x (length m)" for x
    using op_val_within(2) [OF that, of 0] by (cases "op_val x m = []") simp_all
  have la: "length ?ma = length m" and lb: "length ?mb = length m" using True len by simp_all
  have fit: "op_start x + length (op_val x m) \<le> length m" if "op_fits x (length m)" "op_val x m \<noteq> []" for x
    using that op_val_within(2) [OF that(1), of 0] by simp
  have ub: "i < length m" if "i \<in> footprint x" "op_fits x (length m)" for x i
    using that by (cases x) auto
  have va: "op_val a ?mb = op_val a m"
    using True lb dis by (intro op_val_local) (auto intro!: exec_op_frame ub)
  have vb: "op_val b ?ma = op_val b m"
    using True la dis by (intro op_val_local) (auto intro!: exec_op_frame ub)
  have "overwrite ?ma (op_start b) (op_val b m) = overwrite ?mb (op_start a) (op_val a m)"
  proof (cases "op_val a m = [] \<or> op_val b m = []")
    case True
    then show ?thesis by auto
  next
    case False
    have "op_start a + length (op_val a m) \<le> op_start b \<or> op_start b + length (op_val b m) \<le> op_start a"
    proof (rule ccontr)
      assume c: "\<not> ?thesis"
      define i where "i = max (op_start a) (op_start b)"
      have "i \<in> footprint a" "i \<in> footprint b"
        using op_val_within(1) [of a m "i - op_start a"] op_val_within(1) [of b m "i - op_start b"]
          True False c by (auto simp: i_def max_def split: if_splits)
      with dis show False by blast
    qed
    then show ?thesis
      using overwrite_commute fit True False by (metis le_add1 order_trans)
  qed
  then show ?thesis using True la lb va vb by (simp add: exec_op_eq)
next
  case False
  have none: "Option.bind (exec_op x m) (exec_op y) = None"
    if "\<not> (op_fits x (length m) \<and> op_fits y (length m))" for x y
  proof (cases "exec_op x m")
    case (Some m')
    then have "op_fits x (length m)" by (simp add: exec_op_eq split: if_splits)
    moreover have "length m' = length m" using Some by (rule exec_op_length)
    ultimately show ?thesis using Some that by (simp add: exec_op_eq [of y])
  qed simp
  have "Option.bind (exec_op a m) (exec_op b) = None" using False by (intro none) simp
  moreover have "Option.bind (exec_op b m) (exec_op a) = None" using False by (intro none) auto
  ultimately show ?thesis by simp
qed

interpretation buf: disjoint_tasks exec_op footprint
  by unfold_locales (rule exec_op_commute)

end
