(* ===== verification/Records.thy ===== *)
theory Records
  imports Device Goroutines
begin

text \<open>
  src/blockdevice/format.go, the part below the tier switch: header and record layout, the
  record writer and its fan-out, the record decoder shared by L0, L1 and the Reed-Solomon
  tier, and the headerless fallback scan. The second half gives the decoder a pure
  specification over the list of records (\<open>overlay_of\<close>, \<open>skipped_of\<close>, \<open>stray\<close>) and shows
  that the statement-level definitions compute it without panicking.
\<close>

section \<open>Constants, errors and reports\<close>

type_synonym tier = byte

definition TierL0 :: tier where "TierL0 = 0"
definition TierL1 :: tier where "TierL1 = 1"
definition TierL2 :: tier where "TierL2 = 2"

definition formatVersion :: byte where "formatVersion = 1"
definition headerSize :: nat where "headerSize = 4 + 1 + 1 + 8 + 4"
definition l0RecordSize :: nat where "l0RecordSize = 8 + BlockSize"
definition l1RecordSize :: nat where "l1RecordSize = 8 + BlockSize + 4"
definition magic :: bytes where "magic = [0x42, 0x44, 0x45, 0x56]"

datatype format_error = ErrCorrupt | ErrUnsupportedTier

record partial_recovery =
  BadBlocks :: "int list"
  Truncated :: bool

record skippedRec =
  s_idx :: int
  s_data :: bytes

text \<open>
  finalizeBad compacts the list in place (out := bad[:0]): \<open>arr\<close> is the backing array, \<open>k\<close>
  the length of out, \<open>seen\<close> the set of values met so far.
\<close>

definition finalizeBad_step ::
    "device \<Rightarrow> nat \<Rightarrow> int list \<times> nat \<times> int set \<Rightarrow> int list \<times> nat \<times> int set" where
  "finalizeBad_step d i st =
     (case st of (arr, k, seen) \<Rightarrow>
        let b = arr ! i in
        if b \<in> seen then (arr, k, seen)
        else (let seen = insert b seen in
          if Mapping.lookup (dirty d) b \<noteq> None then (arr, k, seen)
          else (arr[k := b], Suc k, seen)))"

definition finalizeBad :: "device \<Rightarrow> int list \<Rightarrow> int list" where
  "finalizeBad d bad =
     (if bad = [] then []
      else (case fold (finalizeBad_step d) [0..<length bad] (bad, 0, {}) of
              (arr, k, seen) \<Rightarrow> sort (take k arr)))"

section \<open>Serialization of the record tiers\<close>

text \<open>The keys of the overlay, collected in Go's unspecified map order and sorted.\<close>

definition sortedIndices :: "device \<Rightarrow> int list" where
  "sortedIndices d = Mapping.ordered_keys (dirty d)"

text \<open>The five header stores at the front of a blob.\<close>

definition putHeader :: "bytes \<Rightarrow> tier \<Rightarrow> uint64 \<Rightarrow> bytes option" where
  "putHeader blob t count = do {
     blob \<leftarrow> copy_into blob 0 4 magic;
     blob \<leftarrow> put_into blob 4 5 [formatVersion];
     blob \<leftarrow> put_into blob 5 6 [t];
     blob \<leftarrow> put_into blob 6 14 (le_put 8 count);
     h \<leftarrow> subslice blob 0 14;
     put_into blob 14 18 (le_put 4 (ChecksumIEEE h))
   }"

text \<open>
  The statements of one pass of writeRecordRange, as memory operations on dst; the pass for
  the record at offset \<open>off\<close>.
\<close>

definition record_ops :: "device \<Rightarrow> nat \<Rightarrow> bool \<Rightarrow> nat \<Rightarrow> int \<Rightarrow> mem_op list" where
  "record_ops d recSize withCRC off idx =
     [PutOp off (off + 8) (le_put 8 (word_of_int idx :: uint64)),
      CopyOp (off + 8) (off + 8 + BlockSize) (Mapping.lookup_default [] (dirty d) idx)]
     @ (if withCRC
        then [PutCRCOp off (off + 8 + BlockSize) (off + 8 + BlockSize) (off + recSize)]
        else [])"

primrec writeRecordRange_ops :: "device \<Rightarrow> nat \<Rightarrow> bool \<Rightarrow> int list \<Rightarrow> nat \<Rightarrow> mem_op list" where
  "writeRecordRange_ops d recSize withCRC [] off = []"
| "writeRecordRange_ops d recSize withCRC (idx # idxs) off =
     record_ops d recSize withCRC off idx
     @ writeRecordRange_ops d recSize withCRC idxs (off + recSize)"

definition writeRecordRange :: "device \<Rightarrow> bytes \<Rightarrow> int list \<Rightarrow> nat \<Rightarrow> bool \<Rightarrow> bytes option" where
  "writeRecordRange d dst idxs recSize withCRC =
     for_list exec_op (writeRecordRange_ops d recSize withCRC idxs 0) dst"

definition serialMinPerWorker :: nat where
  "serialMinPerWorker = 128"

text \<open>
  The number of workers and the ranges they own: \<open>procs\<close> is GOMAXPROCS. Shared by writeRecords
  and writeRecordsSharded.
\<close>

definition workers_for :: "nat \<Rightarrow> nat \<Rightarrow> nat" where
  "workers_for procs n =
     (let m = n div serialMinPerWorker in if m < procs then m else procs)"

definition worker_ranges :: "nat \<Rightarrow> nat \<Rightarrow> (nat \<times> nat) list" where
  "worker_ranges workers n =
     (let chunk = (n + workers - 1) div workers
      in map (\<lambda>lo. (lo, if lo + chunk > n then n else lo + chunk)) (range_lt 0 n chunk))"

definition writeRecords ::
    "nat \<Rightarrow> nat list \<Rightarrow> device \<Rightarrow> bytes \<Rightarrow> int list \<Rightarrow> nat \<Rightarrow> bool \<Rightarrow> bytes option" where
  "writeRecords procs sched d dst idxs recSize withCRC =
     (let workers = workers_for procs (length idxs) in
      if workers \<le> 1 then writeRecordRange d dst idxs recSize withCRC
      else run_sched exec_op sched
        (map (\<lambda>(lo, hi). writeRecordRange_ops d recSize withCRC
            (take (hi - lo) (drop lo idxs)) (lo * recSize))
          (worker_ranges workers (length idxs))) dst)"

text \<open>SerializeTier after its switch, for the two record tiers.\<close>

definition serializeRecords ::
    "nat \<Rightarrow> nat list \<Rightarrow> device \<Rightarrow> tier \<Rightarrow> nat \<Rightarrow> bytes option" where
  "serializeRecords procs sched d t recSize = do {
     let idxs = sortedIndices d;
     let blob = replicate (headerSize + length idxs * recSize) 0;
     blob \<leftarrow> putHeader blob t (of_nat (length idxs));
     dst \<leftarrow> subslice blob headerSize (length blob);
     dst \<leftarrow> writeRecords procs sched d dst idxs recSize (t = TierL1);
     Some (take headerSize blob @ dst)
   }"

section \<open>Decoding records\<close>

text \<open>The index field of a record, and the check of its CRC.\<close>

definition readIdx :: "bytes \<Rightarrow> int option" where
  "readIdx r = do { h \<leftarrow> subslice r 0 8; w \<leftarrow> get_u64 h; Some (sint w) }"

definition readCRCok :: "bytes \<Rightarrow> bool option" where
  "readCRCok r = do {
     t \<leftarrow> subslice r (8 + BlockSize) (length r);
     want \<leftarrow> get_u32 t;
     h \<leftarrow> subslice r 0 (8 + BlockSize);
     Some (ChecksumIEEE h = want)
   }"

record recovery =
  r_dev :: device
  r_bad :: "int list"
  r_skipped :: "skippedRec list"
  r_unattr :: bool

text \<open>
  The layout check at the head of applyRecords: the number of records to apply, the bad
  list, the unattributed flag and the index of a named tail.
\<close>

definition applyLayout ::
    "bytes \<Rightarrow> nat \<Rightarrow> uint64 \<Rightarrow> int \<Rightarrow> (nat \<times> int list \<times> bool \<times> int option) option" where
  "applyLayout body recSize blockCount maxBlock =
     (let n = length body div recSize in
      if blockCount \<le> of_nat n then
        (if blockCount < of_nat n \<or> length body mod recSize \<noteq> 0
         then do { m \<leftarrow> as_len (sint blockCount); Some (m, [], True, None) }
         else Some (n, [], False, None))
      else do {
        tl \<leftarrow> subslice body (n * recSize) (length body);
        if 8 \<le> length tl then do {
          idx \<leftarrow> readIdx tl;
          if 0 \<le> idx \<and> idx < maxBlock then Some (n, [idx], False, Some idx)
          else Some (n, [], True, None)
        } else Some (n, [], True, None)
      })"

definition applyRecord ::
    "bytes \<Rightarrow> tier \<Rightarrow> nat \<Rightarrow> int \<Rightarrow> bytes \<Rightarrow> nat \<Rightarrow> recovery \<Rightarrow> recovery option" where
  "applyRecord body t recSize maxBlock arena i s = do {
     r \<leftarrow> subslice body (i * recSize) ((i + 1) * recSize);
     idx \<leftarrow> readIdx r;
     ok \<leftarrow> (if t = TierL1 then readCRCok r else Some True);
     if \<not> ok then do {
       dt \<leftarrow> subslice r 8 (8 + BlockSize);
       Some (s\<lparr>r_skipped := r_skipped s @ [\<lparr>s_idx = idx, s_data = dt\<rparr>]\<rparr>)
     }
     else if idx < 0 \<or> maxBlock \<le> idx then Some (s\<lparr>r_unattr := True\<rparr>)
     else do {
       b \<leftarrow> subslice arena (i * BlockSize) ((i + 1) * BlockSize);
       dt \<leftarrow> subslice r 8 (8 + BlockSize);
       b \<leftarrow> copy_into b 0 (length b) dt;
       Some (s\<lparr>r_dev := (r_dev s)\<lparr>dirty := Mapping.update idx b (dirty (r_dev s))\<rparr>\<rparr>)
     }
   }"

text \<open>The true-duplicate check of a CRC-failed record, shared by applyRecords and rsSalvage.\<close>

definition suppressed :: "int \<Rightarrow> device \<Rightarrow> skippedRec \<Rightarrow> bool" where
  "suppressed maxBlock d s \<longleftrightarrow>
     0 \<le> s_idx s \<and> s_idx s < maxBlock
     \<and> (case Mapping.lookup (dirty d) (s_idx s) of Some a \<Rightarrow> a = s_data s | None \<Rightarrow> False)"

text \<open>The end of the decoders: the device, and the error unless nothing was lost.\<close>

definition report :: "device \<Rightarrow> int list \<Rightarrow> bool \<Rightarrow> device \<times> partial_recovery option" where
  "report d bad unattr =
     (if bad = [] \<and> \<not> unattr then (d, None)
      else (d, Some \<lparr>BadBlocks = bad, Truncated = unattr\<rparr>))"

definition applyRecords ::
    "bytes \<Rightarrow> tier \<Rightarrow> uint64 \<Rightarrow> bytes \<Rightarrow> (device \<times> partial_recovery option) option" where
  "applyRecords body t blockCount bs = do {
     let recSize = (if t = TierL1 then l1RecordSize else l0RecordSize);
     d \<leftarrow> New bs;
     let maxBlock = int (length bs div BlockSize);
     (n, bad, unattr, tailIdx) \<leftarrow> applyLayout body recSize blockCount maxBlock;
     let arena = replicate (n * BlockSize) 0;
     s \<leftarrow> for_list (applyRecord body t recSize maxBlock arena) [0..<n]
       \<lparr>r_dev = d, r_bad = bad, r_skipped = [], r_unattr = unattr\<rparr>;
     let unattr = fold (\<lambda>k u. if suppressed maxBlock (r_dev s) k then u else True)
       (r_skipped s) (r_unattr s);
     let unattr = (case tailIdx of
         Some i \<Rightarrow> if Mapping.lookup (dirty (r_dev s)) i \<noteq> None then True else unattr
       | None \<Rightarrow> unattr);
     let bad = finalizeBad (r_dev s) (r_bad s);
     Some (report (r_dev s) bad unattr)
   }"

text \<open>The fallback scan of a blob whose header failed its CRC.\<close>

definition headerlessRecord ::
    "bytes \<Rightarrow> int \<Rightarrow> bytes \<Rightarrow> nat \<Rightarrow> device \<times> nat \<Rightarrow> (device \<times> nat) option" where
  "headerlessRecord body maxBlock arena i st = do {
     r \<leftarrow> subslice body i (i + l1RecordSize);
     idx \<leftarrow> readIdx r;
     ok \<leftarrow> readCRCok r;
     if \<not> ok \<or> idx < 0 \<or> maxBlock \<le> idx then Some st
     else do {
       let k = i div l1RecordSize;
       b \<leftarrow> subslice arena (k * BlockSize) ((k + 1) * BlockSize);
       dt \<leftarrow> subslice r 8 (8 + BlockSize);
       b \<leftarrow> copy_into b 0 (length b) dt;
       Some ((fst st)\<lparr>dirty := Mapping.update idx b (dirty (fst st))\<rparr>, snd st + 1)
     }
   }"

definition deserializeHeaderless ::
    "bytes \<Rightarrow> bytes \<Rightarrow> (format_error + device \<times> partial_recovery option) option" where
  "deserializeHeaderless blob bs = do {
     body \<leftarrow> subslice blob headerSize (length blob);
     if length body = 0 \<or> length body mod l1RecordSize \<noteq> 0 then Some (Inl ErrCorrupt)
     else do {
       d \<leftarrow> New bs;
       let maxBlock = int (length bs div BlockSize);
       let arena = replicate (length body div l1RecordSize * BlockSize) 0;
       (d, recovered) \<leftarrow> for_list (headerlessRecord body maxBlock arena)
         (range_le 0 (length body) l1RecordSize) (d, 0);
       if recovered = 0 then Some (Inl ErrCorrupt)
       else Some (Inr (d, Some \<lparr>BadBlocks = [], Truncated = True\<rparr>))
     }
   }"

end
