(* ===== verification/ReedSolomon.thy ===== *)
theory ReedSolomon
  imports Records
begin

text \<open>
  src/blockdevice/rs.go: the Reed-Solomon tier. The package klauspost/reedsolomon is not part
  of the repository; the record \<open>rs_lib\<close> is the interface the code calls and an argument of
  every definition that uses it. Shards are slices of the blob, as in the code: a window is a
  start and a length inside the blob, and every store goes to the blob.
\<close>

section \<open>The codec library and the geometry rules\<close>

text \<open>
  reedsolomon.New succeeds or not; Encode returns the shards after the call, or an error;
  Reconstruct returns whether it succeeded and the shards after the call (\<open>None\<close> for nil).
\<close>

record rs_lib =
  rs_new :: "nat \<Rightarrow> nat \<Rightarrow> bool"
  rs_encode :: "nat \<Rightarrow> nat \<Rightarrow> bytes list \<Rightarrow> bytes list option"
  rs_reconstruct :: "nat \<Rightarrow> nat \<Rightarrow> bytes option list \<Rightarrow> bool \<times> bytes option list"

text \<open>
  A codec the witnesses run on: one data shard, copied into every parity shard.
\<close>

definition replica_rs :: rs_lib where
  "replica_rs = \<lparr>
     rs_new = (\<lambda>N K. 1 \<le> N),
     rs_encode = (\<lambda>N K xs. if xs ! 0 = [] then None else Some (take N xs @ replicate K (xs ! 0))),
     rs_reconstruct = (\<lambda>N K xs. case find (\<lambda>x. x \<noteq> None) xs of
         Some x \<Rightarrow> (True, replicate (N + K) x)
       | None \<Rightarrow> (False, xs))\<rparr>"

definition rsMetaSize :: nat where "rsMetaSize = 2 + 2 + 4 + 8 + 4"
definition rsShardHdrSize :: nat where "rsShardHdrSize = 2 + 4"
definition rsDefaultData :: int where "rsDefaultData = 10"
definition rsDefaultParity :: int where "rsDefaultParity = 2"
definition rsMaxTotalShards :: int where "rsMaxTotalShards = 64"
definition rsMinShardPayload :: uint64 where "rsMinShardPayload = 128"
definition rsMaxDecodeAlloc :: uint64 where "rsMaxDecodeAlloc = 2 ^ 33"

definition validRSGeometry :: "int \<Rightarrow> int \<Rightarrow> uint64 \<Rightarrow> bool" where
  "validRSGeometry dataShards parityShards payloadLen =
     (let maxData = (payloadLen + rsMinShardPayload - 1) div rsMinShardPayload;
          maxData = (if maxData < 1 then 1 else maxData);
          maxParity = dataShards;
          maxParity = (if maxParity < rsDefaultParity then rsDefaultParity else maxParity)
      in word_of_int dataShards \<le> maxData \<and> parityShards \<le> maxParity)"

definition rsDefaultShards :: "nat \<Rightarrow> int \<times> int" where
  "rsDefaultShards payloadLen =
     (let n = int (payloadLen div 4096);
          n = (if n < 1 then 1 else n);
          n = (if n > rsDefaultData then rsDefaultData else n)
      in (n, rsDefaultParity))"

section \<open>Writing records into the data shards\<close>

text \<open>
  The copies of writeShardSpans, as operations on the blob, and the offset it returns. A loop
  that would not advance or an index outside the shards is \<open>None\<close>.
\<close>

function writeShardSpans ::
    "(nat \<times> nat) list \<Rightarrow> nat \<Rightarrow> nat \<Rightarrow> bytes \<Rightarrow> (mem_op list \<times> nat) option" where
  "writeShardSpans shards shardSize off src =
     (if src = [] then Some ([], off)
      else if shardSize = 0 \<or> length shards \<le> off div shardSize then None
      else (let (st, ln) = shards ! (off div shardSize);
                r = off mod shardSize;
                n = min (ln - r) (length src)
            in if ln < r \<or> n = 0 then None
               else do {
                 (ops, off') \<leftarrow> writeShardSpans shards shardSize (off + n) (drop n src);
                 Some (CopyOp (st + r) (st + ln) src # ops, off')
               }))"
  by pat_completeness auto
termination
  by (relation "measure (\<lambda>(shards, shardSize, off, src). length src)") auto

declare writeShardSpans.simps [simp del]

text \<open>One record: the index, the block, and the CRC computed from the two sources.\<close>

definition writeRecordSharded ::
    "device \<Rightarrow> int \<Rightarrow> (nat \<times> nat) list \<Rightarrow> nat \<Rightarrow> nat \<Rightarrow> (mem_op list \<times> nat) option" where
  "writeRecordSharded d idx shards shardSize off = do {
     let hdr = le_put 8 (word_of_int idx :: uint64);
     let block = Mapping.lookup_default [] (dirty d) idx;
     let crc = crc_update (ChecksumIEEE hdr) block;
     let tail = le_put 4 crc;
     (ops1, off) \<leftarrow> writeShardSpans shards shardSize off hdr;
     (ops2, off) \<leftarrow> writeShardSpans shards shardSize off block;
     (ops3, off) \<leftarrow> writeShardSpans shards shardSize off tail;
     Some (ops1 @ ops2 @ ops3, off)
   }"

primrec writeRecordRangeSharded ::
    "device \<Rightarrow> int list \<Rightarrow> (nat \<times> nat) list \<Rightarrow> nat \<Rightarrow> nat \<Rightarrow> mem_op list option" where
  "writeRecordRangeSharded d [] shards shardSize off = Some []"
| "writeRecordRangeSharded d (idx # idxs) shards shardSize off = do {
     (ops, off') \<leftarrow> writeRecordSharded d idx shards shardSize off;
     rest \<leftarrow> writeRecordRangeSharded d idxs shards shardSize off';
     Some (ops @ rest)
   }"

definition writeRecordsSharded ::
    "nat \<Rightarrow> nat list \<Rightarrow> device \<Rightarrow> bytes \<Rightarrow> int list \<Rightarrow> (nat \<times> nat) list \<Rightarrow> nat \<Rightarrow> bytes option" where
  "writeRecordsSharded procs sched d blob idxs shards shardSize =
     (let workers = workers_for procs (length idxs) in
      if workers \<le> 1 then do {
        ops \<leftarrow> writeRecordRangeSharded d idxs shards shardSize 0;
        for_list exec_op ops blob
      } else do {
        gs \<leftarrow> those (map (\<lambda>(lo, hi). writeRecordRangeSharded d
            (take (hi - lo) (drop lo idxs)) shards shardSize (lo * l1RecordSize))
          (worker_ranges workers (length idxs)));
        run_sched exec_op sched gs blob
      })"

text \<open>Shard headers of an empty payload.\<close>

definition writeEmptyShardHeaders :: "bytes \<Rightarrow> nat \<Rightarrow> bytes option" where
  "writeEmptyShardHeaders dst tot =
     for_list (\<lambda>i dst. do {
         dst \<leftarrow> put_into dst (i * rsShardHdrSize) (i * rsShardHdrSize + 2) (le_put 2 (of_nat i :: uint16));
         put_into dst (i * rsShardHdrSize + 2) (i * rsShardHdrSize + 6) (le_put 4 (ChecksumIEEE []))
       }) [0..<tot] dst"

section \<open>SerializeRS\<close>

text \<open>The stores of the rsMeta section into blob[headerSize : headerSize+rsMetaSize].\<close>

definition putRSMeta :: "bytes \<Rightarrow> nat \<Rightarrow> nat \<Rightarrow> nat \<Rightarrow> nat \<Rightarrow> bytes option" where
  "putRSMeta blob dataShards parityShards shardSize payloadLen = do {
     meta \<leftarrow> subslice blob headerSize (headerSize + rsMetaSize);
     meta \<leftarrow> put_into meta 0 2 (le_put 2 (of_nat dataShards :: uint16));
     meta \<leftarrow> put_into meta 2 4 (le_put 2 (of_nat parityShards :: uint16));
     meta \<leftarrow> put_into meta 4 8 (le_put 4 (of_nat shardSize :: uint32));
     meta \<leftarrow> put_into meta 8 16 (le_put 8 (of_nat payloadLen :: uint64));
     h \<leftarrow> subslice meta 0 16;
     meta \<leftarrow> put_into meta 16 20 (le_put 4 (ChecksumIEEE h));
     copy_into blob headerSize (headerSize + rsMetaSize) meta
   }"

definition shardSectionOff :: nat where
  "shardSectionOff = headerSize + rsMetaSize"

text \<open>shards[i]: the window of shard \<open>i\<close>, behind its header, checked against the blob.\<close>

definition shardWindow :: "bytes \<Rightarrow> nat \<Rightarrow> nat \<Rightarrow> (nat \<times> nat) option" where
  "shardWindow blob shardSize i =
     (let off = shardSectionOff + i * (rsShardHdrSize + shardSize)
      in if off + rsShardHdrSize + shardSize \<le> length blob
         then Some (off + rsShardHdrSize, shardSize) else None)"

definition window :: "bytes \<Rightarrow> nat \<times> nat \<Rightarrow> bytes" where
  "window blob w = take (snd w) (drop (fst w) blob)"

text \<open>enc.Encode writes through the shard slices.\<close>

definition storeWindows :: "bytes \<Rightarrow> (nat \<times> nat) list \<Rightarrow> bytes list \<Rightarrow> bytes option" where
  "storeWindows blob ws xs =
     for_list (\<lambda>(w, x) blob. copy_into blob (fst w) (fst w + snd w) x) (zip ws xs) blob"

text \<open>The goroutine that writes the header of shard \<open>i\<close>.\<close>

definition shardHeader_ops :: "nat \<Rightarrow> nat \<Rightarrow> mem_op list" where
  "shardHeader_ops shardSize i =
     (let off = shardSectionOff + i * (rsShardHdrSize + shardSize) in
      [PutOp off (off + 2) (le_put 2 (of_nat i :: uint16)),
       PutCRCOp (off + rsShardHdrSize) (off + rsShardHdrSize + shardSize) (off + 2) (off + 6)])"

text \<open>SerializeRS once the geometry is accepted.\<close>

definition encodeRS ::
    "rs_lib \<Rightarrow> nat \<Rightarrow> nat list \<Rightarrow> nat list \<Rightarrow> device \<Rightarrow> int list \<Rightarrow> nat \<Rightarrow> nat \<Rightarrow> nat
     \<Rightarrow> (format_error + bytes) option" where
  "encodeRS rs procs sched hsched d idxs payloadLen N K = do {
     let shardSize = (if payloadLen > 0 then (payloadLen + N - 1) div N else 0);
     let tot = N + K;
     let blob = replicate (headerSize + rsMetaSize + tot * (rsShardHdrSize + shardSize)) 0;
     blob \<leftarrow> putHeader blob TierL2 (of_nat (length idxs));
     blob \<leftarrow> putRSMeta blob N K shardSize payloadLen;
     if shardSize = 0 then do {
       dst \<leftarrow> subslice blob (headerSize + rsMetaSize) (length blob);
       dst \<leftarrow> writeEmptyShardHeaders dst tot;
       Some (Inr (take (headerSize + rsMetaSize) blob @ dst))
     } else do {
       shards \<leftarrow> those (map (shardWindow blob shardSize) [0..<tot]);
       blob \<leftarrow> writeRecordsSharded procs sched d blob idxs (take N shards) shardSize;
       if \<not> rs_new rs N K then Some (Inl ErrUnsupportedTier)
       else (case rs_encode rs N K (map (window blob) shards) of
           None \<Rightarrow> Some (Inl ErrCorrupt)
         | Some enc \<Rightarrow> do {
             blob \<leftarrow> storeWindows blob shards enc;
             blob \<leftarrow> run_sched exec_op hsched (map (shardHeader_ops shardSize) [0..<tot]) blob;
             Some (Inr blob)
           })
     }
   }"

definition SerializeRS ::
    "rs_lib \<Rightarrow> nat \<Rightarrow> nat list \<Rightarrow> nat list \<Rightarrow> device \<Rightarrow> int \<Rightarrow> int \<Rightarrow> (format_error + bytes) option" where
  "SerializeRS rs procs sched hsched d dataShards parityShards = do {
     let idxs = sortedIndices d;
     let payloadLen = length idxs * l1RecordSize;
     let (dataShards, parityShards) =
       (if dataShards \<le> 0 \<or> parityShards \<le> 0 then
          (let (dd, dp) = rsDefaultShards payloadLen in
           (if dataShards \<le> 0 then dd else dataShards,
            if parityShards \<le> 0 then dp else parityShards))
        else (dataShards, parityShards));
     if i64 (dataShards + parityShards) > rsMaxTotalShards then Some (Inl ErrUnsupportedTier)
     else if \<not> validRSGeometry dataShards parityShards (of_nat payloadLen)
     then Some (Inl ErrUnsupportedTier)
     else do {
       N \<leftarrow> as_len dataShards;
       K \<leftarrow> as_len parityShards;
       encodeRS rs procs sched hsched d idxs payloadLen N K
     }
   }"

section \<open>Decoding\<close>

record rsGeometry =
  g_dataShards :: nat
  g_parityShards :: nat
  g_shardSize :: nat
  g_payloadLen :: nat

definition parseRSMeta :: "bytes \<Rightarrow> uint64 \<Rightarrow> (format_error + rsGeometry) option" where
  "parseRSMeta body blockCount =
     (if length body < rsMetaSize then Some (Inl ErrCorrupt)
      else do {
        meta \<leftarrow> subslice body 0 rsMetaSize;
        h \<leftarrow> subslice meta 0 16;
        c \<leftarrow> subslice meta 16 20;
        want \<leftarrow> get_u32 c;
        if ChecksumIEEE h \<noteq> want then Some (Inl ErrCorrupt)
        else do {
          f0 \<leftarrow> subslice meta 0 2; w0 \<leftarrow> get_u16 f0;
          f1 \<leftarrow> subslice meta 2 4; w1 \<leftarrow> get_u16 f1;
          f2 \<leftarrow> subslice meta 4 8; w2 \<leftarrow> get_u32 f2;
          f3 \<leftarrow> subslice meta 8 16; payloadLen64 \<leftarrow> get_u64 f3;
          let N = unat w0; let K = unat w1; let S = unat w2; let tot = N + K;
          if N < 1 \<or> int tot > rsMaxTotalShards then Some (Inl ErrCorrupt)
          else if \<not> validRSGeometry (int N) (int K) payloadLen64 then Some (Inl ErrCorrupt)
          else if payloadLen64 mod of_nat l1RecordSize \<noteq> 0
                  \<or> payloadLen64 div of_nat l1RecordSize \<noteq> blockCount then Some (Inl ErrCorrupt)
          else if of_nat tot * of_nat S > rsMaxDecodeAlloc
                  \<or> payloadLen64 > of_nat N * of_nat S then Some (Inl ErrCorrupt)
          else do {
            P \<leftarrow> as_len (sint payloadLen64);
            let g = \<lparr>g_dataShards = N, g_parityShards = K, g_shardSize = S, g_payloadLen = P\<rparr>;
            if P = 0 then Some (Inr g)
            else if S = 0 then Some (Inl ErrCorrupt)
            else if S \<noteq> (P + N - 1) div N then Some (Inl ErrCorrupt)
            else if of_nat tot * of_nat (rsShardHdrSize + S) > 4 * (of_nat (length body) :: uint64)
            then Some (Inl ErrCorrupt)
            else Some (Inr g)
          }
        }
      })"

text \<open>One stride of the shard section; \<open>shards\<close> is the slot table.\<close>

definition parseShard :: "bytes \<Rightarrow> nat \<Rightarrow> nat \<Rightarrow> nat \<Rightarrow> bytes option list \<Rightarrow> bytes option list option" where
  "parseShard sect tot shardSize off shards = do {
     f0 \<leftarrow> subslice sect off (off + 2); w \<leftarrow> get_u16 f0;
     f1 \<leftarrow> subslice sect (off + 2) (off + 6); want \<leftarrow> get_u32 f1;
     data \<leftarrow> subslice sect (off + rsShardHdrSize) (off + (rsShardHdrSize + shardSize));
     let idx = unat w;
     if tot \<le> idx then Some shards
     else if shards ! idx \<noteq> None \<or> ChecksumIEEE data \<noteq> want then Some shards
     else Some (shards[idx := Some data])
   }"

definition parseShardSection :: "bytes \<Rightarrow> nat \<Rightarrow> nat \<Rightarrow> (bytes option list \<times> nat) option" where
  "parseShardSection sect tot shardSize = do {
     shards \<leftarrow> for_list (parseShard sect tot shardSize)
       (range_le 0 (length sect) (rsShardHdrSize + shardSize)) (replicate tot None);
     Some (shards, length (filter (\<lambda>s. s = None) shards))
   }"

text \<open>
  readShardSpan for \<open>need\<close> bytes from payload offset \<open>off\<close>: \<open>Some None\<close> is the result false,
  \<open>Some (Some bs)\<close> true with the bytes copied to dst.
\<close>

function readShardSpan ::
    "bytes option list \<Rightarrow> nat \<Rightarrow> nat \<Rightarrow> nat \<Rightarrow> nat \<Rightarrow> bytes option option" where
  "readShardSpan shards N S need off =
     (if need = 0 then Some (Some [])
      else if S = 0 then None
      else if N \<le> off div S then Some None
      else if length shards \<le> off div S then None
      else (case shards ! (off div S) of
              None \<Rightarrow> Some None
            | Some sh \<Rightarrow>
                (let chunk = take need (drop (off mod S) sh) in
                 if chunk = [] then None
                 else do {
                   rest \<leftarrow> readShardSpan shards N S (need - length chunk) (off + length chunk);
                   Some (map_option (\<lambda>bs. chunk @ bs) rest)
                 })))"
  by pat_completeness auto
termination
  by (relation "measure (\<lambda>(shards, N, S, need, off). need)") (auto simp: min_def)

declare readShardSpan.simps [simp del]

text \<open>rsSalvage: \<open>r_bad\<close> collects the named losses, \<open>lost\<close> the same indices in order.\<close>

definition salvageRecord ::
    "bytes option list \<Rightarrow> nat \<Rightarrow> nat \<Rightarrow> int \<Rightarrow> nat \<Rightarrow> recovery \<times> int list \<Rightarrow> (recovery \<times> int list) option" where
  "salvageRecord shards N S maxBlock lo st = do {
     let (s, lost) = st;
     got \<leftarrow> readShardSpan shards N S l1RecordSize lo;
     (case got of
        Some r \<Rightarrow> do {
          idx \<leftarrow> readIdx r;
          ok \<leftarrow> readCRCok r;
          dt \<leftarrow> subslice r 8 (8 + BlockSize);
          if \<not> ok then Some (s\<lparr>r_skipped := r_skipped s @ [\<lparr>s_idx = idx, s_data = dt\<rparr>]\<rparr>, lost)
          else if 0 \<le> idx \<and> idx < maxBlock then do {
            b \<leftarrow> copy_into (replicate BlockSize 0) 0 BlockSize dt;
            Some (s\<lparr>r_dev := (r_dev s)\<lparr>dirty := Mapping.update idx b (dirty (r_dev s))\<rparr>\<rparr>, lost)
          }
          else Some (s\<lparr>r_unattr := True\<rparr>, lost)
        }
      | None \<Rightarrow> do {
          got8 \<leftarrow> readShardSpan shards N S 8 lo;
          (case got8 of
             Some h \<Rightarrow> do {
               w \<leftarrow> get_u64 h;
               let idx = sint w;
               if 0 \<le> idx \<and> idx < maxBlock
               then Some (s\<lparr>r_bad := r_bad s @ [idx]\<rparr>, lost @ [idx])
               else Some (s\<lparr>r_unattr := True\<rparr>, lost)
             }
           | None \<Rightarrow> Some (s\<lparr>r_unattr := True\<rparr>, lost))
        })
   }"

definition rsSalvage ::
    "bytes option list \<Rightarrow> nat \<Rightarrow> nat \<Rightarrow> nat \<Rightarrow> bytes \<Rightarrow> (device \<times> partial_recovery option) option" where
  "rsSalvage shards N S P bs = do {
     d \<leftarrow> New bs;
     let maxBlock = int (length bs div BlockSize);
     (s, lost) \<leftarrow> for_list (salvageRecord shards N S maxBlock) (range_le 0 P l1RecordSize)
       (\<lparr>r_dev = d, r_bad = [], r_skipped = [], r_unattr = False\<rparr>, []);
     let unattr = fold (\<lambda>k u. if suppressed maxBlock (r_dev s) k then u else True)
       (r_skipped s) (r_unattr s);
     let unattr = fold (\<lambda>i u. if Mapping.lookup (dirty (r_dev s)) i \<noteq> None then True else u)
       lost unattr;
     let bad = finalizeBad (r_dev s) (r_bad s);
     Some (report (r_dev s) bad unattr)
   }"

definition deserializeRS ::
    "rs_lib \<Rightarrow> bytes \<Rightarrow> uint64 \<Rightarrow> bytes \<Rightarrow> (format_error + device \<times> partial_recovery option) option" where
  "deserializeRS rs body blockCount bs = do {
     meta \<leftarrow> parseRSMeta body blockCount;
     (case meta of
        Inl e \<Rightarrow> Some (Inl e)
      | Inr g \<Rightarrow>
          (let N = g_dataShards g; K = g_parityShards g; S = g_shardSize g; P = g_payloadLen g in
           if P = 0 then do { r \<leftarrow> applyRecords [] TierL1 blockCount bs; Some (Inr r) }
           else do {
             sect \<leftarrow> subslice body rsMetaSize (length body);
             (shards, missing) \<leftarrow> parseShardSection sect (N + K) S;
             if missing \<le> K then
               (if \<not> rs_new rs N K then Some (Inl ErrCorrupt)
                else (let (ok, shards') = rs_reconstruct rs N K shards in
                  if ok then (if length shards' < N then None else do {
                    let payload = concat (map (\<lambda>i. case shards' ! i of Some x \<Rightarrow> x | None \<Rightarrow> []) [0..<N]);
                    p \<leftarrow> subslice payload 0 P;
                    r \<leftarrow> applyRecords p TierL1 blockCount bs;
                    Some (Inr r)
                  }) else do { r \<leftarrow> rsSalvage shards' N S P bs; Some (Inr r) }))
             else do { r \<leftarrow> rsSalvage shards N S P bs; Some (Inr r) }
           }))
   }"

end
