(* ===== verification/Codec.thy ===== *)
theory Codec
  imports ReedSolomon
begin

text \<open>
  src/blockdevice/format.go, the tier switch: SerializeTier, Serialize and Deserialize.
\<close>

definition SerializeTier ::
    "rs_lib \<Rightarrow> nat \<Rightarrow> nat list \<Rightarrow> nat list \<Rightarrow> device \<Rightarrow> tier \<Rightarrow> (format_error + bytes) option" where
  "SerializeTier rs procs sched hsched d t =
     (if t = TierL0 then do {
        blob \<leftarrow> serializeRecords procs sched d t l0RecordSize; Some (Inr blob) }
      else if t = TierL1 then do {
        blob \<leftarrow> serializeRecords procs sched d t l1RecordSize; Some (Inr blob) }
      else if t = TierL2 then SerializeRS rs procs sched hsched d 0 0
      else Some (Inl ErrUnsupportedTier))"

definition Serialize ::
    "rs_lib \<Rightarrow> nat \<Rightarrow> nat list \<Rightarrow> nat list \<Rightarrow> device \<Rightarrow> (format_error + bytes) option" where
  "Serialize rs procs sched hsched d = SerializeTier rs procs sched hsched d TierL0"

definition Deserialize ::
    "rs_lib \<Rightarrow> bytes \<Rightarrow> bytes \<Rightarrow> (format_error + device \<times> partial_recovery option) option" where
  "Deserialize rs blob bs =
     (if length bs mod BlockSize \<noteq> 0 then Some (Inl ErrCorrupt)
      else if length blob < headerSize then Some (Inl ErrCorrupt)
      else do {
        m \<leftarrow> subslice blob 0 4;
        v \<leftarrow> elem_at blob 4;
        if m \<noteq> magic \<or> v \<noteq> formatVersion then Some (Inl ErrCorrupt)
        else do {
          c \<leftarrow> subslice blob 14 18;
          want \<leftarrow> get_u32 c;
          h \<leftarrow> subslice blob 0 14;
          t \<leftarrow> elem_at blob 5;
          if ChecksumIEEE h \<noteq> want then
            (if t = TierL1 \<or> t > TierL2 then deserializeHeaderless blob bs
             else Some (Inl ErrCorrupt))
          else do {
            f \<leftarrow> subslice blob 6 14;
            blockCount \<leftarrow> get_u64 f;
            body \<leftarrow> subslice blob headerSize (length blob);
            if t = TierL0 \<or> t = TierL1 then do {
              r \<leftarrow> applyRecords body t blockCount bs; Some (Inr r) }
            else if t = TierL2 then deserializeRS rs body blockCount bs
            else Some (Inl ErrUnsupportedTier)
          }
        }
      })"

end
