(* ===== verification/RecordSpec.thy ===== *)
theory RecordSpec
  imports Records
begin

text \<open>
  What the record layer of src/blockdevice/format.go computes, over lists of records: the
  bytes of a header and of a record, the overlay a list of records decodes to, and the
  lemmas that the statement-level definitions of theory Records compute these without
  panicking, for every schedule of the writer goroutines.
\<close>

section \<open>The bytes of a header and of a record\<close>

definition header :: "tier \<Rightarrow> nat \<Rightarrow> bytes" where
  "header t n =
     (let h = magic @ [formatVersion, t] @ le_put 8 (of_nat n :: uint64)
      in h @ le_put 4 (ChecksumIEEE h))"

definition enc_record :: "bool \<Rightarrow> int \<Rightarrow> bytes \<Rightarrow> bytes" where
  "enc_record withCRC i b =
     (let h = le_put 8 (word_of_int i :: uint64) @ b
      in h @ (if withCRC then le_put 4 (ChecksumIEEE h) else []))"

definition enc_size :: "bool \<Rightarrow> nat" where
  "enc_size withCRC = (if withCRC then l1RecordSize else l0RecordSize)"

definition rec_idx :: "bytes \<Rightarrow> int" where
  "rec_idx r = sint (le_get (take 8 r) :: uint64)"

definition rec_data :: "bytes \<Rightarrow> bytes" where
  "rec_data r = take BlockSize (drop 8 r)"

definition crc_ok :: "bytes \<Rightarrow> bool" where
  "crc_ok r \<longleftrightarrow> ChecksumIEEE (take (8 + BlockSize) r) = le_get (take 4 (drop (8 + BlockSize) r))"

definition rec_ok :: "tier \<Rightarrow> bytes \<Rightarrow> bool" where
  "rec_ok t r \<longleftrightarrow> t \<noteq> TierL1 \<or> crc_ok r"

definition in_base :: "nat \<Rightarrow> int \<Rightarrow> bool" where
  "in_base k i \<longleftrightarrow> 0 \<le> i \<and> i < int k"

lemma length_header [simp]: "length (header t n) = headerSize"
  by (simp add: header_def headerSize_def magic_def Let_def)

lemma headerSize_eq: "headerSize = 18"
  by (simp add: headerSize_def)

lemma enc_size_pos [simp]: "0 < enc_size c" "enc_size c \<noteq> 0" "8 \<le> enc_size c" "8 + BlockSize \<le> enc_size c"
  by (simp_all add: enc_size_def l0RecordSize_def l1RecordSize_def)

lemma length_enc_record: "length b = BlockSize \<Longrightarrow> length (enc_record c i b) = enc_size c"
  by (simp add: enc_record_def enc_size_def l0RecordSize_def l1RecordSize_def Let_def)

lemma rec_idx_enc: "in_i64 i \<Longrightarrow> rec_idx (enc_record c i b) = i"
  by (simp add: rec_idx_def enc_record_def Let_def in_i64_def sint_sbintrunc' signed_take_bit_int_eq_self)

lemma rec_data_enc: "length b = BlockSize \<Longrightarrow> rec_data (enc_record c i b) = b"
  by (simp add: rec_data_def enc_record_def Let_def)

lemma crc_ok_enc: "length b = BlockSize \<Longrightarrow> crc_ok (enc_record True i b)"
  by (simp add: crc_ok_def enc_record_def Let_def)

lemma rec_idx_range: "in_i64 (rec_idx r)"
  using sint_range_size [of "le_get (take 8 r) :: uint64"]
  by (simp add: in_i64_def rec_idx_def word_size)

lemma putHeader_eq:
  assumes "headerSize \<le> length blob"
  shows "putHeader blob t (of_nat n) = Some (header t n @ drop headerSize blob)"
proof -
  have "18 \<le> length blob" using assms by (simp add: headerSize_def)
  then show ?thesis
    by (simp add: putHeader_def header_def magic_def copy_into_exact put_into_exact subslice_Some Let_def
        headerSize_def)
qed

section \<open>The overlay a list of records decodes to\<close>

definition apply_rec ::
    "(bytes \<Rightarrow> bool) \<Rightarrow> nat \<Rightarrow> bytes \<Rightarrow> (int, bytes) mapping \<Rightarrow> (int, bytes) mapping" where
  "apply_rec ok k r m =
     (if ok r \<and> in_base k (rec_idx r) then Mapping.update (rec_idx r) (rec_data r) m else m)"

definition overlay_of :: "(bytes \<Rightarrow> bool) \<Rightarrow> nat \<Rightarrow> bytes list \<Rightarrow> (int, bytes) mapping" where
  "overlay_of ok k rs = fold (apply_rec ok k) rs Mapping.empty"

definition skipped_of :: "(bytes \<Rightarrow> bool) \<Rightarrow> bytes list \<Rightarrow> skippedRec list" where
  "skipped_of ok rs =
     map (\<lambda>r. \<lparr>s_idx = rec_idx r, s_data = rec_data r\<rparr>) (filter (\<lambda>r. \<not> ok r) rs)"

definition stray :: "(bytes \<Rightarrow> bool) \<Rightarrow> nat \<Rightarrow> bytes list \<Rightarrow> bool" where
  "stray ok k rs \<longleftrightarrow> (\<exists>r\<in>set rs. ok r \<and> \<not> in_base k (rec_idx r))"

lemma overlay_of_simps [simp]:
  "overlay_of ok k [] = Mapping.empty"
  "overlay_of ok k (rs @ [r]) = apply_rec ok k r (overlay_of ok k rs)"
  by (simp_all add: overlay_of_def)

lemma skipped_of_simps [simp]:
  "skipped_of ok [] = []"
  "skipped_of ok (rs @ [r]) =
     skipped_of ok rs @ (if ok r then [] else [\<lparr>s_idx = rec_idx r, s_data = rec_data r\<rparr>])"
  by (simp_all add: skipped_of_def)

lemma stray_simps [simp]:
  "\<not> stray ok k []"
  "stray ok k (rs @ [r]) \<longleftrightarrow> stray ok k rs \<or> ok r \<and> \<not> in_base k (rec_idx r)"
  by (auto simp: stray_def)

text \<open>The last verifying record of an index wins.\<close>

lemma lookup_overlay_of:
  "Mapping.lookup (overlay_of ok k rs) i =
     (if in_base k i then map_option rec_data (find (\<lambda>r. ok r \<and> rec_idx r = i) (rev rs)) else None)"
proof (induction rs rule: rev_induct)
  case (snoc r rs)
  then show ?case by (auto simp: apply_rec_def lookup_update')
qed simp

lemma overlay_of_SomeD:
  "Mapping.lookup (overlay_of ok k rs) i = Some b \<Longrightarrow>
   in_base k i \<and> (\<exists>r\<in>set rs. ok r \<and> rec_idx r = i \<and> rec_data r = b)"
  by (auto simp: lookup_overlay_of dest!: find_SomeD split: if_splits)

lemma overlay_of_keys:
  "Mapping.keys (overlay_of ok k rs) = {i. in_base k i \<and> (\<exists>r\<in>set rs. ok r \<and> rec_idx r = i)}"
proof -
  have "Mapping.lookup (overlay_of ok k rs) i \<noteq> None \<longleftrightarrow>
      in_base k i \<and> (\<exists>r\<in>set rs. ok r \<and> rec_idx r = i)" for i
    using find_exists [of "\<lambda>r. ok r \<and> rec_idx r = i" "rev rs"] by (auto simp: lookup_overlay_of)
  then show ?thesis by (auto simp: keys_dom_lookup)
qed

lemma overlay_of_valid:
  "(\<And>r. r \<in> set rs \<Longrightarrow> 8 + BlockSize \<le> length r) \<Longrightarrow> valid_overlay k (overlay_of ok k rs)"
  unfolding valid_overlay_def
  by (auto dest!: overlay_of_SomeD simp: in_base_def rec_data_def min_def) force

section \<open>The contract of a record format\<close>

text \<open>
  A record tier is an encoder of a block under its index, with a fixed record size and a check
  \<open>ok\<close> that the decoder applies. Each law is one of the facts the wire format promises; what
  the decoder recovers from encoded records follows from them alone.
\<close>

definition dump :: "(int \<Rightarrow> bytes \<Rightarrow> bytes) \<Rightarrow> (int, bytes) mapping \<Rightarrow> int list \<Rightarrow> bytes list" where
  "dump enc m ks = map (\<lambda>i. enc i (Mapping.lookup_default [] m i)) ks"

locale record_format =
  fixes enc :: "int \<Rightarrow> bytes \<Rightarrow> bytes"
    and size :: nat
    and ok :: "bytes \<Rightarrow> bool"
  assumes size_pos: "0 < size"
    and enc_length: "length b = BlockSize \<Longrightarrow> length (enc i b) = size"
    and enc_idx: "in_i64 i \<Longrightarrow> rec_idx (enc i b) = i"
    and enc_data: "length b = BlockSize \<Longrightarrow> rec_data (enc i b) = b"
    and enc_ok: "length b = BlockSize \<Longrightarrow> ok (enc i b)"
begin

lemma dump_length:
  assumes "valid_overlay k m" "set ks \<subseteq> Mapping.keys m" "r \<in> set (dump enc m ks)"
  shows "length r = size"
  using assms by (fastforce simp: dump_def lookup_default_def keys_dom_lookup valid_overlay_def
      intro!: enc_length split: option.splits)

lemma dump_records:
  assumes "valid_overlay k m" "int k < 2 ^ 63" "set ks \<subseteq> Mapping.keys m" "r \<in> set (dump enc m ks)"
  shows "ok r" "in_base k (rec_idx r)" "rec_idx r \<in> set ks"
    "Mapping.lookup m (rec_idx r) = Some (rec_data r)"
proof -
  from assms(4) obtain i where i: "i \<in> set ks" "r = enc i (Mapping.lookup_default [] m i)"
    by (auto simp: dump_def)
  with assms(3) obtain b where b: "Mapping.lookup m i = Some b" by (auto simp: keys_dom_lookup)
  then have v: "0 \<le> i" "i < int k" "length b = BlockSize"
    using assms(1) by (auto dest: valid_overlayD)
  have r: "r = enc i b" using i(2) b by (simp add: lookup_default_def)
  have ix: "rec_idx r = i"
    unfolding r using v assms(2) by (intro enc_idx) (simp add: in_i64_def)
  show "ok r" using r v(3) by (simp add: enc_ok)
  show "in_base k (rec_idx r)" using v ix by (simp add: in_base_def)
  show "rec_idx r \<in> set ks" using ix i by simp
  show "Mapping.lookup m (rec_idx r) = Some (rec_data r)"
    using ix b r v(3) by (simp add: enc_data)
qed

text \<open>Records in any order, repeated or not, decode to the overlay restricted to their keys.\<close>

lemma overlay_of_dump_any:
  assumes "valid_overlay k m" "int k < 2 ^ 63" "set ks \<subseteq> Mapping.keys m"
  shows "Mapping.lookup (overlay_of ok k (dump enc m ks)) i =
    (if i \<in> set ks then Mapping.lookup m i else None)"
proof (cases "find (\<lambda>r. ok r \<and> rec_idx r = i) (rev (dump enc m ks))")
  case None
  have "i \<notin> set ks"
  proof
    assume i: "i \<in> set ks"
    then have r: "enc i (Mapping.lookup_default [] m i) \<in> set (dump enc m ks)" by (simp add: dump_def)
    from i assms(3) obtain b where "Mapping.lookup m i = Some b" by (auto simp: keys_dom_lookup)
    then have "0 \<le> i" "i < int k" using valid_overlayD [OF assms(1)] by simp_all
    then have "in_i64 i" using assms(2) by (simp add: in_i64_def)
    then have "rec_idx (enc i (Mapping.lookup_default [] m i)) = i" by (rule enc_idx)
    with r None dump_records(1) [OF assms r] show False by (simp add: find_None_iff)
  qed
  with None show ?thesis by (simp add: lookup_overlay_of)
next
  case (Some r)
  then have "r \<in> set (dump enc m ks)" "rec_idx r = i"
    by (auto simp: find_Some_iff rev_nth)
  with Some dump_records [OF assms this(1)] show ?thesis by (auto simp: lookup_overlay_of)
qed

lemma overlay_of_dump:
  "valid_overlay k m \<Longrightarrow> int k < 2 ^ 63 \<Longrightarrow> set ks = Mapping.keys m \<Longrightarrow>
   overlay_of ok k (dump enc m ks) = m"
  by (rule mapping_eqI) (auto simp: overlay_of_dump_any keys_dom_lookup)

lemma dump_clean:
  assumes "valid_overlay k m" "int k < 2 ^ 63" "set ks \<subseteq> Mapping.keys m"
  shows "skipped_of ok (dump enc m ks) = []" "\<not> stray ok k (dump enc m ks)"
  using dump_records [OF assms] by (auto simp: skipped_of_def stray_def)

lemma pieces_dump:
  assumes "valid_overlay k m" "set ks \<subseteq> Mapping.keys m" "n \<le> length ks"
  shows "pieces size n (concat (dump enc m ks) @ ys) = take n (dump enc m ks)"
  using dump_length [OF assms(1,2)] assms(3) by (intro pieces_concat) (auto simp: dump_def)

lemma concat_dump_length:
  assumes "valid_overlay k m" "set ks \<subseteq> Mapping.keys m"
  shows "length (concat (dump enc m ks)) = length ks * size"
proof -
  have "length (concat (dump enc m ks)) = length (dump enc m ks) * size"
    using dump_length [OF assms] by (rule length_concat_blocks)
  then show ?thesis by (simp add: dump_def)
qed

end

definition tier_of :: "bool \<Rightarrow> tier" where
  "tier_of c = (if c then TierL1 else TierL0)"

interpretation rt: record_format "enc_record c" "enc_size c" "rec_ok (tier_of c)" for c
  by unfold_locales
    (auto simp: length_enc_record rec_idx_enc rec_data_enc rec_ok_def tier_of_def
      TierL0_def TierL1_def crc_ok_enc)

section \<open>The writer goroutines\<close>

text \<open>The statements of one pass of writeRecordRange store one encoded record.\<close>

lemma overwrite_chain:
  "off + length a + length b \<le> length m \<Longrightarrow> o2 = off + length a \<Longrightarrow>
   overwrite (overwrite m off a) o2 b = overwrite m off (a @ b)"
  by (simp add: overwrite_append)

lemma exec_record_ops:
  assumes "length b = BlockSize" "Mapping.lookup (dirty d) idx = Some b"
    and "off + enc_size c \<le> length m"
  shows "for_list exec_op (record_ops d (enc_size c) c off idx) m
       = Some (overwrite m off (enc_record c idx b))"
proof -
  let ?h = "le_put 8 (word_of_int idx :: uint64)"
  have sz: "enc_size c = 8 + BlockSize + (if c then 4 else 0)"
    by (simp add: enc_size_def l0RecordSize_def l1RecordSize_def)
  have le: "off + 8 \<le> length m" "off + 8 + BlockSize \<le> length m"
    using assms(3) sz by (auto split: if_splits)
  have s1: "exec_op (PutOp off (off + 8) ?h) m = Some (overwrite m off ?h)"
    using le by (simp add: exec_op_eq)
  have s2: "exec_op (CopyOp (off + 8) (off + 8 + BlockSize) b) (overwrite m off ?h)
      = Some (overwrite m off (?h @ b))"
    using le assms(1) by (simp add: exec_op_eq overwrite_chain)
  have s3: "exec_op (PutCRCOp off (off + 8 + BlockSize) (off + 8 + BlockSize) (off + enc_size c))
      (overwrite m off (?h @ b)) = Some (overwrite m off ((?h @ b) @ le_put 4 (ChecksumIEEE (?h @ b))))"
    if c: "c"
  proof -
    have "take (8 + BlockSize) (drop off (overwrite m off (?h @ b))) = ?h @ b"
      using overwrite_same [of off "?h @ b" m] le assms(1) by simp
    moreover have "off + length (?h @ b) + 4 \<le> length m"
      using assms sz c by simp
    ultimately show ?thesis
      using le sz c assms(1) by (simp add: exec_op_eq overwrite_chain)
  qed
  have lk: "Mapping.lookup_default [] (dirty d) idx = b"
    using assms(2) by (simp add: lookup_default_def)
  show ?thesis
  proof (cases c)
    case True
    then show ?thesis
      using s1 s2 s3 by (simp add: record_ops_def lk enc_record_def Let_def del: exec_op.simps)
  next
    case False
    then show ?thesis
      using s1 s2 by (simp add: record_ops_def lk enc_record_def Let_def del: exec_op.simps)
  qed
qed

text \<open>A range of records, from any offset of the buffer.\<close>

definition records_bytes :: "bool \<Rightarrow> device \<Rightarrow> int list \<Rightarrow> bytes" where
  "records_bytes c d ks = concat (dump (enc_record c) (dirty d) ks)"

lemma records_bytes_simps [simp]:
  "records_bytes c d [] = []"
  "records_bytes c d (i # ks) = enc_record c i (Mapping.lookup_default [] (dirty d) i) @ records_bytes c d ks"
  by (simp_all add: records_bytes_def dump_def)

definition block_keys :: "device \<Rightarrow> int list \<Rightarrow> bool" where
  "block_keys d ks \<longleftrightarrow> (\<forall>i\<in>set ks. \<exists>b. Mapping.lookup (dirty d) i = Some b \<and> length b = BlockSize)"

lemma block_keys_valid:
  "valid_device d \<Longrightarrow> set ks \<subseteq> Mapping.keys (dirty d) \<Longrightarrow> block_keys d ks"
  by (fastforce simp: block_keys_def keys_dom_lookup valid_device_def valid_overlay_def)

lemma length_records_bytes: "block_keys d ks \<Longrightarrow> length (records_bytes c d ks) = length ks * enc_size c"
  by (induction ks) (auto simp: block_keys_def lookup_default_def length_enc_record)

lemma exec_range_ops:
  assumes "block_keys d ks" "off + length ks * enc_size c \<le> length m"
  shows "for_list exec_op (writeRecordRange_ops d (enc_size c) c ks off) m
       = Some (overwrite m off (records_bytes c d ks))"
  using assms
proof (induction ks arbitrary: off m)
  case (Cons i ks)
  then obtain b where b: "Mapping.lookup (dirty d) i = Some b" "length b = BlockSize"
    by (auto simp: block_keys_def)
  let ?r = "enc_record c i b"
  have lr: "length ?r = enc_size c" using b(2) by (rule length_enc_record)
  have ks: "block_keys d ks" using Cons.prems(1) by (simp add: block_keys_def)
  have "for_list exec_op (writeRecordRange_ops d (enc_size c) c (i # ks) off) m
      = for_list exec_op (writeRecordRange_ops d (enc_size c) c ks (off + enc_size c)) (overwrite m off ?r)"
    using exec_record_ops [OF b(2,1)] Cons.prems(2) by (simp add: for_list_append)
  also have "\<dots> = Some (overwrite (overwrite m off ?r) (off + enc_size c) (records_bytes c d ks))"
    using Cons.prems(2) lr by (intro Cons.IH ks) simp
  also have "\<dots> = Some (overwrite m off (?r @ records_bytes c d ks))"
    using Cons.prems(2) lr length_records_bytes [OF ks, of c] by (simp add: overwrite_chain)
  finally show ?case using b(1) by (simp add: lookup_default_def)
qed simp

lemma writeRecordRange_ops_append:
  "writeRecordRange_ops d rs c (xs @ ys) off
   = writeRecordRange_ops d rs c xs off @ writeRecordRange_ops d rs c ys (off + length xs * rs)"
  by (induction xs arbitrary: off) (simp_all add: add.assoc)

lemma footprint_range_ops:
  "rs = enc_size c \<Longrightarrow> a \<in> set (writeRecordRange_ops d rs c ks off) \<Longrightarrow>
   footprint a \<subseteq> {off..<off + length ks * rs}"
proof (induction ks arbitrary: off)
  case (Cons i ks)
  show ?case
  proof (cases "a \<in> set (record_ops d rs c off i)")
    case True
    with Cons.prems(1) show ?thesis
      by (auto simp: record_ops_def enc_size_def l0RecordSize_def l1RecordSize_def split: if_splits)
  next
    case False
    with Cons show ?thesis by fastforce
  qed
qed simp

section \<open>The ranges the workers own\<close>

lemma range_lt_nth: "i < length (range_lt lo hi st) \<Longrightarrow> range_lt lo hi st ! i = lo + i * st \<and> lo + i * st < hi"
proof (induction lo hi st arbitrary: i rule: range_lt.induct)
  case (1 lo hi st)
  show ?case
  proof (cases "lo < hi \<and> 0 < st")
    case True
    then have r: "range_lt lo hi st = lo # range_lt (lo + st) hi st" by (subst range_lt.simps) simp
    show ?thesis
    proof (cases i)
      case (Suc j)
      then show ?thesis using "1.IH" [OF True, of j] "1.prems" by (simp add: r)
    qed (use True r in simp)
  next
    case False
    with "1.prems" show ?thesis by (simp add: range_lt.simps [of lo hi st])
  qed
qed

text \<open>Cutting an index list at the range starts and concatenating gives the list back.\<close>

definition owned :: "'a list \<Rightarrow> nat \<times> nat \<Rightarrow> 'a list" where
  "owned xs r = take (snd r - fst r) (drop (fst r) xs)"

definition ranges_from :: "nat \<Rightarrow> nat \<Rightarrow> nat \<Rightarrow> (nat \<times> nat) list" where
  "ranges_from lo n chunk = map (\<lambda>lo. (lo, if lo + chunk > n then n else lo + chunk)) (range_lt lo n chunk)"

lemma worker_ranges_eq: "worker_ranges w n = ranges_from 0 n ((n + w - 1) div w)"
  by (simp add: worker_ranges_def ranges_from_def Let_def)

lemma ops_of_ranges:
  assumes "0 < chunk"
  shows "concat (map (\<lambda>r. writeRecordRange_ops d rs c (owned idxs r) (fst r * rs))
      (ranges_from lo (length idxs) chunk)) = writeRecordRange_ops d rs c (drop lo idxs) (lo * rs)"
    (is "concat (map ?g _) = _")
  using assms
proof (induction lo "length idxs" chunk rule: range_lt.induct)
  case (1 lo chunk)
  show ?case
  proof (cases "lo < length idxs \<and> 0 < chunk")
    case True
    let ?hi = "if lo + chunk > length idxs then length idxs else lo + chunk"
    have r: "ranges_from lo (length idxs) chunk
        = (lo, ?hi) # ranges_from (lo + chunk) (length idxs) chunk"
      using True by (simp add: ranges_from_def range_lt.simps [of lo])
    have split: "drop lo idxs = owned idxs (lo, ?hi) @ drop (lo + chunk) idxs"
      by (simp add: owned_def add.commute flip: drop_drop)
    have rest: "writeRecordRange_ops d rs c (drop (lo + chunk) idxs) (lo * rs + length (owned idxs (lo, ?hi)) * rs)
        = writeRecordRange_ops d rs c (drop (lo + chunk) idxs) ((lo + chunk) * rs)"
      using True by (cases "lo + chunk \<le> length idxs") (simp_all add: owned_def add_mult_distrib)
    have "concat (map ?g (ranges_from lo (length idxs) chunk))
        = writeRecordRange_ops d rs c (owned idxs (lo, ?hi)) (lo * rs)
          @ writeRecordRange_ops d rs c (drop (lo + chunk) idxs) ((lo + chunk) * rs)"
      using 1 True by (simp only: r list.map concat.simps fst_conv)
    also have "\<dots> = writeRecordRange_ops d rs c (owned idxs (lo, ?hi) @ drop (lo + chunk) idxs) (lo * rs)"
      by (simp only: writeRecordRange_ops_append rest)
    finally show ?thesis by (simp only: split)
  next
    case False
    then have "length idxs \<le> lo" using "1.prems" by auto
    then show ?thesis by (simp add: ranges_from_def range_lt.simps [of lo])
  qed
qed

lemma ranges_from_apart:
  assumes "i < length (ranges_from 0 n chunk)" "j < length (ranges_from 0 n chunk)" "i < j"
  shows "snd (ranges_from 0 n chunk ! i) \<le> fst (ranges_from 0 n chunk ! j)"
    and "fst (ranges_from 0 n chunk ! i) \<le> snd (ranges_from 0 n chunk ! i)"
proof -
  have "Suc i * chunk \<le> j * chunk" using assms(3) by (intro mult_le_mono1) simp
  then show "snd (ranges_from 0 n chunk ! i) \<le> fst (ranges_from 0 n chunk ! j)"
    using assms range_lt_nth [of i 0 n chunk] range_lt_nth [of j 0 n chunk]
    by (simp add: ranges_from_def)
  show "fst (ranges_from 0 n chunk ! i) \<le> snd (ranges_from 0 n chunk ! i)"
    using assms range_lt_nth [of i 0 n chunk] by (simp add: ranges_from_def)
qed

text \<open>Every schedule of the fan-out, for any number of processors, is the sequential loop.\<close>

lemma writeRecords_eq:
  assumes "rs = enc_size c"
  shows "writeRecords procs sched d dst idxs rs c = writeRecordRange d dst idxs rs c"
proof (cases "workers_for procs (length idxs) \<le> 1")
  case False
  let ?w = "workers_for procs (length idxs)"
  let ?chunk = "(length idxs + ?w - 1) div ?w"
  let ?R = "ranges_from 0 (length idxs) ?chunk"
  let ?g = "\<lambda>r. writeRecordRange_ops d rs c (owned idxs r) (fst r * rs)"
  have w: "1 < ?w" "?w \<le> length idxs"
    using False by (auto simp: workers_for_def serialMinPerWorker_def Let_def split: if_splits)
  have chunk: "0 < ?chunk" using w by (simp add: div_greater_zero_iff)
  have foot: "footprint a \<subseteq> {fst r * rs..<snd r * rs}"
    if "a \<in> set (?g r)" "fst r \<le> snd r" for a r
  proof -
    have "length (owned idxs r) \<le> snd r - fst r" by (simp add: owned_def)
    then have "fst r + length (owned idxs r) \<le> snd r" using that(2) by linarith
    then have "fst r * rs + length (owned idxs r) * rs \<le> snd r * rs"
      by (metis add_mult_distrib mult_le_mono1)
    then show ?thesis using footprint_range_ops [OF assms that(1)] by auto
  qed
  have ord: "apart footprint (?g (?R ! i)) (?g (?R ! j))" if "i < length ?R" "j < length ?R" "i < j" for i j
  proof -
    have le: "snd (?R ! i) * rs \<le> fst (?R ! j) * rs"
      using ranges_from_apart(1) [OF that] by (rule mult_le_mono1)
    have "fst (?R ! j) \<le> snd (?R ! j)"
      using that(2) range_lt_nth [of j 0 "length idxs" ?chunk] by (simp add: ranges_from_def)
    then show ?thesis
      unfolding apart_def using ranges_from_apart(2) [OF that]
      by (intro ballI disjoint_ranges [OF foot foot le])
  qed
  have "run_sched exec_op sched (map ?g ?R) dst = for_list exec_op (concat (map ?g ?R)) dst"
  proof (rule buf.schedule_independent)
    fix i j assume "i < length (map ?g ?R)" "j < length (map ?g ?R)" "i \<noteq> j"
    then show "apart footprint (map ?g ?R ! i) (map ?g ?R ! j)"
      using ord [of i j] ord [of j i] by (cases "i < j") (auto simp: apart_def Int_commute)
  qed
  also have "concat (map ?g ?R) = writeRecordRange_ops d rs c idxs 0"
    using ops_of_ranges [OF chunk, of d rs c idxs 0] by simp
  finally show ?thesis
    using False by (simp add: writeRecords_def writeRecordRange_def Let_def worker_ranges_eq owned_def
        case_prod_unfold)
qed (simp add: writeRecords_def)

lemma serializeRecords_eq:
  assumes "valid_device d"
  shows "serializeRecords procs sched d (tier_of c) (enc_size c)
       = Some (header (tier_of c) (length (sortedIndices d)) @ records_bytes c d (sortedIndices d))"
proof -
  let ?ks = "sortedIndices d"
  have fin: "finite (Mapping.keys (dirty d))"
    using assms by (auto simp: valid_device_def intro: valid_overlay_finite)
  then have ks: "block_keys d ?ks" using assms by (intro block_keys_valid) (simp_all add: sortedIndices_def)
  let ?z = "replicate (length ?ks * enc_size c) (0 :: byte)"
  have c: "(tier_of c = TierL1) = c" by (simp add: tier_of_def TierL0_def TierL1_def)
  have "for_list exec_op (writeRecordRange_ops d (enc_size c) c ?ks 0) ?z
      = Some (overwrite ?z 0 (records_bytes c d ?ks))"
    using ks by (intro exec_range_ops) simp_all
  also have "overwrite ?z 0 (records_bytes c d ?ks) = records_bytes c d ?ks"
    using length_records_bytes [OF ks, of c] by (simp add: overwrite_def)
  finally have "writeRecords procs sched d ?z ?ks (enc_size c) c = Some (records_bytes c d ?ks)"
    by (simp add: writeRecords_eq writeRecordRange_def)
  then show ?thesis
    by (simp add: serializeRecords_def Let_def putHeader_eq c subslice_Some)
qed

end
