(* ===== verification/DecodeSpec.thy ===== *)
theory DecodeSpec
  imports RecordSpec
begin

text \<open>
  The decoders of src/blockdevice/format.go against their specification: applyRecords and
  deserializeHeaderless return, for every input, the overlay of the verifying records and
  the report that \<open>loss_report\<close> describes, and never panic.
\<close>

section \<open>The compaction of finalizeBad\<close>

text \<open>What the in-place loop leaves: the first occurrences of the entries not applied.\<close>

primrec kept :: "device \<Rightarrow> int set \<Rightarrow> int list \<Rightarrow> int list" where
  "kept d seen [] = []"
| "kept d seen (b # bs) =
     (if b \<in> seen then kept d seen bs
      else if Mapping.lookup (dirty d) b \<noteq> None then kept d (insert b seen) bs
      else b # kept d (insert b seen) bs)"

lemma kept_set: "set (kept d seen bs) = {b \<in> set bs. b \<notin> seen \<and> Mapping.lookup (dirty d) b = None}"
  by (induction bs arbitrary: seen) auto

lemma kept_distinct: "distinct (kept d seen bs)"
  by (induction bs arbitrary: seen) (auto simp: kept_set)

lemma finalizeBad_loop:
  assumes "i \<le> length arr" "k \<le> i"
  shows "\<exists>arr' k' seen'. fold (finalizeBad_step d) [i..<length arr] (arr, k, seen) = (arr', k', seen')
    \<and> take k' arr' = take k arr @ kept d seen (drop i arr)"
  using assms
proof (induction "length arr - i" arbitrary: i arr k seen)
  case 0
  then show ?case by simp
next
  case (Suc n)
  then have i: "i < length arr" by simp
  have up: "[i..<length arr] = i # [Suc i..<length arr]" using i by (rule upt_conv_Cons)
  have dr: "drop i arr = arr ! i # drop (Suc i) arr" using i by (simp add: Cons_nth_drop_Suc)
  show ?case
  proof (cases "arr ! i \<in> seen \<or> Mapping.lookup (dirty d) (arr ! i) \<noteq> None")
    case True
    let ?seen = "insert (arr ! i) seen"
    have "finalizeBad_step d i (arr, k, seen) = (arr, k, ?seen)"
      using True by (auto simp: finalizeBad_step_def Let_def insert_absorb)
    moreover have "kept d seen (drop i arr) = kept d ?seen (drop (Suc i) arr)"
      using True by (auto simp: dr insert_absorb)
    ultimately show ?thesis
      using Suc.hyps(1) [of arr "Suc i" k ?seen] Suc.hyps(2) Suc.prems i by (simp add: up)
  next
    case False
    let ?arr = "arr[k := arr ! i]"
    have "finalizeBad_step d i (arr, k, seen) = (?arr, Suc k, insert (arr ! i) seen)"
      using False by (simp add: finalizeBad_step_def Let_def)
    moreover have "take (Suc k) ?arr = take k arr @ [arr ! i]"
      using Suc.prems i by (simp add: take_Suc_conv_app_nth)
    moreover have "drop (Suc i) ?arr = drop (Suc i) arr" using Suc.prems by simp
    ultimately show ?thesis
      using Suc.hyps(1) [of ?arr "Suc i" "Suc k" "insert (arr ! i) seen"] Suc.hyps(2) Suc.prems i False
      by (simp add: up dr)
  qed
qed

text \<open>finalizeBad is the sorted list of the distinct entries whose block was not applied.\<close>

lemma finalizeBad_eq:
  "finalizeBad d bad = sorted_list_of_set {b \<in> set bad. Mapping.lookup (dirty d) b = None}"
proof (cases "bad = []")
  case False
  obtain arr k seen where f: "fold (finalizeBad_step d) [0..<length bad] (bad, 0, {}) = (arr, k, seen)"
      "take k arr = kept d {} bad"
    using finalizeBad_loop [of 0 bad 0 d "{}"] by auto
  have "finalizeBad d bad = sort (kept d {} bad)" using f False by (simp add: finalizeBad_def)
  also have "\<dots> = sorted_list_of_set (set (kept d {} bad))"
    by (rule sorted_distinct_set_unique) (simp_all add: kept_distinct)
  finally show ?thesis by (simp add: kept_set)
qed (simp add: finalizeBad_def)

section \<open>The record readers inside their bounds\<close>

lemma readIdx_eq: "8 \<le> length r \<Longrightarrow> readIdx r = Some (rec_idx r)"
  by (simp add: readIdx_def subslice_Some get_u64_Some rec_idx_def)

lemma readCRCok_eq: "length r = l1RecordSize \<Longrightarrow> readCRCok r = Some (crc_ok r)"
  by (simp add: readCRCok_def subslice_Some get_u32_Some crc_ok_def l1RecordSize_def)

definition tier_size :: "tier \<Rightarrow> nat" where
  "tier_size t = (if t = TierL1 then l1RecordSize else l0RecordSize)"

lemma tier_size_pos [simp]: "0 < tier_size t" "tier_size t \<noteq> 0" "8 \<le> tier_size t" "8 + BlockSize \<le> tier_size t"
  by (simp_all add: tier_size_def l0RecordSize_def l1RecordSize_def)

lemma tier_check_eq:
  "length r = tier_size t \<Longrightarrow> (if t = TierL1 then readCRCok r else Some True) = Some (rec_ok t r)"
  by (simp add: rec_ok_def readCRCok_eq tier_size_def)

lemma piece_bounds: "i < n \<Longrightarrow> n * k \<le> m \<Longrightarrow> (i + 1) * k \<le> m" for i n k m :: nat
  by (metis Suc_eq_plus1 Suc_leI le_trans mult_le_mono1)

lemma applyRecord_eq:
  assumes "n * tier_size t \<le> length body" "i < n" "length arena = n * BlockSize"
  shows "applyRecord body t (tier_size t) (int k) arena i s =
    (let r = take (tier_size t) (drop (i * tier_size t) body) in
     Some (if \<not> rec_ok t r
           then s\<lparr>r_skipped := r_skipped s @ [\<lparr>s_idx = rec_idx r, s_data = rec_data r\<rparr>]\<rparr>
           else if \<not> in_base k (rec_idx r) then s\<lparr>r_unattr := True\<rparr>
           else s\<lparr>r_dev := (r_dev s)\<lparr>dirty := Mapping.update (rec_idx r) (rec_data r) (dirty (r_dev s))\<rparr>\<rparr>))"
proof -
  define r where "r = take (tier_size t) (drop (i * tier_size t) body)"
  have le: "(i + 1) * tier_size t \<le> length body" using piece_bounds assms by blast
  have sub: "subslice body (i * tier_size t) ((i + 1) * tier_size t) = Some r"
    using le by (simp add: subslice_Some r_def)
  have len: "length r = tier_size t" using le by (simp add: r_def)
  have dt: "subslice r 8 (8 + BlockSize) = Some (rec_data r)"
    using len tier_size_pos(4) [of t] by (simp add: subslice_Some rec_data_def)
  have ar: "(i + 1) * BlockSize \<le> length arena" using piece_bounds assms by simp
  have "8 + BlockSize \<le> length r" using len by simp
  then have "length (rec_data r) = BlockSize" by (simp add: rec_data_def)
  then have cp: "copy_into (take BlockSize (drop (i * BlockSize) arena)) 0 BlockSize (rec_data r) = Some (rec_data r)"
    using ar by (subst copy_into_exact) simp_all
  have sa: "subslice arena (i * BlockSize) ((i + 1) * BlockSize) = Some (take BlockSize (drop (i * BlockSize) arena))"
    "length (take BlockSize (drop (i * BlockSize) arena)) = BlockSize"
    using ar by (simp_all add: subslice_Some)
  have ib: "(rec_idx r < 0 \<or> int k \<le> rec_idx r) \<longleftrightarrow> \<not> in_base k (rec_idx r)"
    by (auto simp: in_base_def)
  show ?thesis
    unfolding applyRecord_def sub bind.bind_lunit
    by (simp only: readIdx_eq len tier_size_pos(3) tier_check_eq dt ib sa cp r_def [symmetric] Let_def
        bind.bind_lunit) simp
qed

lemma apply_loop_eq:
  assumes "n * tier_size t \<le> length body" "length arena = N * BlockSize" "N * tier_size t \<le> length body" "n \<le> N"
  shows "for_list (applyRecord body t (tier_size t) (int k) arena) [0..<n]
      \<lparr>r_dev = \<lparr>base = bs, dirty = Mapping.empty\<rparr>, r_bad = bad, r_skipped = [], r_unattr = u\<rparr> =
    (let rs = pieces (tier_size t) n body in
     Some \<lparr>r_dev = \<lparr>base = bs, dirty = overlay_of (rec_ok t) k rs\<rparr>, r_bad = bad,
           r_skipped = skipped_of (rec_ok t) rs, r_unattr = u \<or> stray (rec_ok t) k rs\<rparr>)"
  using assms(1,4)
proof (induction n)
  case 0
  then show ?case by (simp add: pieces_def)
next
  case (Suc n)
  have p: "pieces (tier_size t) (Suc n) body
      = pieces (tier_size t) n body @ [take (tier_size t) (drop (n * tier_size t) body)]"
    by (simp add: pieces_def)
  have "n < N" using Suc.prems by simp
  from applyRecord_eq [OF assms(3) this assms(2)] Suc show ?case
    by (simp add: for_list_append Let_def p apply_rec_def)
qed

section \<open>The report of applyRecords\<close>

text \<open>
  Against the block count of the header a body is exact, cut short or too long. The tail of a
  cut body names a block when its index field is complete and inside the base. A record that
  failed its CRC is explained when its data is what was applied for the index it carries.
\<close>

definition rec_count :: "tier \<Rightarrow> bytes \<Rightarrow> uint64 \<Rightarrow> nat" where
  "rec_count t body bc = min (length body div tier_size t) (unat bc)"

definition cut_short :: "tier \<Rightarrow> bytes \<Rightarrow> uint64 \<Rightarrow> bool" where
  "cut_short t body bc \<longleftrightarrow> length body div tier_size t < unat bc"

definition exact_body :: "tier \<Rightarrow> bytes \<Rightarrow> uint64 \<Rightarrow> bool" where
  "exact_body t body bc \<longleftrightarrow> length body = unat bc * tier_size t"

definition cut_tail :: "tier \<Rightarrow> bytes \<Rightarrow> bytes" where
  "cut_tail t body = drop (length body div tier_size t * tier_size t) body"

definition tail_named :: "tier \<Rightarrow> nat \<Rightarrow> bytes \<Rightarrow> uint64 \<Rightarrow> bool" where
  "tail_named t k body bc \<longleftrightarrow>
     cut_short t body bc \<and> 8 \<le> length (cut_tail t body) \<and> in_base k (rec_idx (cut_tail t body))"

definition explained :: "nat \<Rightarrow> (int, bytes) mapping \<Rightarrow> skippedRec \<Rightarrow> bool" where
  "explained k m s \<longleftrightarrow> in_base k (s_idx s) \<and> Mapping.lookup m (s_idx s) = Some (s_data s)"

definition rec_list :: "tier \<Rightarrow> bytes \<Rightarrow> uint64 \<Rightarrow> bytes list" where
  "rec_list t body bc = pieces (tier_size t) (rec_count t body bc) body"

definition body_overlay :: "tier \<Rightarrow> nat \<Rightarrow> bytes \<Rightarrow> uint64 \<Rightarrow> (int, bytes) mapping" where
  "body_overlay t k body bc = overlay_of (rec_ok t) k (rec_list t body bc)"

definition named_loss :: "tier \<Rightarrow> nat \<Rightarrow> bytes \<Rightarrow> uint64 \<Rightarrow> int list" where
  "named_loss t k body bc =
     (if tail_named t k body bc
         \<and> Mapping.lookup (body_overlay t k body bc) (rec_idx (cut_tail t body)) = None
      then [rec_idx (cut_tail t body)] else [])"

definition unnamed_loss :: "tier \<Rightarrow> nat \<Rightarrow> bytes \<Rightarrow> uint64 \<Rightarrow> bool" where
  "unnamed_loss t k body bc \<longleftrightarrow>
     \<not> cut_short t body bc \<and> \<not> exact_body t body bc
     \<or> cut_short t body bc \<and> \<not> (tail_named t k body bc
         \<and> Mapping.lookup (body_overlay t k body bc) (rec_idx (cut_tail t body)) = None)
     \<or> stray (rec_ok t) k (rec_list t body bc)
     \<or> (\<exists>s\<in>set (skipped_of (rec_ok t) (rec_list t body bc)).
          \<not> explained k (body_overlay t k body bc) s)"

lemma sint_small: "unat (w :: uint64) < 2 ^ 63 \<Longrightarrow> sint w = int (unat w)"
proof -
  assume "unat w < 2 ^ 63"
  then have "int (unat w) < int (2 ^ 63)" by (simp only: of_nat_less_iff)
  then have "uint w < 2 ^ 63" by simp
  moreover have "- (2 ^ 63) \<le> uint w"
    by (rule order_trans [of _ 0]) simp_all
  ultimately show ?thesis by (simp add: sint_uint signed_take_bit_int_eq_self)
qed

lemma unat_of_nat_small: "int n < 2 ^ 63 \<Longrightarrow> unat (of_nat n :: uint64) = n"
  by (simp add: unat_of_nat take_bit_nat_eq_self)

lemma suppressed_eq:
  "suppressed (int k) d s \<longleftrightarrow> explained k (dirty d) s"
  by (auto simp: suppressed_def explained_def in_base_def split: option.splits)

lemma skip_fold: "fold (\<lambda>k u. if P k then u else True) xs u \<longleftrightarrow> u \<or> (\<exists>x\<in>set xs. \<not> P x)"
  by (induction xs arbitrary: u) auto

lemma applyLayout_eq:
  assumes "int (length body) < 2 ^ 63"
  shows "applyLayout body (tier_size t) bc (int k) = Some (rec_count t body bc,
     if tail_named t k body bc then [rec_idx (cut_tail t body)] else [],
     \<not> cut_short t body bc \<and> \<not> exact_body t body bc \<or> cut_short t body bc \<and> \<not> tail_named t k body bc,
     if tail_named t k body bc then Some (rec_idx (cut_tail t body)) else None)"
proof -
  let ?n = "length body div tier_size t"
  have "?n \<le> length body" by simp
  then have un: "unat (of_nat ?n :: uint64) = ?n"
    using assms by (intro unat_of_nat_small) linarith
  show ?thesis
  proof (cases "cut_short t body bc")
    case True
    then have "?n < unat bc" by (simp add: cut_short_def)
    then have lt: "\<not> bc \<le> of_nat ?n" by (simp add: word_le_nat_alt un)
    have sl: "subslice body (?n * tier_size t) (length body) = Some (cut_tail t body)"
      by (simp add: subslice_Some cut_tail_def)
    have rc: "rec_count t body bc = ?n" using True by (simp add: rec_count_def cut_short_def)
    show ?thesis
      using True by (auto simp: applyLayout_def Let_def lt sl rc tail_named_def readIdx_eq in_base_def)
  next
    case False
    then have ge: "unat bc \<le> ?n" by (simp add: cut_short_def)
    then have le: "bc \<le> of_nat ?n" by (simp add: word_le_nat_alt un)
    have "length body < 2 ^ 63" using assms by simp
    then have "unat bc < 2 ^ 63" using ge \<open>?n \<le> length body\<close> by linarith
    then have al: "as_len (sint bc) = Some (unat bc)"
      by (simp only: sint_small as_len_nat)
    have ex: "(bc < of_nat ?n \<or> length body mod tier_size t \<noteq> 0) = (\<not> exact_body t body bc)"
      using ge by (auto simp: word_less_nat_alt un exact_body_def mod_0_imp_dvd
          dest: dvd_mult_div_cancel)
    have rc: "rec_count t body bc = unat bc" using ge by (simp add: rec_count_def)
    have "exact_body t body bc \<Longrightarrow> ?n = unat bc" by (simp add: exact_body_def)
    then show ?thesis
      using False by (simp only: applyLayout_def Let_def le ex al rc tail_named_def) auto
  qed
qed

theorem applyRecords_eq:
  assumes "valid_base bs" "int (length body) < 2 ^ 63"
  shows "applyRecords body t bc bs = Some (report
    \<lparr>base = bs, dirty = body_overlay t (nblocks bs) body bc\<rparr>
    (named_loss t (nblocks bs) body bc) (unnamed_loss t (nblocks bs) body bc))"
proof -
  let ?k = "nblocks bs"
  let ?n = "rec_count t body bc"
  let ?rs = "rec_list t body bc"
  let ?m = "body_overlay t ?k body bc"
  let ?d = "\<lparr>base = bs, dirty = ?m\<rparr>"
  let ?tl = "rec_idx (cut_tail t body)"
  have nk: "length bs div BlockSize = ?k" by (simp add: nblocks_def)
  have "?n * tier_size t \<le> length body div tier_size t * tier_size t"
    by (intro mult_le_mono1) (simp add: rec_count_def)
  then have bnd: "?n * tier_size t \<le> length body" using div_times_less_eq_dividend le_trans by blast
  have loop: "for_list (applyRecord body t (tier_size t) (int ?k) (replicate (?n * BlockSize) 0)) [0..<?n]
      \<lparr>r_dev = \<lparr>base = bs, dirty = Mapping.empty\<rparr>, r_bad = bad, r_skipped = [], r_unattr = u\<rparr>
    = Some \<lparr>r_dev = ?d, r_bad = bad, r_skipped = skipped_of (rec_ok t) ?rs,
        r_unattr = u \<or> stray (rec_ok t) ?k ?rs\<rparr>" for bad u
    using apply_loop_eq [OF bnd _ bnd order_refl, of "replicate (?n * BlockSize) 0" ?k bs bad u]
    by (simp add: rec_list_def body_overlay_def Let_def)
  have sz: "(if t = TierL1 then l1RecordSize else l0RecordSize) = tier_size t" by (simp add: tier_size_def)
  have fb: "finalizeBad ?d (if tail_named t ?k body bc then [?tl] else []) = named_loss t ?k body bc"
    by (auto simp: finalizeBad_eq named_loss_def Collect_conv_if)
  have ul: "(if tail_named t ?k body bc \<and> Mapping.lookup ?m ?tl \<noteq> None then True
      else (\<not> cut_short t body bc \<and> \<not> exact_body t body bc \<or> cut_short t body bc \<and> \<not> tail_named t ?k body bc)
        \<or> stray (rec_ok t) ?k ?rs \<or> (\<exists>s\<in>set (skipped_of (rec_ok t) ?rs). \<not> explained ?k ?m s))
    = unnamed_loss t ?k body bc"
    by (auto simp: unnamed_loss_def tail_named_def)
  show ?thesis
    unfolding applyRecords_def sz New_valid [OF assms(1)] nk applyLayout_eq [OF assms(2)] Let_def
      bind.bind_lunit prod.case loop
    by (cases "tail_named t ?k body bc")
      (use fb ul in \<open>auto simp: suppressed_eq skip_fold\<close>)
qed

section \<open>The headerless fallback scan\<close>

lemma rec_ok_L1 [simp]: "rec_ok TierL1 = crc_ok"
  by (intro ext) (simp add: rec_ok_def)

lemma rec_ok_L0 [simp]: "rec_ok TierL0 r"
  by (simp add: rec_ok_def TierL0_def TierL1_def)

lemma tier_size_simps [simp]: "tier_size TierL1 = l1RecordSize" "tier_size TierL0 = l0RecordSize"
  by (simp_all add: tier_size_def TierL0_def TierL1_def)

lemma l1RecordSize_pos [simp]: "0 < l1RecordSize" "l1RecordSize \<noteq> 0"
  by (simp_all add: l1RecordSize_def)

definition salvageable :: "nat \<Rightarrow> bytes list \<Rightarrow> bytes list" where
  "salvageable k rs = filter (\<lambda>r. crc_ok r \<and> in_base k (rec_idx r)) rs"

lemma headerlessRecord_eq:
  assumes "n * l1RecordSize \<le> length body" "i < n" "length arena = n * BlockSize"
  shows "headerlessRecord body (int k) arena (i * l1RecordSize) (d, c) =
    (let r = take l1RecordSize (drop (i * l1RecordSize) body) in
     Some (if crc_ok r \<and> in_base k (rec_idx r)
           then (d\<lparr>dirty := Mapping.update (rec_idx r) (rec_data r) (dirty d)\<rparr>, c + 1)
           else (d, c)))"
proof -
  define r where "r = take l1RecordSize (drop (i * l1RecordSize) body)"
  have "(i + 1) * l1RecordSize \<le> length body" using piece_bounds assms by blast
  then have le: "i * l1RecordSize + l1RecordSize \<le> length body" by simp
  have sub: "subslice body (i * l1RecordSize) (i * l1RecordSize + l1RecordSize) = Some r"
    using le by (simp add: subslice_Some r_def)
  have len: "length r = l1RecordSize" using le by (simp add: r_def)
  then have l8: "8 \<le> length r" "8 + BlockSize \<le> length r" by (simp_all add: l1RecordSize_def)
  have dt: "subslice r 8 (8 + BlockSize) = Some (rec_data r)"
    using l8 by (simp add: subslice_Some rec_data_def)
  have ar: "(i + 1) * BlockSize \<le> length arena" using piece_bounds assms by simp
  have "length (rec_data r) = BlockSize" using l8 by (simp add: rec_data_def)
  then have cp: "copy_into (take BlockSize (drop (i * BlockSize) arena)) 0 BlockSize (rec_data r) = Some (rec_data r)"
    using ar by (subst copy_into_exact) simp_all
  have sa: "subslice arena (i * BlockSize) ((i + 1) * BlockSize) = Some (take BlockSize (drop (i * BlockSize) arena))"
    "length (take BlockSize (drop (i * BlockSize) arena)) = BlockSize"
    using ar by (simp_all add: subslice_Some)
  have ib: "(\<not> crc_ok r \<or> rec_idx r < 0 \<or> int k \<le> rec_idx r) \<longleftrightarrow> \<not> (crc_ok r \<and> in_base k (rec_idx r))"
    by (auto simp: in_base_def)
  have dv: "i * l1RecordSize div l1RecordSize = i" by simp
  show ?thesis
    unfolding headerlessRecord_def sub bind.bind_lunit
    by (simp only: readIdx_eq [OF l8(1)] readCRCok_eq [OF len] dt ib sa cp dv r_def [symmetric] Let_def
        bind.bind_lunit fst_conv snd_conv) simp
qed

lemma headerless_loop_eq:
  assumes "N * l1RecordSize \<le> length body" "length arena = N * BlockSize" "n \<le> N"
  shows "for_list (headerlessRecord body (int k) arena) (map (\<lambda>i. i * l1RecordSize) [0..<n])
      (\<lparr>base = bs, dirty = Mapping.empty\<rparr>, 0) =
    (let rs = pieces l1RecordSize n body in
     Some (\<lparr>base = bs, dirty = overlay_of crc_ok k rs\<rparr>, length (salvageable k rs)))"
  using assms(3)
proof (induction n)
  case 0
  then show ?case by (simp add: pieces_def salvageable_def)
next
  case (Suc n)
  have p: "pieces l1RecordSize (Suc n) body
      = pieces l1RecordSize n body @ [take l1RecordSize (drop (n * l1RecordSize) body)]"
    by (simp add: pieces_def)
  have "n < N" using Suc.prems by simp
  from headerlessRecord_eq [OF assms(1) this assms(2)] Suc show ?case
    by (simp add: for_list_append Let_def p apply_rec_def salvageable_def)
qed

theorem deserializeHeaderless_eq:
  assumes "valid_base bs" "headerSize \<le> length blob"
  shows "deserializeHeaderless blob bs =
    (let body = drop headerSize blob;
         rs = pieces l1RecordSize (length body div l1RecordSize) body
     in Some (if body = [] \<or> length body mod l1RecordSize \<noteq> 0 \<or> salvageable (nblocks bs) rs = []
              then Inl ErrCorrupt
              else Inr (\<lparr>base = bs, dirty = overlay_of crc_ok (nblocks bs) rs\<rparr>,
                        Some \<lparr>BadBlocks = [], Truncated = True\<rparr>)))"
proof -
  let ?body = "drop headerSize blob"
  let ?n = "length ?body div l1RecordSize"
  have sl: "subslice blob headerSize (length blob) = Some ?body" using assms(2) by (simp add: subslice_Some)
  have nk: "length bs div BlockSize = nblocks bs" by (simp add: nblocks_def)
  have "?n * l1RecordSize \<le> length ?body" by simp
  from headerless_loop_eq [OF this _ order_refl, of "replicate (?n * BlockSize) 0" "nblocks bs" bs]
  have loop: "for_list (headerlessRecord ?body (int (nblocks bs)) (replicate (?n * BlockSize) 0))
      (range_le 0 (length ?body) l1RecordSize) (\<lparr>base = bs, dirty = Mapping.empty\<rparr>, 0)
    = Some (\<lparr>base = bs, dirty = overlay_of crc_ok (nblocks bs) (pieces l1RecordSize ?n ?body)\<rparr>,
        length (salvageable (nblocks bs) (pieces l1RecordSize ?n ?body)))"
    by (simp only: range_le_from_0 [OF l1RecordSize_pos(1)] length_replicate refl Let_def)
  have z: "length ?body = 0 \<longleftrightarrow> ?body = []" by simp
  show ?thesis
    unfolding deserializeHeaderless_def sl bind.bind_lunit New_valid [OF assms(1)] nk Let_def loop z
    by simp
qed

end
