(* ===== verification/RecordTiers.thy ===== *)
theory RecordTiers
  imports Codec DecodeSpec
begin

text \<open>
  The record tiers L0 and L1 end to end: what Deserialize does with a blob that SerializeTier
  wrote, unchanged, cut short, extended, reordered or damaged.
\<close>

section \<open>Deserialize over the fields of a blob\<close>

definition hdr_magic_ok :: "bytes \<Rightarrow> bool" where
  "hdr_magic_ok blob \<longleftrightarrow> take 4 blob = magic \<and> blob ! 4 = formatVersion"

definition hdr_crc_ok :: "bytes \<Rightarrow> bool" where
  "hdr_crc_ok blob \<longleftrightarrow> ChecksumIEEE (take 14 blob) = le_get (take 4 (drop 14 blob))"

definition hdr_count :: "bytes \<Rightarrow> uint64" where
  "hdr_count blob = le_get (take 8 (drop 6 blob))"

lemma Deserialize_eq:
  assumes "length bs mod BlockSize = 0" "headerSize \<le> length blob"
  shows "Deserialize rs blob bs =
    (if \<not> hdr_magic_ok blob then Some (Inl ErrCorrupt)
     else if \<not> hdr_crc_ok blob then
       (if blob ! 5 = TierL1 \<or> blob ! 5 > TierL2 then deserializeHeaderless blob bs
        else Some (Inl ErrCorrupt))
     else if blob ! 5 = TierL0 \<or> blob ! 5 = TierL1 then
       map_option Inr (applyRecords (drop headerSize blob) (blob ! 5) (hdr_count blob) bs)
     else if blob ! 5 = TierL2 then deserializeRS rs (drop headerSize blob) (hdr_count blob) bs
     else Some (Inl ErrUnsupportedTier))"
proof -
  have "18 \<le> length blob" using assms(2) by (simp add: headerSize_def)
  then have f: "subslice blob 0 4 = Some (take 4 blob)" "elem_at blob 4 = Some (blob ! 4)"
    "subslice blob 14 18 = Some (take 4 (drop 14 blob))" "subslice blob 0 14 = Some (take 14 blob)"
    "elem_at blob 5 = Some (blob ! 5)" "subslice blob 6 14 = Some (take 8 (drop 6 blob))"
    "subslice blob headerSize (length blob) = Some (drop headerSize blob)"
    "get_u32 (take 4 (drop 14 blob)) = Some (le_get (take 4 (drop 14 blob)))"
    "get_u64 (take 8 (drop 6 blob)) = Some (hdr_count blob)"
    using assms(2) by (simp_all add: subslice_Some elem_at_Some get_u32_Some get_u64_Some hdr_count_def)
  have mo: "map_option Inr x = Option.bind x (\<lambda>r. Some (Inr r))" for x :: "'x option"
    by (cases x) simp_all
  have lt: "\<not> length blob < headerSize" using assms(2) by simp
  show ?thesis
    unfolding Deserialize_def f bind.bind_lunit mo
    by (simp add: assms(1) lt hdr_magic_ok_def hdr_crc_ok_def)
qed

lemma header_fields:
  "hdr_magic_ok (header t n @ xs)" "hdr_crc_ok (header t n @ xs)" "(header t n @ xs) ! 5 = t"
  "hdr_count (header t n @ xs) = of_nat n" "drop headerSize (header t n @ xs) = xs"
  by (simp_all add: hdr_magic_ok_def hdr_crc_ok_def hdr_count_def header_def magic_def Let_def
      headerSize_def nth_append)

lemma tier_of_cases: "tier_of c = TierL0 \<or> tier_of c = TierL1"
  by (simp add: tier_of_def)

lemma tier_of_size [simp]: "tier_size (tier_of c) = enc_size c"
  by (simp add: tier_of_def enc_size_def tier_size_def TierL0_def TierL1_def)

lemma SerializeTier_record:
  "SerializeTier rs procs sched hsched d (tier_of c) =
   map_option Inr (serializeRecords procs sched d (tier_of c) (enc_size c))"
  by (cases "serializeRecords procs sched d (tier_of c) (enc_size c)")
    (auto simp: SerializeTier_def tier_of_def enc_size_def TierL0_def TierL1_def)

text \<open>A record-tier blob with any body, decoded.\<close>

lemma Deserialize_record_tier:
  assumes "valid_base bs" "int (length body) < 2 ^ 63"
  shows "Deserialize rs (header (tier_of c) n @ body) bs =
    (let t = tier_of c; k = nblocks bs; bc = of_nat n :: uint64 in
     Some (Inr (report \<lparr>base = bs, dirty = body_overlay t k body bc\<rparr>
       (named_loss t k body bc) (unnamed_loss t k body bc))))"
  using assms tier_of_cases [of c]
  by (simp add: Deserialize_eq header_fields applyRecords_eq Let_def valid_base_def)

section \<open>Blobs of a device\<close>

definition sorted_keys :: "device \<Rightarrow> int list" where
  "sorted_keys d = sorted_list_of_set (Mapping.keys (dirty d))"

definition record_blob :: "bool \<Rightarrow> device \<Rightarrow> int list \<Rightarrow> bytes" where
  "record_blob c d ks = header (tier_of c) (length ks) @ records_bytes c d ks"

lemma sortedIndices_eq: "valid_device d \<Longrightarrow> sortedIndices d = sorted_keys d"
  by (simp add: sortedIndices_def sorted_keys_def ordered_keys_def valid_device_def valid_overlay_finite)

lemma sorted_keys_facts:
  assumes "valid_device d"
  shows "set (sorted_keys d) = Mapping.keys (dirty d)" "distinct (sorted_keys d)" "sorted (sorted_keys d)"
    "length (sorted_keys d) = card (Mapping.keys (dirty d))"
proof -
  have "finite (Mapping.keys (dirty d))"
    using assms by (auto simp: valid_device_def intro: valid_overlay_finite)
  then show "set (sorted_keys d) = Mapping.keys (dirty d)" "distinct (sorted_keys d)" "sorted (sorted_keys d)"
    "length (sorted_keys d) = card (Mapping.keys (dirty d))"
    by (simp_all add: sorted_keys_def)
qed

lemma SerializeTier_record_blob:
  "valid_device d \<Longrightarrow> SerializeTier rs procs sched hsched d (tier_of c)
   = Some (Inr (record_blob c d (sorted_keys d)))"
  by (simp add: SerializeTier_record serializeRecords_eq sortedIndices_eq record_blob_def)

text \<open>The facts about a device's records that the decoding theorems share.\<close>

definition fits :: "bool \<Rightarrow> device \<Rightarrow> int list \<Rightarrow> bool" where
  "fits c d ks \<longleftrightarrow> valid_device d \<and> set ks \<subseteq> Mapping.keys (dirty d)
     \<and> headerSize + length ks * enc_size c < 2 ^ 63"

lemma fits_facts:
  assumes "fits c d ks"
  shows "valid_base (base d)" "valid_overlay (nblocks (base d)) (dirty d)" "int (nblocks (base d)) < 2 ^ 63"
    "set ks \<subseteq> Mapping.keys (dirty d)" "length (records_bytes c d ks) = length ks * enc_size c"
    "int (length (records_bytes c d ks)) < 2 ^ 63" "unat (of_nat (length ks) :: uint64) = length ks"
proof -
  show v: "valid_base (base d)" "valid_overlay (nblocks (base d)) (dirty d)" "set ks \<subseteq> Mapping.keys (dirty d)"
    using assms by (simp_all add: fits_def valid_device_def)
  have "nblocks (base d) \<le> length (base d)" by (simp add: nblocks_def)
  then show "int (nblocks (base d)) < 2 ^ 63" using v(1) by (simp add: valid_base_def)
  show len: "length (records_bytes c d ks) = length ks * enc_size c"
    unfolding records_bytes_def using v by (intro rt.concat_dump_length)
  have lt: "length ks * enc_size c < 2 ^ 63" using assms by (simp add: fits_def)
  then show "int (length (records_bytes c d ks)) < 2 ^ 63"
    unfolding len by (rule int_below_2p63)
  have "length ks \<le> length ks * enc_size c"
    using enc_size_pos(1) [of c] by (cases "enc_size c") simp_all
  then have "length ks < 2 ^ 63" using lt by (rule le_less_trans)
  then have "int (length ks) < 2 ^ 63" by (rule int_below_2p63)
  then show "unat (of_nat (length ks) :: uint64) = length ks" by (rule unat_of_nat_small)
qed

lemma rec_list_dump:
  assumes "fits c d ks" "n \<le> length ks" "length ys < enc_size c \<or> n = length ks"
    "body = concat (take n (dump (enc_record c) (dirty d) ks)) @ ys"
  shows "rec_list (tier_of c) body (of_nat (length ks)) = take n (dump (enc_record c) (dirty d) ks)"
    "length body = n * enc_size c + length ys"
proof -
  note f = fits_facts [OF assms(1)]
  let ?xs = "dump (enc_record c) (dirty d) ks"
  have len: "length x = enc_size c" if "x \<in> set ?xs" for x
    using rt.dump_length [OF f(2,4) that] .
  have lt: "length (take n ?xs) = n" using assms(2) by (simp add: dump_def)
  have "length (concat (take n ?xs)) = n * enc_size c"
    using length_concat_blocks [of "take n ?xs" "enc_size c"] len lt by (metis in_set_takeD)
  then show lb: "length body = n * enc_size c + length ys" by (simp add: assms(4))
  have "rec_count (tier_of c) body (of_nat (length ks)) = n"
    using assms(2,3) by (auto simp: rec_count_def lb f(7) div_mult_self3 less_imp_le_nat)
  moreover have "pieces (enc_size c) n body = take n (take n ?xs)"
    unfolding assms(4) using len lt by (intro pieces_concat) (auto dest: in_set_takeD)
  ultimately show "rec_list (tier_of c) body (of_nat (length ks)) = take n ?xs"
    by (simp add: rec_list_def)
qed

text \<open>Round trip: the records of any list of keys covering the overlay, in any order.\<close>

lemma records_apply:
  assumes "fits c d ks" "set ks = Mapping.keys (dirty d)"
  shows "applyRecords (records_bytes c d ks) (tier_of c) (of_nat (length ks)) (base d) = Some (d, None)"
proof -
  note f = fits_facts [OF assms(1)]
  let ?body = "records_bytes c d ks"
  let ?t = "tier_of c" and ?k = "nblocks (base d)" and ?bc = "of_nat (length ks) :: uint64"
  let ?xs = "dump (enc_record c) (dirty d) ks"
  have rl: "rec_list ?t ?body ?bc = ?xs"
    using rec_list_dump(1) [OF assms(1) order_refl, of "[]" ?body] by (simp add: records_bytes_def dump_def)
  have ov: "body_overlay ?t ?k ?body ?bc = dirty d"
    using rt.overlay_of_dump [OF f(2,3) assms(2)] by (simp add: body_overlay_def rl)
  have ex: "exact_body ?t ?body ?bc" by (simp add: exact_body_def f(5,7))
  then have nc: "\<not> cut_short ?t ?body ?bc" by (simp add: cut_short_def exact_body_def)
  have "named_loss ?t ?k ?body ?bc = []" using nc by (simp add: named_loss_def tail_named_def)
  moreover have "\<not> unnamed_loss ?t ?k ?body ?bc"
    using ex nc rt.dump_clean [OF f(2,3,4), of c] by (simp add: unnamed_loss_def rl)
  ultimately show ?thesis using applyRecords_eq [OF f(1,6)] by (simp add: ov report_def)
qed

lemma record_blob_decodes:
  assumes "fits c d ks" "set ks = Mapping.keys (dirty d)"
  shows "Deserialize rs (record_blob c d ks) (base d) = Some (Inr (d, None))"
  using records_apply [OF assms] fits_facts(1) [OF assms(1)] tier_of_cases [of c]
  by (simp add: record_blob_def Deserialize_eq header_fields valid_base_def)

section \<open>Truncated and extended blobs\<close>

definition restrict_overlay :: "(int, bytes) mapping \<Rightarrow> int set \<Rightarrow> (int, bytes) mapping" where
  "restrict_overlay m S = Mapping.filter (\<lambda>i _. i \<in> S) m"

lemma lookup_restrict_overlay:
  "Mapping.lookup (restrict_overlay m S) i = (if i \<in> S then Mapping.lookup m i else None)"
  by (simp add: restrict_overlay_def lookup_filter split: option.split)

lemma dump_take: "take n (dump enc m ks) = dump enc m (take n ks)"
  by (simp add: dump_def take_map)

lemma overlay_of_dump_restrict:
  assumes "fits c d ks" "set ks' \<subseteq> set ks"
  shows "overlay_of (rec_ok (tier_of c)) (nblocks (base d)) (dump (enc_record c) (dirty d) ks')
       = restrict_overlay (dirty d) (set ks')"
  using fits_facts [OF assms(1)] assms(2)
  by (intro mapping_eqI) (subst rt.overlay_of_dump_any, auto simp: lookup_restrict_overlay)

lemma dump_clean_fits:
  assumes "fits c d ks" "set ks' \<subseteq> set ks"
  shows "skipped_of (rec_ok (tier_of c)) (dump (enc_record c) (dirty d) ks') = []"
    "\<not> stray (rec_ok (tier_of c)) (nblocks (base d)) (dump (enc_record c) (dirty d) ks')"
  using rt.dump_clean [OF fits_facts(2,3) [OF assms(1)], of ks' c] fits_facts(4) [OF assms(1)] assms(2)
  by auto

lemma dump_nth:
  assumes "fits c d ks" "q < length ks"
  shows "length (dump (enc_record c) (dirty d) ks ! q) = enc_size c"
    "rec_ok (tier_of c) (dump (enc_record c) (dirty d) ks ! q)"
    "rec_idx (dump (enc_record c) (dirty d) ks ! q) = ks ! q"
    "in_base (nblocks (base d)) (ks ! q)"
    "Mapping.lookup (dirty d) (ks ! q) = Some (rec_data (dump (enc_record c) (dirty d) ks ! q))"
proof -
  note f = fits_facts [OF assms(1)]
  let ?r = "dump (enc_record c) (dirty d) ks ! q"
  have "?r = dump (enc_record c) (dirty d) [ks ! q] ! 0" using assms(2) by (simp add: dump_def)
  then have r1: "?r \<in> set (dump (enc_record c) (dirty d) [ks ! q])" by (simp add: dump_def)
  have s1: "set [ks ! q] \<subseteq> Mapping.keys (dirty d)" using f(4) assms(2) by auto
  note g = rt.dump_records [OF f(2,3) s1 r1]
  show "length ?r = enc_size c" using rt.dump_length [OF f(2) s1 r1] .
  show "rec_ok (tier_of c) ?r" by (rule g(1))
  show ix: "rec_idx ?r = ks ! q" using g(3) by simp
  show "in_base (nblocks (base d)) (ks ! q)" using g(2) ix by simp
  show "Mapping.lookup (dirty d) (ks ! q) = Some (rec_data ?r)" using g(4) ix by simp
qed

theorem truncated_blob_decodes:
  assumes "fits c d ks" "distinct ks" "headerSize \<le> n" "n < length (record_blob c d ks)"
    and q: "q = (n - headerSize) div enc_size c" and r: "r = (n - headerSize) mod enc_size c"
  shows "Deserialize rs (take n (record_blob c d ks)) (base d) =
    Some (Inr (d\<lparr>dirty := restrict_overlay (dirty d) (set (take q ks))\<rparr>,
      Some \<lparr>BadBlocks = (if 8 \<le> r then [ks ! q] else []), Truncated = r < 8\<rparr>))"
proof -
  note f = fits_facts [OF assms(1)]
  let ?t = "tier_of c" and ?k = "nblocks (base d)" and ?bc = "of_nat (length ks) :: uint64"
  let ?xs = "dump (enc_record c) (dirty d) ks"
  let ?m = "restrict_overlay (dirty d) (set (take q ks))"
  have m: "n - headerSize = q * enc_size c + r" by (simp add: q r)
  have rlt: "r < enc_size c" by (simp add: r)
  have "n - headerSize < length ks * enc_size c"
    using assms(3,4) f(5) by (simp add: record_blob_def)
  then have ql: "q < length ks" by (simp add: q less_mult_imp_div_less)
  have xl: "length ?xs = length ks" by (simp add: dump_def)
  define ys where "ys = take r (?xs ! q)"
  define body where "body = concat (take q ?xs) @ ys"
  have "take (n - headerSize) (records_bytes c d ks) = body"
    unfolding records_bytes_def m body_def ys_def
    using rt.dump_length [OF f(2,4)] ql rlt xl by (intro take_concat_mid) auto
  then have blob: "take n (record_blob c d ks) = header ?t (length ks) @ body"
    using assms(3) by (simp add: record_blob_def)
  have lys: "length ys = r" using dump_nth(1) [OF assms(1) ql] rlt by (simp add: ys_def)
  have rl: "rec_list ?t body ?bc = take q ?xs" and lb: "length body = q * enc_size c + r"
    using rec_list_dump [OF assms(1), of q ys body] ql rlt by (simp_all add: body_def lys)
  have dv: "length body div enc_size c = q" using rlt by (simp add: lb)
  have cut: "cut_short ?t body ?bc" using ql by (simp add: cut_short_def dv f(7))
  have ov: "body_overlay ?t ?k body ?bc = ?m"
    unfolding body_overlay_def rl dump_take
    by (intro overlay_of_dump_restrict [OF assms(1)]) (auto dest: in_set_takeD)
  have tl: "cut_tail ?t body = ys"
  proof -
    have "length (concat (take q ?xs)) = q * enc_size c" using lb lys by (simp add: body_def)
    then show ?thesis by (simp add: cut_tail_def dv) (simp add: body_def)
  qed
  have ix: "rec_idx ys = ks ! q" if "8 \<le> r"
    using that dump_nth(3) [OF assms(1) ql] by (simp add: ys_def rec_idx_def)
  have nm: "tail_named ?t ?k body ?bc \<longleftrightarrow> 8 \<le> r"
    using cut ix dump_nth(4) [OF assms(1) ql] by (auto simp: tail_named_def tl lys)
  have "ks ! q \<notin> set (take q ks)"
    using assms(2) ql by (metis id_take_nth_drop distinct_append distinct.simps(2) not_distinct_conv_prefix
        append_take_drop_id disjoint_insert(1) list.set(2) distinct_take)
  then have none: "Mapping.lookup ?m (ks ! q) = None" by (simp add: lookup_restrict_overlay)
  have nl: "named_loss ?t ?k body ?bc = (if 8 \<le> r then [ks ! q] else [])"
    using ix none by (auto simp: named_loss_def nm ov tl)
  have cl: "skipped_of (rec_ok ?t) (take q ?xs) = []" "\<not> stray (rec_ok ?t) ?k (take q ?xs)"
    unfolding dump_take using dump_clean_fits [OF assms(1), of "take q ks"] by (auto dest: in_set_takeD)
  have ul: "unnamed_loss ?t ?k body ?bc \<longleftrightarrow> r < 8"
    using cut ix none cl by (auto simp: unnamed_loss_def nm ov tl rl)
  have lb63: "int (length body) < 2 ^ 63"
  proof -
    have "length body \<le> length (records_bytes c d ks)"
      using \<open>take (n - headerSize) (records_bytes c d ks) = body\<close> by auto
    then show ?thesis using f(6) by linarith
  qed
  have "d\<lparr>dirty := ?m\<rparr> = \<lparr>base = base d, dirty = ?m\<rparr>" by simp
  then show ?thesis
    unfolding blob using f(1) lb63
    by (simp add: Deserialize_record_tier Let_def ov nl ul report_def)
qed

theorem extended_blob_decodes:
  assumes "fits c d ks" "set ks = Mapping.keys (dirty d)" "junk \<noteq> []"
    and "length (record_blob c d ks @ junk) < 2 ^ 63"
  shows "Deserialize rs (record_blob c d ks @ junk) (base d)
       = Some (Inr (d, Some \<lparr>BadBlocks = [], Truncated = True\<rparr>))"
proof -
  note f = fits_facts [OF assms(1)]
  let ?t = "tier_of c" and ?k = "nblocks (base d)" and ?bc = "of_nat (length ks) :: uint64"
  let ?xs = "dump (enc_record c) (dirty d) ks"
  let ?body = "records_bytes c d ks @ junk"
  have rl: "rec_list ?t ?body ?bc = ?xs"
    using rec_list_dump(1) [OF assms(1) order_refl, of junk ?body] by (simp add: records_bytes_def dump_def)
  have ov: "body_overlay ?t ?k ?body ?bc = dirty d"
    using rt.overlay_of_dump [OF f(2,3) assms(2)] by (simp add: body_overlay_def rl)
  have nc: "\<not> cut_short ?t ?body ?bc"
    by (simp add: cut_short_def f(5,7) div_mult_self3 not_less)
  have "\<not> exact_body ?t ?body ?bc" using assms(3) by (simp add: exact_body_def f(5,7))
  then have "unnamed_loss ?t ?k ?body ?bc" using nc by (simp add: unnamed_loss_def)
  moreover have "named_loss ?t ?k ?body ?bc = []" using nc by (simp add: named_loss_def tail_named_def)
  moreover have "int (length ?body) < 2 ^ 63"
    using assms(4) by (intro int_below_2p63) (simp add: record_blob_def)
  ultimately show ?thesis
    using f(1) by (simp add: record_blob_def Deserialize_record_tier Let_def ov report_def)
qed

end
