(* ===== verification/RSGeometry.thy ===== *)
theory RSGeometry
  imports RecordTiers
begin

text \<open>
  The geometry rules of src/blockdevice/rs.go: what validRSGeometry accepts, over the naturals;
  the default geometry; and the caps that SerializeRS enforces although its sum of two ints
  may wrap.
\<close>

lemmas rs_consts = rsMetaSize_def rsShardHdrSize_def rsDefaultData_def rsDefaultParity_def
  rsMaxTotalShards_def rsMinShardPayload_def rsMaxDecodeAlloc_def

definition max_data :: "nat \<Rightarrow> nat" where
  "max_data p = max 1 ((p + 127) div 128)"

lemma validRSGeometry_nat:
  assumes "p < 2 ^ 63" "0 \<le> dn" "dn < 2 ^ 63"
  shows "validRSGeometry dn dk (of_nat p) \<longleftrightarrow> nat dn \<le> max_data p \<and> dk \<le> max 2 dn"
proof -
  have "unat (of_nat p + 127 :: uint64) = p + 127"
  proof -
    have "(of_nat p + 127 :: uint64) = of_nat (p + 127)" by simp
    moreover have "unat (of_nat (p + 127) :: uint64) = p + 127"
      using assms(1) by (simp only: unat_of_nat take_bit_nat_eq_self_iff) simp
    ultimately show ?thesis by simp
  qed
  then have m: "unat ((of_nat p + rsMinShardPayload - 1) div rsMinShardPayload :: uint64) = (p + 127) div 128"
  proof -
    have "(of_nat p + rsMinShardPayload - 1 :: uint64) = of_nat p + 127" by (simp add: rsMinShardPayload_def)
    moreover have "unat rsMinShardPayload = 128" by (simp add: rsMinShardPayload_def)
    ultimately show ?thesis using \<open>unat (of_nat p + 127 :: uint64) = p + 127\<close> by (simp only: unat_div_distrib)
  qed
  have n: "unat (word_of_int dn :: uint64) = nat dn"
    using assms(2,3) unat_of_nat_small [of "nat dn"] by simp
  show ?thesis
    using n m by (auto simp: validRSGeometry_def Let_def rsDefaultParity_def max_data_def word_le_nat_alt
        word_less_nat_alt)
qed

text \<open>The geometry SerializeRS works with, and its three checks.\<close>

definition chosen_geometry :: "nat \<Rightarrow> int \<Rightarrow> int \<Rightarrow> int \<times> int" where
  "chosen_geometry p dn dk =
     (if dn \<le> 0 then fst (rsDefaultShards p) else dn, if dk \<le> 0 then snd (rsDefaultShards p) else dk)"

definition geometry_ok :: "nat \<Rightarrow> nat \<Rightarrow> nat \<Rightarrow> bool" where
  "geometry_ok N K p \<longleftrightarrow> 1 \<le> N \<and> 1 \<le> K \<and> N + K \<le> 64 \<and> N \<le> max_data p \<and> K \<le> max 2 N"

lemma rsDefaultShards_range:
  "1 \<le> fst (rsDefaultShards p)" "fst (rsDefaultShards p) \<le> 10" "snd (rsDefaultShards p) = 2"
  by (auto simp: rsDefaultShards_def rs_consts Let_def)

lemma max_data_bound: "p < 2 ^ 63 \<Longrightarrow> int (max_data p) < 2 ^ 57"
proof -
  assume "p < 2 ^ 63"
  then have "p + 127 < 128 * (2 ^ 56 + 1)" by simp
  then have "(p + 127) div 128 < 2 ^ 56 + 1" by (simp add: div_less_iff_less_mult mult.commute)
  then have "max_data p < 2 ^ 57" by (simp add: max_data_def)
  then have "int (max_data p) < int (2 ^ 57)" by (simp only: of_nat_less_iff)
  then show ?thesis by simp
qed

text \<open>
  The sum dataShards+parityShards may wrap for hostile arguments, but then the geometry rule
  refuses: what passes both checks satisfies the cap over the integers.
\<close>

lemma accepted_geometry:
  assumes "p < 2 ^ 63" "in_i64 dn" "in_i64 dk" "chosen_geometry p dn dk = (n, k)"
  shows "i64 (n + k) \<le> rsMaxTotalShards \<and> validRSGeometry n k (of_nat p)
    \<longleftrightarrow> geometry_ok (nat n) (nat k) p"
    and "1 \<le> n" "1 \<le> k"
proof -
  show n: "1 \<le> n" and k: "1 \<le> k"
    using assms(4) rsDefaultShards_range [of p] by (auto simp: chosen_geometry_def split: if_splits)
  have nb: "n < 2 ^ 63" "k < 2 ^ 63"
    using assms(2-4) rsDefaultShards_range [of p]
    by (auto simp: chosen_geometry_def in_i64_def split: if_splits)
  have v: "validRSGeometry n k (of_nat p) \<longleftrightarrow> nat n \<le> max_data p \<and> k \<le> max 2 n"
    using validRSGeometry_nat [OF assms(1)] n nb by simp
  have small: "i64 (n + k) = n + k" if "nat n \<le> max_data p" "k \<le> max 2 n"
    using that n k max_data_bound [OF assms(1)] by (intro i64_id; simp)
  show "i64 (n + k) \<le> rsMaxTotalShards \<and> validRSGeometry n k (of_nat p)
    \<longleftrightarrow> geometry_ok (nat n) (nat k) p"
    using v small n k by (auto simp: geometry_ok_def rsMaxTotalShards_def)
qed

lemma default_geometry_ok:
  assumes "p = m * l1RecordSize"
  shows "geometry_ok (nat (fst (rsDefaultShards p))) 2 p"
proof -
  have "p div 4096 \<le> max_data p" by (simp add: max_data_def)
  then show ?thesis
    by (auto simp: geometry_ok_def rsDefaultShards_def rs_consts Let_def max_data_def)
qed

end
