(* ===== verification/RSWrite.thy ===== *)
theory RSWrite
  imports RSGeometry
begin

text \<open>
  The write side of src/blockdevice/rs.go. Payload offset \<open>o\<close> lives at blob position
  \<open>payload_pos S o\<close>, inside the shard that covers it; writing a run of payload bytes through
  the shard slices is \<open>scatter\<close>. The sharded writers compute it for every schedule, so the data
  shards hold the flat L1 payload cut into pieces.
\<close>

section \<open>Payload offsets and blob positions\<close>

definition stride :: "nat \<Rightarrow> nat" where
  "stride S = rsShardHdrSize + S"

definition shard_pos :: "nat \<Rightarrow> nat \<Rightarrow> nat" where
  "shard_pos S i = shardSectionOff + i * stride S + rsShardHdrSize"

definition payload_pos :: "nat \<Rightarrow> nat \<Rightarrow> nat" where
  "payload_pos S off = shard_pos S (off div S) + off mod S"

definition shard_windows :: "nat \<Rightarrow> nat \<Rightarrow> (nat \<times> nat) list" where
  "shard_windows N S = map (\<lambda>i. (shard_pos S i, S)) [0..<N]"

primrec scatter :: "(nat \<Rightarrow> nat) \<Rightarrow> nat \<Rightarrow> 'a list \<Rightarrow> 'a list \<Rightarrow> 'a list" where
  "scatter f off [] m = m"
| "scatter f off (x # xs) m = scatter f (Suc off) xs (m[f off := x])"

lemma length_scatter [simp]: "length (scatter f off xs m) = length m"
  by (induction xs arbitrary: off m) simp_all

lemma scatter_append:
  "scatter f off (xs @ ys) m = scatter f (off + length xs) ys (scatter f off xs m)"
  by (induction xs arbitrary: off m) simp_all

lemma scatter_outside: "q \<notin> f ` {off..<off + length xs} \<Longrightarrow> scatter f off xs m ! q = m ! q"
proof (induction xs arbitrary: off m)
  case (Cons x xs)
  then have "q \<noteq> f off" "q \<notin> f ` {Suc off..<Suc off + length xs}" by (auto simp: image_iff)
  then show ?case using Cons.IH [of "Suc off" "m[f off := x]"] by (simp add: nth_list_update_neq)
qed simp

lemma scatter_inside:
  assumes "inj f" "k < length xs" "f (off + k) < length m"
  shows "scatter f off xs m ! f (off + k) = xs ! k"
  using assms(2,3)
proof (induction xs arbitrary: off k m)
  case (Cons x xs)
  show ?case
  proof (cases k)
    case 0
    have "f off \<notin> f ` {Suc off..<Suc off + length xs}"
      using inj_image_mem_iff [OF assms(1)] by simp
    then show ?thesis using 0 Cons.prems by (simp add: scatter_outside)
  next
    case (Suc j)
    then show ?thesis using Cons.IH [of j "Suc off" "m[f off := x]"] Cons.prems by simp
  qed
qed simp

lemma scatter_run:
  "(\<And>k. k < length xs \<Longrightarrow> f (off + k) = f off + k) \<Longrightarrow> f off + length xs \<le> length m \<Longrightarrow>
   scatter f off xs m = overwrite m (f off) xs"
proof (induction xs arbitrary: off m)
  case (Cons x xs)
  show ?case
  proof (cases xs)
    case Nil
    then show ?thesis using Cons.prems(2) by (simp add: overwrite_def upd_conv_take_nth_drop)
  next
    case c: (Cons y ys)
    have 1: "f (Suc off) = Suc (f off)" using Cons.prems(1) [of 1] c by simp
    have 2: "f (Suc off + k) = f (Suc off) + k" if "k < length xs" for k
      using Cons.prems(1) [of "Suc k"] that 1 by simp
    have "scatter f off (x # xs) m = overwrite (m[f off := x]) (Suc (f off)) xs"
      using Cons.IH [of "Suc off" "m[f off := x]"] 1 2 Cons.prems(2) by simp
    also have "\<dots> = overwrite m (f off) (x # xs)"
      using Cons.prems(2) by (simp add: overwrite_def upd_conv_take_nth_drop add.commute)
    finally show ?thesis .
  qed
qed simp

lemma stride_pos [simp]: "0 < stride S" "S < stride S"
  by (simp_all add: stride_def rsShardHdrSize_def)

lemma payload_pos_inj: "0 < S \<Longrightarrow> inj (payload_pos S)"
proof (rule injI)
  fix x y assume S: "0 < S" and eq: "payload_pos S x = payload_pos S y"
  have lt: "x mod S < stride S" "y mod S < stride S"
    using mod_less_divisor [OF S] stride_pos(2) less_trans by blast+
  from eq have e: "x div S * stride S + x mod S = y div S * stride S + y mod S"
    by (simp add: payload_pos_def shard_pos_def)
  have "x div S = (x div S * stride S + x mod S) div stride S"
    using lt(1) by (simp add: div_mult_self3)
  also have "\<dots> = y div S" unfolding e using lt(2) by (simp add: div_mult_self3)
  finally have d: "x div S = y div S" .
  with e have "x mod S = y mod S" by simp
  with d show "x = y" by (metis div_mult_mod_eq)
qed

lemma payload_pos_run: "k + off mod S < S \<Longrightarrow> payload_pos S (off + k) = payload_pos S off + k"
proof -
  assume k: "k + off mod S < S"
  define a b where "a = off div S" and "b = off mod S"
  have "off = a * S + b" by (simp add: a_def b_def)
  moreover have "(a * S + (b + k)) div S = a" "(a * S + (b + k)) mod S = b + k"
    using k by (simp_all add: b_def add.commute div_mult_self3)
  ultimately have "(off + k) div S = off div S" "(off + k) mod S = off mod S + k"
    by (simp_all add: a_def b_def add.assoc)
  then show ?thesis by (simp add: payload_pos_def)
qed

section \<open>The spans of one write\<close>

definition shard_end :: "nat \<Rightarrow> nat \<Rightarrow> nat" where
  "shard_end N S = shardSectionOff + N * stride S"

text \<open>The operations \<open>ops\<close> store the payload bytes \<open>src\<close> from offset \<open>off\<close> and touch nothing else.\<close>

definition writes :: "nat \<Rightarrow> nat \<Rightarrow> mem_op list \<Rightarrow> nat \<Rightarrow> bytes \<Rightarrow> bool" where
  "writes N S ops off src \<longleftrightarrow>
     (\<forall>m. shard_end N S \<le> length m \<longrightarrow>
        for_list exec_op ops m = Some (scatter (payload_pos S) off src m))
     \<and> (\<forall>a\<in>set ops. footprint a \<subseteq> payload_pos S ` {off..<off + length src})"

lemma writes_Nil [simp]: "writes N S [] off []"
  by (simp add: writes_def)

lemma writes_append:
  assumes "writes N S ops1 off xs" "writes N S ops2 (off + length xs) ys"
  shows "writes N S (ops1 @ ops2) off (xs @ ys)"
  unfolding writes_def
proof (intro conjI allI impI ballI)
  show "for_list exec_op (ops1 @ ops2) m = Some (scatter (payload_pos S) off (xs @ ys) m)"
    if "shard_end N S \<le> length m" for m
    using assms that by (simp add: writes_def for_list_append scatter_append)
  show "footprint a \<subseteq> payload_pos S ` {off..<off + length (xs @ ys)}" if "a \<in> set (ops1 @ ops2)" for a
  proof -
    have "payload_pos S ` {off..<off + length xs} \<subseteq> payload_pos S ` {off..<off + length (xs @ ys)}"
      "payload_pos S ` {off + length xs..<off + length xs + length ys} \<subseteq> payload_pos S ` {off..<off + length (xs @ ys)}"
      by (intro image_mono; simp)+
    then show ?thesis using assms that unfolding writes_def by (auto 4 3)
  qed
qed

lemma payload_pos_bound:
  assumes "0 < S" "off < N * S"
  shows "payload_pos S off < shard_end N S"
proof -
  have "off div S < N" using assms by (simp add: less_mult_imp_div_less)
  then have "Suc (off div S) * stride S \<le> N * stride S" by (intro mult_le_mono1) simp
  moreover have "off mod S < S" using assms(1) by simp
  ultimately show ?thesis by (simp add: payload_pos_def shard_pos_def shard_end_def stride_def)
qed

lemma writes_single:
  assumes "0 < S" "n + off mod S \<le> S" "n = length (take (S - off mod S) src)" "off div S < N"
  shows "writes N S [CopyOp (payload_pos S off) (shard_pos S (off div S) + S) src] off (take n src)"
proof -
  have r: "off mod S < S" using assms(1) by simp
  have run: "payload_pos S (off + k) = payload_pos S off + k" if "k < n" for k
    using that assms(2) by (intro payload_pos_run) simp
  have n: "n = min (S - off mod S) (length src)" using assms(3) by simp
  have p: "payload_pos S off = shard_pos S (off div S) + off mod S" by (simp add: payload_pos_def)
  have d: "shard_pos S (off div S) + S - payload_pos S off = S - off mod S" by (simp add: p)
  have ln: "length (take n src) = n" using n by simp
  have "Suc (off div S) * stride S \<le> N * stride S" using assms(4) by (intro mult_le_mono1) simp
  then have e: "shard_pos S (off div S) + S \<le> shard_end N S"
    by (simp add: shard_pos_def shard_end_def stride_def)
  have img: "{payload_pos S off..<payload_pos S off + n} \<subseteq> payload_pos S ` {off..<off + n}"
  proof
    fix q assume "q \<in> {payload_pos S off..<payload_pos S off + n}"
    then obtain k where "q = payload_pos S off + k" "k < n"
      by (metis atLeastLessThan_iff le_Suc_ex nat_add_left_cancel_less)
    then show "q \<in> payload_pos S ` {off..<off + n}" using run [of k] by (intro image_eqI [of _ _ "off + k"]) simp_all
  qed
  show ?thesis
    unfolding writes_def
  proof (intro conjI allI impI ballI)
    fix m :: bytes assume m: "shard_end N S \<le> length m"
    have "scatter (payload_pos S) off (take n src) m = overwrite m (payload_pos S off) (take n src)"
      using run e m r p n by (intro scatter_run) (simp_all add: ln)
    moreover have "take (S - off mod S) src = take n src" using n by (simp add: min_def)
    ultimately show "for_list exec_op [CopyOp (payload_pos S off) (shard_pos S (off div S) + S) src] m
        = Some (scatter (payload_pos S) off (take n src) m)"
      using e m r p by (simp add: exec_op_eq del: exec_op.simps)
  next
    fix a assume "a \<in> set [CopyOp (payload_pos S off) (shard_pos S (off div S) + S) src]"
    then show "footprint a \<subseteq> payload_pos S ` {off..<off + length (take n src)}"
      using img n by (simp add: d ln)
  qed
qed

lemma writeShardSpans_eq:
  assumes "0 < S"
  shows "off + length src \<le> N * S \<Longrightarrow>
    \<exists>ops. writeShardSpans (shard_windows N S) S off src = Some (ops, off + length src) \<and> writes N S ops off src"
proof (induction "length src" arbitrary: off src rule: less_induct)
  case less
  show ?case
  proof (cases "src = []")
    case True
    then show ?thesis by (simp add: writeShardSpans.simps)
  next
    case False
    define n where "n = min (S - off mod S) (length src)"
    have r: "off mod S < S" using assms by simp
    have n: "0 < n" "n \<le> length src" "n + off mod S \<le> S"
      using False r by (simp_all add: n_def)
    have "off < N * S" using less.prems False by (cases src) simp_all
    then have i: "off div S < N" by (simp add: less_mult_imp_div_less)
    have w: "shard_windows N S ! (off div S) = (shard_pos S (off div S), S)" "length (shard_windows N S) = N"
      using i by (simp_all add: shard_windows_def)
    obtain ops where ops: "writeShardSpans (shard_windows N S) S (off + n) (drop n src) = Some (ops, off + length src)"
        "writes N S ops (off + n) (drop n src)"
    proof -
      have "length src - n < length src" using n(1,2) by linarith
      then show ?thesis using that less.hyps [of "drop n src" "off + n"] less.prems n by auto
    qed
    let ?op = "CopyOp (payload_pos S off) (shard_pos S (off div S) + S) src"
    have "writes N S [?op] off (take n src)"
      using assms n i by (intro writes_single) (simp_all add: n_def)
    from writes_append [OF this, of ops "drop n src"] ops(2) n(2)
    have "writes N S (?op # ops) off src" by simp
    moreover have "writeShardSpans (shard_windows N S) S off src = Some (?op # ops, off + length src)"
      using False assms w i n r ops(1)
      by (subst writeShardSpans.simps) (simp add: Let_def payload_pos_def flip: n_def)
    ultimately show ?thesis by blast
  qed
qed

section \<open>Records and ranges of records\<close>

lemma writeRecordSharded_eq:
  assumes "0 < S" "off + l1RecordSize \<le> N * S"
    and "Mapping.lookup (dirty d) idx = Some b" "length b = BlockSize"
  shows "\<exists>ops. writeRecordSharded d idx (shard_windows N S) S off = Some (ops, off + l1RecordSize)
    \<and> writes N S ops off (enc_record True idx b)"
proof -
  let ?h = "le_put 8 (word_of_int idx :: uint64)"
  let ?c = "le_put 4 (ChecksumIEEE (?h @ b))"
  have sz: "l1RecordSize = 8 + BlockSize + 4" by (simp add: l1RecordSize_def)
  obtain ops1 where 1: "writeShardSpans (shard_windows N S) S off ?h = Some (ops1, off + 8)"
      "writes N S ops1 off ?h"
    using writeShardSpans_eq [OF assms(1), of off ?h N] assms(2) sz by auto
  obtain ops2 where 2: "writeShardSpans (shard_windows N S) S (off + 8) b = Some (ops2, off + 8 + BlockSize)"
      "writes N S ops2 (off + 8) b"
    using writeShardSpans_eq [OF assms(1), of "off + 8" b N] assms(2,4) sz by auto
  obtain ops3 where 3: "writeShardSpans (shard_windows N S) S (off + 8 + BlockSize) ?c
        = Some (ops3, off + 8 + BlockSize + 4)"
      "writes N S ops3 (off + 8 + BlockSize) ?c"
    using writeShardSpans_eq [OF assms(1), of "off + 8 + BlockSize" ?c N] assms(2) sz by auto
  have "writes N S (ops2 @ ops3) (off + 8) (b @ ?c)"
    using 2(2) 3(2) assms(4) by (intro writes_append) simp_all
  then have "writes N S (ops1 @ ops2 @ ops3) off (?h @ b @ ?c)"
    using writes_append [OF 1(2), of "ops2 @ ops3" "b @ ?c"] by simp
  moreover have "enc_record True idx b = ?h @ b @ ?c" by (simp add: enc_record_def Let_def)
  moreover have "writeRecordSharded d idx (shard_windows N S) S off = Some (ops1 @ ops2 @ ops3, off + l1RecordSize)"
    using 1(1) 2(1) 3(1) assms(3)
    by (simp add: writeRecordSharded_def Let_def lookup_default_def ChecksumIEEE_append sz add.assoc)
  ultimately show ?thesis by auto
qed

lemma enc_size_True: "enc_size True = l1RecordSize"
  by (simp add: enc_size_def)

lemma writeRecordRangeSharded_eq:
  assumes "0 < S" "block_keys d ks" "off + length ks * l1RecordSize \<le> N * S"
  shows "\<exists>ops. writeRecordRangeSharded d ks (shard_windows N S) S off = Some ops
    \<and> writes N S ops off (records_bytes True d ks)"
  using assms(2,3)
proof (induction ks arbitrary: off)
  case (Cons i ks)
  obtain b where b: "Mapping.lookup (dirty d) i = Some b" "length b = BlockSize"
    using Cons.prems(1) by (auto simp: block_keys_def)
  have len: "off + l1RecordSize + length ks * l1RecordSize \<le> N * S" using Cons.prems(2) by simp
  have "off + l1RecordSize \<le> N * S" using len by linarith
  from writeRecordSharded_eq [OF assms(1) this b] obtain ops where
    1: "writeRecordSharded d i (shard_windows N S) S off = Some (ops, off + l1RecordSize)"
       "writes N S ops off (enc_record True i b)"
    by blast
  have "block_keys d ks" using Cons.prems(1) by (simp add: block_keys_def)
  from Cons.IH [OF this len] obtain ops' where
    2: "writeRecordRangeSharded d ks (shard_windows N S) S (off + l1RecordSize) = Some ops'"
       "writes N S ops' (off + l1RecordSize) (records_bytes True d ks)"
    by blast
  have "writes N S (ops @ ops') off (enc_record True i b @ records_bytes True d ks)"
    using 1(2) 2(2) length_enc_record [OF b(2), of True i] by (intro writes_append) (simp_all add: enc_size_True)
  then show ?case using 1(1) 2(1) b(1) by (simp add: lookup_default_def)
qed simp

text \<open>The parts of a payload the workers write, in order, are the whole payload.\<close>

lemma records_bytes_append: "records_bytes c d (xs @ ys) = records_bytes c d xs @ records_bytes c d ys"
  by (simp add: records_bytes_def dump_def)

lemma writes_ranges:
  assumes "0 < chunk" "block_keys d ks"
    and g: "\<And>r. r \<in> set (ranges_from lo (length ks) chunk) \<Longrightarrow>
      writes N S (g r) (fst r * l1RecordSize) (records_bytes True d (owned ks r))"
  shows "writes N S (concat (map g (ranges_from lo (length ks) chunk))) (lo * l1RecordSize)
    (records_bytes True d (drop lo ks))"
  using assms(1) g
proof (induction lo "length ks" chunk rule: range_lt.induct)
  case (1 lo chunk)
  show ?case
  proof (cases "lo < length ks")
    case True
    let ?hi = "if lo + chunk > length ks then length ks else lo + chunk"
    have r: "ranges_from lo (length ks) chunk = (lo, ?hi) # ranges_from (lo + chunk) (length ks) chunk"
      using True 1(2) by (simp add: ranges_from_def range_lt.simps [of lo])
    have split: "drop lo ks = owned ks (lo, ?hi) @ drop (lo + chunk) ks"
      by (simp add: owned_def add.commute flip: drop_drop)
    have bk: "block_keys d (owned ks (lo, ?hi))"
      using assms(2) by (auto simp: block_keys_def owned_def dest!: in_set_takeD in_set_dropD)
    have len: "length (records_bytes True d (owned ks (lo, ?hi))) = length (owned ks (lo, ?hi)) * l1RecordSize"
      using length_records_bytes [OF bk, of True] by (simp add: enc_size_True)
    have first: "writes N S (g (lo, ?hi)) (lo * l1RecordSize) (records_bytes True d (owned ks (lo, ?hi)))"
      using 1(3) [of "(lo, ?hi)"] by (simp add: r)
    have rest: "writes N S (concat (map g (ranges_from (lo + chunk) (length ks) chunk)))
        ((lo + chunk) * l1RecordSize) (records_bytes True d (drop (lo + chunk) ks))"
      using 1 True by (intro 1(1)) (simp_all add: r)
    show ?thesis
    proof (cases "lo + chunk \<le> length ks")
      case True
      then have "(lo + chunk) * l1RecordSize = lo * l1RecordSize + length (records_bytes True d (owned ks (lo, ?hi)))"
        unfolding len by (simp add: owned_def add_mult_distrib)
      with rest have "writes N S (concat (map g (ranges_from (lo + chunk) (length ks) chunk)))
          (lo * l1RecordSize + length (records_bytes True d (owned ks (lo, ?hi))))
          (records_bytes True d (drop (lo + chunk) ks))"
        by (simp only:)
      from writes_append [OF first this] show ?thesis
        unfolding r split records_bytes_append by simp
    next
      case False
      then have "ranges_from (lo + chunk) (length ks) chunk = []" "drop (lo + chunk) ks = []"
        by (simp_all add: ranges_from_def range_lt.simps [of "lo + chunk"])
      then show ?thesis using first unfolding r split records_bytes_append by simp
    qed
  next
    case False
    then show ?thesis by (simp add: ranges_from_def range_lt.simps [of lo])
  qed
qed

section \<open>The fan-out over the shards\<close>

lemma block_keys_owned: "block_keys d ks \<Longrightarrow> block_keys d (owned ks r)"
  by (auto simp: block_keys_def owned_def dest!: in_set_takeD in_set_dropD)

text \<open>What one worker does, and that two workers own disjoint parts of the blob.\<close>

lemma worker_writes:
  assumes "0 < S" "block_keys d ks" "length ks * l1RecordSize \<le> N * S"
    and "fst r \<le> snd r" "snd r \<le> length ks"
  shows "\<exists>ops. writeRecordRangeSharded d (owned ks r) (shard_windows N S) S (fst r * l1RecordSize) = Some ops
    \<and> writes N S ops (fst r * l1RecordSize) (records_bytes True d (owned ks r))
    \<and> (\<forall>a\<in>set ops. footprint a \<subseteq> payload_pos S ` {fst r * l1RecordSize..<snd r * l1RecordSize})"
proof -
  note bk = block_keys_owned [OF assms(2), of r]
  have "snd r * l1RecordSize \<le> length ks * l1RecordSize" using assms(5) by (rule mult_le_mono1)
  moreover have "fst r + length (owned ks r) = snd r" using assms(4,5) by (simp add: owned_def)
  then have e: "fst r * l1RecordSize + length (owned ks r) * l1RecordSize = snd r * l1RecordSize"
    by (simp flip: add_mult_distrib)
  ultimately have "fst r * l1RecordSize + length (owned ks r) * l1RecordSize \<le> N * S"
    using assms(3) by linarith
  from writeRecordRangeSharded_eq [OF assms(1) bk this] obtain ops where
    ops: "writeRecordRangeSharded d (owned ks r) (shard_windows N S) S (fst r * l1RecordSize) = Some ops"
      "writes N S ops (fst r * l1RecordSize) (records_bytes True d (owned ks r))"
    by blast
  moreover have "fst r * l1RecordSize + length (records_bytes True d (owned ks r)) = snd r * l1RecordSize"
    using length_records_bytes [OF bk, of True] e by (simp add: enc_size_True)
  ultimately show ?thesis by (auto simp: writes_def)
qed

lemma payload_spans_disjoint:
  assumes "0 < S" "A \<subseteq> payload_pos S ` {a..<b}" "B \<subseteq> payload_pos S ` {c..<e}" "b \<le> c"
  shows "A \<inter> B = {}"
proof -
  have "payload_pos S ` {a..<b} \<inter> payload_pos S ` {c..<e} = payload_pos S ` ({a..<b} \<inter> {c..<e})"
    by (rule image_Int [OF payload_pos_inj [OF assms(1)], symmetric])
  also have "{a..<b} \<inter> {c..<e} = {}" using assms(4) by auto
  finally show ?thesis using assms(2,3) by auto
qed

lemma ranges_from_inside: "r \<in> set (ranges_from 0 n chunk) \<Longrightarrow> fst r \<le> snd r \<and> snd r \<le> n"
proof -
  assume "r \<in> set (ranges_from 0 n chunk)"
  then obtain i where "i < length (ranges_from 0 n chunk)" "r = ranges_from 0 n chunk ! i"
    by (auto simp: in_set_conv_nth)
  then show ?thesis using range_lt_nth [of i 0 n chunk] by (simp add: ranges_from_def)
qed

text \<open>Every schedule of writeRecordsSharded stores the flat L1 payload, cut at the shard ends.\<close>

lemma writeRecordsSharded_eq:
  assumes S: "0 < S" and bk: "block_keys d ks" and len: "length ks * l1RecordSize \<le> N * S"
    and m: "shard_end N S \<le> length m"
  shows "writeRecordsSharded procs sched d m ks (shard_windows N S) S
    = Some (scatter (payload_pos S) 0 (records_bytes True d ks) m)"
proof (cases "workers_for procs (length ks) \<le> 1")
  case True
  obtain ops where "writeRecordRangeSharded d ks (shard_windows N S) S 0 = Some ops"
      "writes N S ops 0 (records_bytes True d ks)"
    using writeRecordRangeSharded_eq [OF S bk, of 0 N] len by auto
  then show ?thesis using True m by (simp add: writeRecordsSharded_def writes_def)
next
  case False
  let ?w = "workers_for procs (length ks)"
  let ?chunk = "(length ks + ?w - 1) div ?w"
  let ?R = "ranges_from 0 (length ks) ?chunk"
  let ?wr = "\<lambda>r. writeRecordRangeSharded d (owned ks r) (shard_windows N S) S (fst r * l1RecordSize)"
  let ?g = "\<lambda>r. the (?wr r)"
  have "1 < ?w" "?w \<le> length ks"
    using False by (auto simp: workers_for_def serialMinPerWorker_def Let_def split: if_splits)
  then have chunk: "0 < ?chunk" by (simp add: div_greater_zero_iff)
  have ok: "?wr r = Some (?g r)" "writes N S (?g r) (fst r * l1RecordSize) (records_bytes True d (owned ks r))"
    "\<forall>a\<in>set (?g r). footprint a \<subseteq> payload_pos S ` {fst r * l1RecordSize..<snd r * l1RecordSize}"
    if "r \<in> set ?R" for r
    using worker_writes [OF S bk len] ranges_from_inside [OF that] by fastforce+
  have ord: "apart footprint (?g (?R ! i)) (?g (?R ! j))" if ij: "i < length ?R" "j < length ?R" "i < j" for i j
    unfolding apart_def
    using ok(3) [OF nth_mem [OF ij(1)]] ok(3) [OF nth_mem [OF ij(2)]]
      mult_le_mono1 [OF ranges_from_apart(1) [OF ij], of l1RecordSize] payload_spans_disjoint [OF S]
    by meson
  have "run_sched exec_op sched (map ?g ?R) m = for_list exec_op (concat (map ?g ?R)) m"
  proof (rule buf.schedule_independent)
    fix i j assume "i < length (map ?g ?R)" "j < length (map ?g ?R)" "i \<noteq> j"
    then show "apart footprint (map ?g ?R ! i) (map ?g ?R ! j)"
      using ord [of i j] ord [of j i] by (cases "i < j") (auto simp: apart_def Int_commute)
  qed
  also have "\<dots> = Some (scatter (payload_pos S) 0 (records_bytes True d ks) m)"
    using writes_ranges [OF chunk bk, of 0 N S ?g] ok(2) m by (simp add: writes_def)
  finally show ?thesis
    using False those_map_Some [of ?R ?wr ?g, OF ok(1)]
    by (simp add: writeRecordsSharded_def Let_def worker_ranges_eq owned_def case_prod_unfold)
qed

end
