(* ===== verification/RSBlob.thy ===== *)
theory RSBlob
  imports RSWrite
begin

text \<open>
  The bytes SerializeRS writes: the outer header, the rsMeta section and one frame per shard.
  The stages of the code (stores of the headers, sharded writer, Encode through the shard
  slices, the goroutines of the shard headers) are followed on the fields of the blob.
\<close>

section \<open>The blob as header, metadata and frames\<close>

definition padded :: "nat \<Rightarrow> nat \<Rightarrow> bytes \<Rightarrow> bytes" where
  "padded N S p = p @ replicate (N * S - length p) 0"

definition data_shards :: "nat \<Rightarrow> nat \<Rightarrow> bytes \<Rightarrow> bytes list" where
  "data_shards N S p = pieces S N (padded N S p)"

definition rs_meta :: "nat \<Rightarrow> nat \<Rightarrow> nat \<Rightarrow> nat \<Rightarrow> bytes" where
  "rs_meta N K S P =
     (let m = le_put 2 (of_nat N :: uint16) @ le_put 2 (of_nat K :: uint16)
            @ le_put 4 (of_nat S :: uint32) @ le_put 8 (of_nat P :: uint64)
      in m @ le_put 4 (ChecksumIEEE m))"

definition frame_hdr :: "nat \<Rightarrow> bytes \<Rightarrow> bytes" where
  "frame_hdr i s = le_put 2 (of_nat i :: uint16) @ le_put 4 (ChecksumIEEE s)"

definition frames :: "bytes list \<Rightarrow> bytes list" where
  "frames ss = map (\<lambda>i. frame_hdr i (ss ! i) @ ss ! i) [0..<length ss]"

definition rs_blob :: "nat \<Rightarrow> nat \<Rightarrow> nat \<Rightarrow> nat \<Rightarrow> nat \<Rightarrow> bytes list \<Rightarrow> bytes" where
  "rs_blob n N K S P ss = header TierL2 n @ rs_meta N K S P @ concat (frames ss)"

lemma length_rs_meta [simp]: "length (rs_meta N K S P) = rsMetaSize"
  by (simp add: rs_meta_def Let_def rsMetaSize_def)

lemma length_frame_hdr [simp]: "length (frame_hdr i s) = rsShardHdrSize"
  by (simp add: frame_hdr_def rsShardHdrSize_def)

lemma putRSMeta_eq:
  assumes "length pre = headerSize" "length z = rsMetaSize"
  shows "putRSMeta (pre @ z @ rest) N K S P = Some (pre @ rs_meta N K S P @ rest)"
proof -
  have l: "length z = 20" "rsMetaSize = 20" "headerSize + 20 \<le> length (pre @ z @ rest)"
    using assms by (simp_all add: rsMetaSize_def)
  have c: "copy_into (pre @ z @ rest) headerSize (headerSize + 20) (rs_meta N K S P)
      = Some (pre @ rs_meta N K S P @ rest)"
    using assms by (subst copy_into_exact) (simp_all add: rsMetaSize_def)
  show ?thesis
    using l c assms(1)
    by (simp add: putRSMeta_def subslice_Some put_into_exact rs_meta_def Let_def)
qed

section \<open>Fields\<close>

definition fld :: "bytes \<Rightarrow> nat \<Rightarrow> nat \<Rightarrow> bytes" where
  "fld b off n = take n (drop off b)"

lemma window_fld: "window b (off, n) = fld b off n"
  by (simp add: window_def fld_def)

lemma length_fld: "off + n \<le> length b \<Longrightarrow> length (fld b off n) = n"
  by (simp add: fld_def)

lemma fld_nth: "off + n \<le> length b \<Longrightarrow> j < n \<Longrightarrow> fld b off n ! j = b ! (off + j)"
  by (simp add: fld_def)

lemma fld_overwrite_same: "off + n \<le> length b \<Longrightarrow> length p = n \<Longrightarrow> fld (overwrite b off p) off n = p"
  using overwrite_same [of off p b] by (simp add: fld_def)

lemma fld_overwrite_other:
  assumes "off + length p \<le> length b" "o' + n \<le> length b" "o' + n \<le> off \<or> off + length p \<le> o'"
  shows "fld (overwrite b off p) o' n = fld b o' n"
  using assms by (intro nth_equalityI) (auto simp: length_fld fld_nth overwrite_nth)

definition hdr_pos :: "nat \<Rightarrow> nat \<Rightarrow> nat" where
  "hdr_pos S i = shardSectionOff + i * stride S"

lemma frame_bounds:
  assumes "i < t"
  shows "hdr_pos S i + stride S \<le> shard_end t S" "shard_pos S i = hdr_pos S i + rsShardHdrSize"
    "shard_pos S i + S = hdr_pos S i + stride S" "shardSectionOff \<le> hdr_pos S i"
    "i < j \<Longrightarrow> hdr_pos S i + stride S \<le> hdr_pos S j"
proof -
  have "Suc i * stride S \<le> t * stride S" using assms by (intro mult_le_mono1) simp
  then show "hdr_pos S i + stride S \<le> shard_end t S" by (simp add: hdr_pos_def shard_end_def)
  show "shard_pos S i = hdr_pos S i + rsShardHdrSize" "shard_pos S i + S = hdr_pos S i + stride S"
    "shardSectionOff \<le> hdr_pos S i"
    by (simp_all add: shard_pos_def hdr_pos_def stride_def)
  show "hdr_pos S i + stride S \<le> hdr_pos S j" if "i < j"
  proof -
    have "Suc i * stride S \<le> j * stride S" using that by (intro mult_le_mono1) simp
    then show ?thesis by (simp add: hdr_pos_def)
  qed
qed

text \<open>Two blobs with equal fields are equal; the frames of a blob.\<close>

lemma blob_fields:
  assumes "length b = shard_end t S"
  shows "b = fld b 0 shardSectionOff
    @ concat (map (\<lambda>i. fld b (hdr_pos S i) rsShardHdrSize @ fld b (shard_pos S i) S) [0..<t])"
proof -
  let ?s = "drop shardSectionOff b"
  have "t * stride S \<le> length ?s" using assms by (simp add: shard_end_def)
  then have "concat (pieces (stride S) t ?s) = take (t * stride S) ?s" by (rule concat_pieces)
  also have "\<dots> = ?s" using assms by (simp add: shard_end_def)
  finally have "?s = concat (pieces (stride S) t ?s)" ..
  also have "pieces (stride S) t ?s
      = map (\<lambda>i. fld b (hdr_pos S i) rsShardHdrSize @ fld b (shard_pos S i) S) [0..<t]"
    unfolding pieces_def
  proof (rule map_cong [OF refl])
    fix i
    show "take (stride S) (drop (i * stride S) ?s) = fld b (hdr_pos S i) rsShardHdrSize @ fld b (shard_pos S i) S"
      by (simp add: fld_def hdr_pos_def shard_pos_def stride_def take_add add.commute add.left_commute)
  qed
  finally show ?thesis by (metis append_take_drop_id drop0 fld_def)
qed

section \<open>The stages of SerializeRS\<close>

text \<open>The data shards after the sharded writer.\<close>

lemma payload_pos_shard: "j < S \<Longrightarrow> payload_pos S (i * S + j) = shard_pos S i + j"
  by (simp add: payload_pos_def div_mult_self3)

lemma scatter_window_nth:
  assumes "0 < S" "j < S" "shard_pos S i + S \<le> length m"
  shows "scatter (payload_pos S) 0 p m ! (shard_pos S i + j)
    = (if i * S + j < length p then p ! (i * S + j) else m ! (shard_pos S i + j))"
proof (cases "i * S + j < length p")
  case True
  then show ?thesis
    using scatter_inside [OF payload_pos_inj [OF assms(1)] True, of 0 m] assms
    by (simp add: payload_pos_shard)
next
  case False
  have "payload_pos S (i * S + j) \<notin> payload_pos S ` {0..<0 + length p}"
    using False by (subst inj_image_mem_iff [OF payload_pos_inj [OF assms(1)]]) simp
  then show ?thesis using False assms(2) by (simp add: scatter_outside payload_pos_shard)
qed

lemma padded_nth: "length p \<le> N * S \<Longrightarrow> q < N * S \<Longrightarrow> padded N S p ! q = (if q < length p then p ! q else 0)"
  by (simp add: padded_def nth_append)

lemma length_padded: "length p \<le> N * S \<Longrightarrow> length (padded N S p) = N * S"
  by (simp add: padded_def)

lemma data_shard_nth:
  assumes "length p \<le> N * S" "i < N"
  shows "length (data_shards N S p ! i) = S"
    "j < S \<Longrightarrow> data_shards N S p ! i ! j = (if i * S + j < length p then p ! (i * S + j) else 0)"
proof -
  have "Suc i * S \<le> N * S" using assms(2) by (intro mult_le_mono1) simp
  then have le: "i * S + S \<le> N * S" by simp
  then show "length (data_shards N S p ! i) = S"
    using assms by (simp add: data_shards_def pieces_def length_padded)
  show "data_shards N S p ! i ! j = (if i * S + j < length p then p ! (i * S + j) else 0)" if "j < S"
    using that le assms by (simp add: data_shards_def pieces_def length_padded padded_nth)
qed

lemma scatter_windows:
  assumes "0 < S" "length m = shard_end t S" "length p \<le> N * S" "N \<le> t"
    and zero: "\<And>q. shardSectionOff \<le> q \<Longrightarrow> q < length m \<Longrightarrow> m ! q = 0"
  shows "map (window (scatter (payload_pos S) 0 p m)) (shard_windows t S)
    = data_shards N S p @ replicate (t - N) (replicate S 0)"
proof (rule nth_equalityI)
  show "length (map (window (scatter (payload_pos S) 0 p m)) (shard_windows t S))
      = length (data_shards N S p @ replicate (t - N) (replicate S 0))"
    using assms(4) by (simp add: shard_windows_def data_shards_def)
next
  fix i assume "i < length (map (window (scatter (payload_pos S) 0 p m)) (shard_windows t S))"
  then have i: "i < t" by (simp add: shard_windows_def)
  note fb = frame_bounds [OF i, of S]
  let ?w = "fld (scatter (payload_pos S) 0 p m) (shard_pos S i) S"
  have le: "shard_pos S i + S \<le> length m" using fb(1,3) assms(2) by simp
  have w: "?w ! j = (if i * S + j < length p then p ! (i * S + j) else 0)" if "j < S" for j
    using scatter_window_nth [OF assms(1) that le, of p] zero [of "shard_pos S i + j"] that le fb(2,4)
    by (simp add: fld_nth)
  have "?w = (data_shards N S p @ replicate (t - N) (replicate S 0)) ! i"
  proof (rule nth_equalityI)
    show "length ?w = length ((data_shards N S p @ replicate (t - N) (replicate S 0)) ! i)"
      using le i data_shard_nth(1) [OF assms(3), of i]
      by (auto simp: length_fld nth_append data_shards_def)
  next
    fix j assume "j < length ?w"
    then have j: "j < S" using le by (simp add: length_fld)
    have "\<not> i < N \<Longrightarrow> \<not> i * S + j < length p"
      using assms(3) mult_le_mono1 [of N i S] by linarith
    then show "?w ! j = (data_shards N S p @ replicate (t - N) (replicate S 0)) ! i ! j"
      using w [OF j] j i data_shard_nth(2) [OF assms(3) _ j, of i]
      by (auto simp: nth_append data_shards_def)
  qed
  then show "map (window (scatter (payload_pos S) 0 p m)) (shard_windows t S) ! i
      = (data_shards N S p @ replicate (t - N) (replicate S 0)) ! i"
    using i by (simp add: shard_windows_def window_fld)
qed

lemma scatter_prefix:
  assumes "shardSectionOff \<le> length m"
  shows "fld (scatter (payload_pos S) 0 p m) 0 shardSectionOff = fld m 0 shardSectionOff"
proof (rule nth_equalityI)
  fix q assume "q < length (fld (scatter (payload_pos S) 0 p m) 0 shardSectionOff)"
  then have q: "q < shardSectionOff" using assms by (simp add: length_fld)
  have "q \<notin> payload_pos S ` {0..<0 + length p}"
    using q by (auto simp: payload_pos_def shard_pos_def)
  then show "fld (scatter (payload_pos S) 0 p m) 0 shardSectionOff ! q = fld m 0 shardSectionOff ! q"
    using q assms by (simp add: fld_nth scatter_outside)
qed (use assms in \<open>simp add: length_fld\<close>)

lemma shard_windows_ok:
  assumes "length b = shard_end t S"
  shows "those (map (shardWindow b S) [0..<t]) = Some (shard_windows t S)"
  unfolding shard_windows_def
proof (rule those_map_Some)
  fix i assume "i \<in> set [0..<t]"
  then have "i < t" by simp
  from frame_bounds [OF this, of S] assms show "shardWindow b S i = Some (shard_pos S i, S)"
    by (simp add: shardWindow_def shard_pos_def hdr_pos_def stride_def)
qed

lemma take_shard_windows: "N \<le> t \<Longrightarrow> take N (shard_windows t S) = shard_windows N S"
  by (simp add: shard_windows_def take_map take_upt)

text \<open>Encode's stores through the shard slices.\<close>

lemma storeWindows_eq:
  assumes "length b = shard_end t S" "length enc = t" "\<And>x. x \<in> set enc \<Longrightarrow> length x = S"
  shows "\<exists>b'. storeWindows b (shard_windows t S) enc = Some b' \<and> length b' = shard_end t S
    \<and> fld b' 0 shardSectionOff = fld b 0 shardSectionOff
    \<and> (\<forall>i<t. fld b' (shard_pos S i) S = enc ! i)"
proof -
  have z: "zip (shard_windows t S) enc = map (\<lambda>i. ((shard_pos S i, S), enc ! i)) [0..<t]"
    using assms(2) by (intro nth_equalityI) (simp_all add: shard_windows_def)
  define body where "body = (\<lambda>i b. copy_into b (shard_pos S i) (shard_pos S i + S) (enc ! i))"
  have st: "storeWindows b (shard_windows t S) enc = for_list body [0..<t] b"
    unfolding storeWindows_def z for_list_map by (simp add: body_def)
  have "\<exists>b'. for_list body [0..<n] b = Some b' \<and> length b' = shard_end t S
    \<and> fld b' 0 shardSectionOff = fld b 0 shardSectionOff
    \<and> (\<forall>i<n. fld b' (shard_pos S i) S = enc ! i)" if "n \<le> t" for n
    using that
  proof (induction n)
    case 0
    then show ?case using assms(1) by simp
  next
    case (Suc n)
    then obtain b1 where b1: "for_list body [0..<n] b = Some b1" "length b1 = shard_end t S"
        "fld b1 0 shardSectionOff = fld b 0 shardSectionOff" "\<forall>i<n. fld b1 (shard_pos S i) S = enc ! i"
      by auto
    have n: "n < t" using Suc.prems by simp
    note fb = frame_bounds [OF n, of S]
    have le: "length (enc ! n) = S" using assms(2,3) n by simp
    let ?b2 = "overwrite b1 (shard_pos S n) (enc ! n)"
    have s: "body n b1 = Some ?b2"
      using fb le b1(2) by (simp add: body_def copy_into_exact overwrite_def)
    have in_: "shard_pos S n + length (enc ! n) \<le> length b1" using fb le b1(2) by simp
    have "fld ?b2 (shard_pos S i) S = enc ! i" if "i < Suc n" for i
    proof (cases "i = n")
      case True
      then show ?thesis using in_ le by (simp add: fld_overwrite_same)
    next
      case False
      then have "i < n" "i < t" using that n by simp_all
      then have "fld ?b2 (shard_pos S i) S = fld b1 (shard_pos S i) S"
        using frame_bounds [OF \<open>i < t\<close>, of S] frame_bounds(5) [OF \<open>i < t\<close> \<open>i < n\<close>, of S] fb in_ by (intro fld_overwrite_other) simp_all
      then show ?thesis using b1(4) \<open>i < n\<close> by simp
    qed
    moreover have "fld ?b2 0 shardSectionOff = fld b 0 shardSectionOff"
      using fb in_ b1(3) by (subst fld_overwrite_other) simp_all
    moreover have "length ?b2 = shard_end t S" using in_ b1(2) by simp
    ultimately show ?case using b1(1) s by (simp add: for_list_append)
  qed
  from this [OF order_refl] show ?thesis by (simp only: st)
qed

text \<open>The goroutines of the shard headers touch their own frame only.\<close>

lemma header_ops_footprint:
  "a \<in> set (shardHeader_ops S i) \<Longrightarrow> footprint a \<subseteq> {hdr_pos S i..<hdr_pos S i + stride S}"
  by (auto simp: shardHeader_ops_def Let_def hdr_pos_def stride_def rsShardHdrSize_def)

lemma header_ops_exec:
  assumes "i < t" "length b = shard_end t S"
  shows "for_list exec_op (shardHeader_ops S i) b
    = Some (overwrite b (hdr_pos S i) (frame_hdr i (fld b (shard_pos S i) S)))"
proof -
  note fb = frame_bounds [OF assms(1), of S]
  have h: "hdr_pos S i + 6 + S \<le> length b" "shard_pos S i = hdr_pos S i + 6"
    using fb assms(2) by (simp_all add: stride_def rsShardHdrSize_def)
  have hp: "shardSectionOff + i * (6 + S) = hdr_pos S i" by (simp add: hdr_pos_def stride_def rsShardHdrSize_def)
  let ?x = "le_put 2 (of_nat i :: uint16)"
  have f: "take S (drop (hdr_pos S i + 6) (overwrite b (hdr_pos S i) ?x)) = fld b (shard_pos S i) S"
    using h fld_overwrite_other [of "hdr_pos S i" ?x b "shard_pos S i" S] by (simp add: fld_def)
  have "exec_op (PutOp (hdr_pos S i) (hdr_pos S i + 2) ?x) b = Some (overwrite b (hdr_pos S i) ?x)"
    using h by (simp add: exec_op_eq del: exec_op.simps)
  moreover have "exec_op (PutCRCOp (hdr_pos S i + 6) (hdr_pos S i + 6 + S) (hdr_pos S i + 2) (hdr_pos S i + 6))
      (overwrite b (hdr_pos S i) ?x)
    = Some (overwrite (overwrite b (hdr_pos S i) ?x) (hdr_pos S i + 2)
        (le_put 4 (ChecksumIEEE (fld b (shard_pos S i) S))))"
    using h f by (simp add: exec_op_eq del: exec_op.simps)
  moreover have "overwrite (overwrite b (hdr_pos S i) ?x) (hdr_pos S i + 2)
        (le_put 4 (ChecksumIEEE (fld b (shard_pos S i) S)))
      = overwrite b (hdr_pos S i) (frame_hdr i (fld b (shard_pos S i) S))"
    using h by (subst overwrite_chain) (simp_all add: frame_hdr_def)
  ultimately show ?thesis
    by (simp add: shardHeader_ops_def Let_def hp rsShardHdrSize_def del: exec_op.simps)
qed

lemma header_goroutines:
  assumes "length b = shard_end t S"
  shows "\<exists>b'. run_sched exec_op hsched (map (shardHeader_ops S) [0..<t]) b = Some b'
    \<and> length b' = shard_end t S \<and> fld b' 0 shardSectionOff = fld b 0 shardSectionOff
    \<and> (\<forall>i<t. fld b' (shard_pos S i) S = fld b (shard_pos S i) S
         \<and> fld b' (hdr_pos S i) rsShardHdrSize = frame_hdr i (fld b (shard_pos S i) S))"
proof -
  have ind: "run_sched exec_op hsched (map (shardHeader_ops S) [0..<t]) b
      = for_list exec_op (concat (map (shardHeader_ops S) [0..<t])) b"
  proof (rule buf.schedule_independent)
    have ord: "apart footprint (shardHeader_ops S i) (shardHeader_ops S j)" if "i < j" for i j
      unfolding apart_def using frame_bounds(5) [of i "Suc i" j S] that
      by (intro ballI disjoint_ranges [OF header_ops_footprint header_ops_footprint]) simp_all
    fix i j assume "i < length (map (shardHeader_ops S) [0..<t])" "j < length (map (shardHeader_ops S) [0..<t])" "i \<noteq> j"
    then show "apart footprint (map (shardHeader_ops S) [0..<t] ! i) (map (shardHeader_ops S) [0..<t] ! j)"
      using ord [of i j] ord [of j i] by (cases "i < j") (auto simp: apart_def Int_commute)
  qed
  have "\<exists>b'. for_list exec_op (concat (map (shardHeader_ops S) [0..<n])) b = Some b'
    \<and> length b' = shard_end t S \<and> fld b' 0 shardSectionOff = fld b 0 shardSectionOff
    \<and> (\<forall>i<t. fld b' (shard_pos S i) S = fld b (shard_pos S i) S)
    \<and> (\<forall>i<n. fld b' (hdr_pos S i) rsShardHdrSize = frame_hdr i (fld b (shard_pos S i) S))" if "n \<le> t" for n
    using that
  proof (induction n)
    case 0
    then show ?case using assms by simp
  next
    case (Suc n)
    then obtain b1 where b1: "for_list exec_op (concat (map (shardHeader_ops S) [0..<n])) b = Some b1"
        "length b1 = shard_end t S" "fld b1 0 shardSectionOff = fld b 0 shardSectionOff"
        "\<forall>i<t. fld b1 (shard_pos S i) S = fld b (shard_pos S i) S"
        "\<forall>i<n. fld b1 (hdr_pos S i) rsShardHdrSize = frame_hdr i (fld b (shard_pos S i) S)"
      by auto
    have n: "n < t" using Suc.prems by simp
    note fb = frame_bounds [OF n, of S]
    let ?h = "frame_hdr n (fld b (shard_pos S n) S)"
    let ?b2 = "overwrite b1 (hdr_pos S n) ?h"
    have in_: "hdr_pos S n + length ?h \<le> length b1" using fb b1(2) by (simp add: stride_def)
    have keep: "fld ?b2 o' k = fld b1 o' k" if "o' + k \<le> length b1" "o' + k \<le> hdr_pos S n \<or> shard_pos S n \<le> o'" for o' k
      using that in_ fb by (intro fld_overwrite_other) simp_all
    have "fld ?b2 (shard_pos S i) S = fld b (shard_pos S i) S" if "i < t" for i
    proof -
      have "shard_pos S i + S \<le> hdr_pos S n \<or> shard_pos S n \<le> shard_pos S i"
      proof (cases i n rule: linorder_cases)
        case less
        then have "hdr_pos S i + stride S \<le> hdr_pos S n" by (rule frame_bounds(5) [OF that])
        then show ?thesis using frame_bounds(3) [OF that, of S] by simp
      next
        case greater
        then have "hdr_pos S n + stride S \<le> hdr_pos S i" by (rule frame_bounds(5) [OF n])
        then show ?thesis using fb(3) frame_bounds(2) [OF that, of S] by linarith
      qed simp
      then have "fld ?b2 (shard_pos S i) S = fld b1 (shard_pos S i) S"
        using frame_bounds(1,3) [OF that, of S] b1(2) by (intro keep) simp_all
      then show ?thesis using b1(4) that by simp
    qed
    moreover have "fld ?b2 (hdr_pos S i) rsShardHdrSize = frame_hdr i (fld b (shard_pos S i) S)" if "i < Suc n" for i
    proof (cases "i = n")
      case True
      then show ?thesis using in_ by (simp add: fld_overwrite_same)
    next
      case False
      then have "i < n" "i < t" using that n by simp_all
      then show ?thesis
        using keep [of "hdr_pos S i" rsShardHdrSize] frame_bounds [OF \<open>i < t\<close>, of S]
          frame_bounds(5) [OF \<open>i < t\<close> \<open>i < n\<close>, of S] b1(2,5)
        by (simp add: stride_def)
    qed
    moreover have "fld ?b2 0 shardSectionOff = fld b 0 shardSectionOff"
      using keep [of 0 shardSectionOff] fb b1(2,3) by simp
    moreover have "length ?b2 = shard_end t S" using in_ b1(2) by simp
    moreover have "for_list exec_op (shardHeader_ops S n) b1 = Some ?b2"
      using header_ops_exec [OF n b1(2)] b1(4) n by simp
    ultimately show ?case using b1(1) by (simp add: for_list_append)
  qed
  from this [OF order_refl] show ?thesis unfolding ind by blast
qed

section \<open>SerializeRS\<close>

text \<open>
  The documented behaviour of the codec. \<open>rs_shape\<close>: Encode and Reconstruct keep the number
  and the length of the shards, and a successful Reconstruct leaves no data shard missing.
\<close>

definition rs_shape :: "rs_lib \<Rightarrow> bool" where
  "rs_shape rs \<longleftrightarrow>
     (\<forall>N K xs ys S. rs_encode rs N K xs = Some ys \<longrightarrow> length xs = N + K \<longrightarrow> (\<forall>x\<in>set xs. length x = S)
        \<longrightarrow> length ys = N + K \<and> (\<forall>y\<in>set ys. length y = S))
     \<and> (\<forall>N K xs ok ys S. rs_reconstruct rs N K xs = (ok, ys) \<longrightarrow> length xs = N + K
        \<longrightarrow> (\<forall>x. Some x \<in> set xs \<longrightarrow> length x = S)
        \<longrightarrow> length ys = N + K \<and> (\<forall>y. Some y \<in> set ys \<longrightarrow> length y = S) \<and> (ok \<longrightarrow> None \<notin> set (take N ys)))"

definition zero_parity :: "nat \<Rightarrow> nat \<Rightarrow> bytes list" where
  "zero_parity K S = replicate K (replicate S 0)"

definition shard_size :: "nat \<Rightarrow> nat \<Rightarrow> nat" where
  "shard_size N p = (if p > 0 then (p + N - 1) div N else 0)"

lemma shard_size_facts:
  assumes "1 \<le> N" "0 < p"
  shows "0 < shard_size N p" "p \<le> N * shard_size N p" "shard_size N p \<le> p"
proof -
  have s: "shard_size N p = (p + N - 1) div N" using assms by (simp add: shard_size_def)
  show "0 < shard_size N p" unfolding s using assms by (simp add: div_greater_zero_iff)
  have "p + N - 1 < N * ((p + N - 1) div N) + N"
    using assms(1) dividend_less_div_times [of N "p + N - 1"] by (simp add: mult.commute)
  then show "p \<le> N * shard_size N p" unfolding s using assms by linarith
  obtain M where N: "N = Suc M" using assms(1) by (cases N) simp_all
  have "p + M < Suc p * Suc M" by simp
  then have "(p + M) div Suc M < Suc p" by (rule less_mult_imp_div_less)
  moreover have "p + N - 1 = p + M" by (simp add: N)
  ultimately have "(p + N - 1) div N \<le> p" by (simp only: N less_Suc_eq_le)
  then show "shard_size N p \<le> p" unfolding s .
qed

lemma data_shards_length:
  "length p \<le> N * S \<Longrightarrow> length (data_shards N S p) = N \<and> (\<forall>x\<in>set (data_shards N S p). length x = S)"
proof -
  assume "length p \<le> N * S"
  then have "N * S \<le> length (padded N S p)" by (simp add: length_padded)
  from pieces_length [OF this] show ?thesis unfolding data_shards_def by (intro conjI ballI) simp_all
qed

text \<open>The stages with at least one record, from the blob with its two headers.\<close>

lemma data_windows:
  assumes S: "0 < S" and p: "length p \<le> N * S" and "length pre = shardSectionOff"
    and m: "m = pre @ replicate ((N + K) * stride S) 0"
  shows "length m = shard_end (N + K) S"
    and "map (window (scatter (payload_pos S) 0 p m)) (shard_windows (N + K) S)
       = data_shards N S p @ zero_parity K S"
proof -
  show lm: "length m = shard_end (N + K) S" using assms(3) by (simp add: m shard_end_def)
  have "m ! q = 0" if "shardSectionOff \<le> q" "q < length m" for q
    using that assms(3) by (simp add: m nth_append)
  from scatter_windows [OF S lm p _ this]
  show "map (window (scatter (payload_pos S) 0 p m)) (shard_windows (N + K) S)
      = data_shards N S p @ zero_parity K S"
    by (simp add: zero_parity_def)
qed

lemma encode_lengths:
  assumes "rs_shape rs" "length p \<le> N * S"
    and "rs_encode rs N K (data_shards N S p @ zero_parity K S) = Some enc"
  shows "length enc = N + K" "\<forall>y\<in>set enc. length y = S"
proof -
  have "length (data_shards N S p @ zero_parity K S) = N + K"
    "\<forall>x\<in>set (data_shards N S p @ zero_parity K S). length x = S"
    using data_shards_length [OF assms(2)] by (auto simp: zero_parity_def)
  then show "length enc = N + K" "\<forall>y\<in>set enc. length y = S"
    using assms(1,3) unfolding rs_shape_def by blast+
qed

lemma encode_stages:
  assumes S: "0 < S" and p: "length p \<le> N * S" and "length pre = shardSectionOff"
    and m: "m = pre @ replicate ((N + K) * stride S) 0"
    and enc: "rs_encode rs N K (data_shards N S p @ zero_parity K S) = Some enc" and rs: "rs_shape rs"
  shows "do {
      blob \<leftarrow> storeWindows (scatter (payload_pos S) 0 p m) (shard_windows (N + K) S) enc;
      run_sched exec_op hsched (map (shardHeader_ops S) [0..<N + K]) blob } = Some (pre @ concat (frames enc))"
proof -
  note lm = data_windows(1) [OF S p assms(3) m]
  note el = encode_lengths [OF rs p enc]
  let ?b0 = "scatter (payload_pos S) 0 p m"
  have pre: "fld ?b0 0 shardSectionOff = pre"
    using scatter_prefix [of m S p] lm assms(3) by (simp add: shard_end_def) (simp add: fld_def m)
  obtain b1 where b1: "storeWindows ?b0 (shard_windows (N + K) S) enc = Some b1" "length b1 = shard_end (N + K) S"
      "fld b1 0 shardSectionOff = pre" "\<forall>i<N + K. fld b1 (shard_pos S i) S = enc ! i"
    using storeWindows_eq [of ?b0 "N + K" S enc] lm el pre by auto
  obtain b2 where b2: "run_sched exec_op hsched (map (shardHeader_ops S) [0..<N + K]) b1 = Some b2"
      "length b2 = shard_end (N + K) S" "fld b2 0 shardSectionOff = pre"
      "\<forall>i<N + K. fld b2 (shard_pos S i) S = enc ! i \<and> fld b2 (hdr_pos S i) rsShardHdrSize = frame_hdr i (enc ! i)"
    using header_goroutines [OF b1(2), of hsched] b1(3,4) by auto
  have "b2 = pre @ concat (frames enc)"
  proof -
    have "map (\<lambda>i. fld b2 (hdr_pos S i) rsShardHdrSize @ fld b2 (shard_pos S i) S) [0..<N + K] = frames enc"
      using b2(4) el(1) by (auto simp: frames_def)
    then show ?thesis using blob_fields [OF b2(2)] b2(3) by simp
  qed
  then show ?thesis using b1(1) b2(1) by simp
qed

lemma headers_stage:
  "do { blob \<leftarrow> putHeader (replicate (headerSize + rsMetaSize + k) 0) TierL2 (of_nat n);
        putRSMeta blob N K S P } = Some (header TierL2 n @ rs_meta N K S P @ replicate k 0)"
proof -
  have "putHeader (replicate (headerSize + rsMetaSize + k) 0) TierL2 (of_nat n)
      = Some (header TierL2 n @ replicate rsMetaSize 0 @ replicate k 0)"
    by (subst putHeader_eq) (simp_all add: replicate_add)
  then show ?thesis using putRSMeta_eq [of "header TierL2 n" "replicate rsMetaSize 0"] by simp
qed

lemma empty_stage:
  "writeEmptyShardHeaders (replicate (t * rsShardHdrSize) 0) t = Some (concat (frames (replicate t [])))"
proof -
  define body where "body = (\<lambda>i dst. do {
      dst \<leftarrow> put_into dst (i * rsShardHdrSize) (i * rsShardHdrSize + 2) (le_put 2 (of_nat i :: uint16));
      put_into dst (i * rsShardHdrSize + 2) (i * rsShardHdrSize + 6) (le_put 4 (ChecksumIEEE [])) })"
  have h: "rsShardHdrSize = 6" by (simp add: rsShardHdrSize_def)
  have fr: "frames (replicate n []) = map (\<lambda>i. frame_hdr i []) [0..<n]" for n
    by (auto simp: frames_def)
  have len: "length (concat (frames (replicate n []))) = n * 6" for n
  proof -
    have "length (concat (frames (replicate n []))) = length (frames (replicate n [])) * 6"
      by (rule length_concat_blocks) (auto simp: fr h)
    then show ?thesis by (simp add: fr)
  qed
  have "for_list body [0..<n] (replicate (t * 6) 0)
      = Some (concat (frames (replicate n [])) @ replicate ((t - n) * 6) 0)" if "n \<le> t" for n
    using that
  proof (induction n)
    case 0
    then show ?case by (simp add: frames_def)
  next
    case (Suc n)
    let ?c = "concat (frames (replicate n []))"
    obtain k where k: "t - n = Suc k" using Suc.prems by (metis Suc_diff_Suc Suc_le_lessD)
    then have k': "t - Suc n = k" by simp
    have "body n (?c @ replicate ((t - n) * 6) 0) = Some (?c @ frame_hdr n [] @ replicate (k * 6) 0)"
      using len [of n] by (simp add: body_def h put_into_exact k replicate_add frame_hdr_def numeral_eq_Suc)
    moreover have "concat (frames (replicate (Suc n) [])) = ?c @ frame_hdr n []"
      unfolding fr by simp
    ultimately show ?case using Suc by (simp add: for_list_append k')
  qed
  from this [OF order_refl] show ?thesis
    by (simp add: writeEmptyShardHeaders_def body_def h)
qed

lemma chosen_geometry_eq:
  "(if dn \<le> 0 \<or> dk \<le> 0 then
      (let (dd, dp) = rsDefaultShards p in (if dn \<le> 0 then dd else dn, if dk \<le> 0 then dp else dk))
    else (dn, dk)) = chosen_geometry p dn dk"
  by (simp add: chosen_geometry_def Let_def case_prod_unfold)

definition payload_of :: "device \<Rightarrow> bytes" where
  "payload_of d = records_bytes True d (sorted_keys d)"

lemma payload_of_length:
  "valid_device d \<Longrightarrow> length (payload_of d) = card (Mapping.keys (dirty d)) * l1RecordSize"
  using length_records_bytes [OF block_keys_valid, of d "sorted_keys d" True] sorted_keys_facts [of d]
  by (simp add: payload_of_def enc_size_True)

text \<open>The body of SerializeRS for an accepted geometry.\<close>

lemma encodeRS_eq:
  assumes d: "valid_device d" and rs: "rs_shape rs" and N: "1 \<le> N" and p: "p = length (payload_of d)"
    and c: "c = card (Mapping.keys (dirty d))" and S: "S = shard_size N p"
  shows "encodeRS rs procs sched hsched d (sorted_keys d) p N K =
    (if p = 0 then Some (Inr (rs_blob c N K 0 0 (replicate (N + K) [])))
     else if \<not> rs_new rs N K then Some (Inl ErrUnsupportedTier)
     else (case rs_encode rs N K (data_shards N S (payload_of d) @ zero_parity K S) of
         None \<Rightarrow> Some (Inl ErrCorrupt)
       | Some enc \<Rightarrow> Some (Inr (rs_blob c N K S p enc))))"
proof -
  have ln: "length (sorted_keys d) = c" using sorted_keys_facts(4) [OF d] c by simp
  have Sdef: "(if 0 < p then (p + N - 1) div N else 0) = S" by (simp add: S shard_size_def)
  let ?pre = "header TierL2 c @ rs_meta N K S p"
  have st: "(N + K) * (rsShardHdrSize + S) = (N + K) * stride S" by (simp add: stride_def)
  have hs: "do { blob \<leftarrow> putHeader (replicate (headerSize + rsMetaSize + (N + K) * stride S) 0) TierL2 (of_nat c);
      blob \<leftarrow> putRSMeta blob N K S p; f blob } = f (?pre @ replicate ((N + K) * stride S) 0)" for f :: "bytes \<Rightarrow> 'z option"
    using headers_stage [of "(N + K) * stride S" c N K S p] by (auto split: bind_splits)
  have lp: "length ?pre = headerSize + rsMetaSize" by simp
  show ?thesis
  proof (cases "p = 0")
    case True
    then have S0: "S = 0" by (simp add: S shard_size_def)
    have "stride 0 = rsShardHdrSize" by (simp add: stride_def)
    then show ?thesis
      unfolding encodeRS_def Let_def Sdef st ln hs
      using True S0 empty_stage [of "N + K"] lp by (simp add: subslice_Some rs_blob_def)
  next
    case False
    then have p0: "0 < p" by simp
    note sf = shard_size_facts [OF N p0, folded S]
    let ?m = "?pre @ replicate ((N + K) * stride S) 0"
    have lm: "length ?m = shard_end (N + K) S" by (simp add: shard_end_def shardSectionOff_def)
    have le: "length (payload_of d) \<le> N * S" using sf(2) p by simp
    have ks: "block_keys d (sorted_keys d)" using block_keys_valid [OF d] sorted_keys_facts(1) [OF d] by simp
    have w: "writeRecordsSharded procs sched d ?m (sorted_keys d) (shard_windows N S) S
        = Some (scatter (payload_pos S) 0 (payload_of d) ?m)"
      unfolding payload_of_def
    proof (rule writeRecordsSharded_eq [OF sf(1) ks])
      show "length (sorted_keys d) * l1RecordSize \<le> N * S"
        using le length_records_bytes [OF ks, of True] by (simp add: payload_of_def enc_size_True)
      show "shard_end N S \<le> length ?m" unfolding lm by (simp add: shard_end_def)
    qed
    have po: "length ?pre = shardSectionOff" by (simp add: shardSectionOff_def)
    note win = data_windows(2) [OF sf(1) le po refl, of K]
    show ?thesis
    proof (cases "rs_encode rs N K (data_shards N S (payload_of d) @ zero_parity K S)")
      case None
      then show ?thesis
        unfolding encodeRS_def Let_def Sdef st ln hs shard_windows_ok [OF lm] bind.bind_lunit
          take_shard_windows [OF le_add1] w win
        using sf(1) False by simp
    next
      case (Some enc)
      note es = encode_stages [OF sf(1) le po refl Some rs, of hsched]
      have b: "Option.bind X (\<lambda>b1. Option.bind (Y b1) (\<lambda>b2. Some (Inr b2)))
          = map_option Inr (Option.bind X Y)" for X :: "bytes option" and Y
        by (cases X) (simp_all add: map_conv_bind_option o_def)
      show ?thesis
        unfolding encodeRS_def Let_def Sdef st ln hs shard_windows_ok [OF lm] bind.bind_lunit
          take_shard_windows [OF le_add1] w win Some option.case b es
        using sf(1) False by (simp add: rs_blob_def)
    qed
  qed
qed

text \<open>SerializeRS on every branch, for every schedule.\<close>

lemma SerializeRS_eq:
  assumes d: "valid_device d" and rs: "rs_shape rs" and p: "p = length (payload_of d)" "p < 2 ^ 63"
    and args: "in_i64 dn" "in_i64 dk"
    and nk: "chosen_geometry p dn dk = (n, k)" "N = nat n" "K = nat k"
    and c: "c = card (Mapping.keys (dirty d))" and S: "S = shard_size N p"
  shows "SerializeRS rs procs sched hsched d dn dk =
    (if \<not> geometry_ok N K p then Some (Inl ErrUnsupportedTier)
     else if p = 0 then Some (Inr (rs_blob c N K 0 0 (replicate (N + K) [])))
     else if \<not> rs_new rs N K then Some (Inl ErrUnsupportedTier)
     else (case rs_encode rs N K (data_shards N S (payload_of d) @ zero_parity K S) of
         None \<Rightarrow> Some (Inl ErrCorrupt)
       | Some enc \<Rightarrow> Some (Inr (rs_blob c N K S p enc))))"
proof -
  have pl: "length (sorted_keys d) * l1RecordSize = p"
    using payload_of_length [OF d] p(1) sorted_keys_facts(4) [OF d] by simp
  note acc = accepted_geometry [OF p(2) args nk(1)]
  have NK: "as_len n = Some N" "as_len k = Some K" "1 \<le> N"
    using acc(2,3) nk(2,3) by (simp_all add: as_len_def)
  note enc = encodeRS_eq [OF d rs NK(3) p(1) c S, of procs sched hsched K]
  have ok: "(rsMaxTotalShards < i64 (n + k)) = False \<and> validRSGeometry n k (of_nat p) = True" if "geometry_ok N K p"
    using that acc(1) unfolding nk(2,3) by auto
  have bad: "rsMaxTotalShards < i64 (n + k) \<or> validRSGeometry n k (of_nat p) = False" if "\<not> geometry_ok N K p"
    using that acc(1) unfolding nk(2,3) by auto
  show ?thesis
    unfolding SerializeRS_def sortedIndices_eq [OF d] Let_def pl chosen_geometry_eq [unfolded Let_def]
      nk(1) prod.case NK bind.bind_lunit enc
    using ok bad by (cases "geometry_ok N K p") auto
qed

end
