(* ===== verification/RSDecode.thy ===== *)
theory RSDecode
  imports RSBlob
begin

text \<open>
  The read side of src/blockdevice/rs.go: what parseRSMeta accepts, the slot table that
  parseShardSection builds, and the recovery of a payload through Reconstruct.
\<close>

section \<open>parseRSMeta\<close>

definition meta_N :: "bytes \<Rightarrow> nat" where "meta_N body = unat (le_get (take 2 body) :: uint16)"
definition meta_K :: "bytes \<Rightarrow> nat" where "meta_K body = unat (le_get (take 2 (drop 2 body)) :: uint16)"
definition meta_S :: "bytes \<Rightarrow> nat" where "meta_S body = unat (le_get (take 4 (drop 4 body)) :: uint32)"
definition meta_P :: "bytes \<Rightarrow> uint64" where "meta_P body = le_get (take 8 (drop 8 body))"

definition meta_crc_ok :: "bytes \<Rightarrow> bool" where
  "meta_crc_ok body \<longleftrightarrow> ChecksumIEEE (take 16 body) = le_get (take 4 (drop 16 body))"

text \<open>The conditions of the code, over the naturals.\<close>

definition meta_accepts :: "nat \<Rightarrow> uint64 \<Rightarrow> nat \<Rightarrow> nat \<Rightarrow> nat \<Rightarrow> uint64 \<Rightarrow> bool" where
  "meta_accepts len bc N K S P \<longleftrightarrow>
     1 \<le> N \<and> N + K \<le> 64 \<and> validRSGeometry (int N) (int K) P
     \<and> unat P = unat bc * l1RecordSize
     \<and> (N + K) * S \<le> 2 ^ 33 \<and> unat P \<le> N * S
     \<and> (unat P \<noteq> 0 \<longrightarrow> S = shard_size N (unat P) \<and> (N + K) * stride S \<le> 4 * len)"

lemma unat_small_mult: "a * b < 2 ^ 64 \<Longrightarrow> unat (of_nat a * of_nat b :: uint64) = a * b"
proof -
  assume "a * b < 2 ^ 64"
  then have "unat (of_nat (a * b) :: uint64) = a * b"
    by (simp only: unat_of_nat take_bit_nat_eq_self_iff) simp
  then show ?thesis by simp
qed

lemma small_products:
  assumes "N + K \<le> 64" "S < 2 ^ 32"
  shows "(N + K) * S < 2 ^ 64" "N * S < 2 ^ 64" "(N + K) * stride S < 2 ^ 64"
proof -
  have "(N + K) * S \<le> 64 * S" "N * S \<le> 64 * S" "(N + K) * stride S \<le> 64 * stride S"
    using assms(1) by (intro mult_le_mono1; simp)+
  moreover have "64 * S < 2 ^ 64" "64 * stride S < 2 ^ 64"
    using assms(2) by (simp_all add: stride_def rsShardHdrSize_def)
  ultimately show "(N + K) * S < 2 ^ 64" "N * S < 2 ^ 64" "(N + K) * stride S < 2 ^ 64"
    by (simp_all only: le_less_trans)
qed

lemma meta_S_bound: "meta_S body < 2 ^ 32"
  using unsigned_less [of "le_get (take 4 (drop 4 body)) :: uint32", where ?'a = nat] by (simp add: meta_S_def)

lemma payload_check:
  fixes P bc :: uint64
  shows "(P mod of_nat l1RecordSize \<noteq> 0 \<or> P div of_nat l1RecordSize \<noteq> bc) \<longleftrightarrow> unat P \<noteq> unat bc * l1RecordSize"
proof -
  have l: "unat (of_nat l1RecordSize :: uint64) = l1RecordSize"
    by (simp add: l1RecordSize_def BlockSize_def)
  have "P mod of_nat l1RecordSize = 0 \<longleftrightarrow> unat P mod l1RecordSize = 0"
    by (simp add: word_unat_eq_iff unat_mod_distrib l)
  moreover have "P div of_nat l1RecordSize = bc \<longleftrightarrow> unat P div l1RecordSize = unat bc"
    by (simp add: word_unat_eq_iff unat_div_distrib l)
  moreover have "unat P mod l1RecordSize = 0 \<and> unat P div l1RecordSize = unat bc
      \<longleftrightarrow> unat P = unat bc * l1RecordSize"
    by (metis div_mult_mod_eq add.right_neutral l1RecordSize_pos(2) mod_mult_self2_is_0 nonzero_mult_div_cancel_right)
  ultimately show ?thesis by auto
qed

lemma parseRSMeta_eq:
  assumes "int (length body) < 2 ^ 61"
  shows "parseRSMeta body bc =
    (let N = meta_N body; K = meta_K body; S = meta_S body; P = meta_P body in
     Some (if length body < rsMetaSize \<or> \<not> meta_crc_ok body \<or> \<not> meta_accepts (length body) bc N K S P
           then Inl ErrCorrupt
           else Inr \<lparr>g_dataShards = N, g_parityShards = K, g_shardSize = S, g_payloadLen = unat P\<rparr>))"
proof (cases "length body < rsMetaSize")
  case True
  then show ?thesis by (simp add: parseRSMeta_def)
next
  case False
  let ?N = "meta_N body" and ?K = "meta_K body" and ?S = "meta_S body" and ?P = "meta_P body"
  have l: "20 \<le> length body" "rsMetaSize = 20" using False by (simp_all add: rsMetaSize_def)
  have f: "subslice body 0 rsMetaSize = Some (take 20 body)"
    "subslice (take 20 body) 0 16 = Some (take 16 body)"
    "subslice (take 20 body) 16 20 = Some (take 4 (drop 16 body))"
    "subslice (take 20 body) 0 2 = Some (take 2 body)"
    "subslice (take 20 body) 2 4 = Some (take 2 (drop 2 body))"
    "subslice (take 20 body) 4 8 = Some (take 4 (drop 4 body))"
    "subslice (take 20 body) 8 16 = Some (take 8 (drop 8 body))"
    unfolding l(2) using l(1) by (simp_all add: subslice_Some drop_take min_def)
  have g: "get_u32 (take 4 (drop 16 body)) = Some (le_get (take 4 (drop 16 body)))"
    "get_u16 (take 2 body) = Some (le_get (take 2 body))"
    "get_u16 (take 2 (drop 2 body)) = Some (le_get (take 2 (drop 2 body)))"
    "get_u32 (take 4 (drop 4 body)) = Some (le_get (take 4 (drop 4 body)))"
    "get_u64 (take 8 (drop 8 body)) = Some ?P"
    using l by (simp_all add: get_u16_Some get_u32_Some get_u64_Some meta_P_def)
  note S = meta_S_bound [of body]
  have v: "N + K \<le> 64 \<Longrightarrow> S' < 2 ^ 32 \<Longrightarrow>
      (rsMaxDecodeAlloc < of_nat (N + K) * of_nat S' \<or> of_nat N * of_nat S' < P) =
      (\<not> ((N + K) * S' \<le> 2 ^ 33 \<and> unat P \<le> N * S'))" for N K S' :: nat and P :: uint64
    using unat_small_mult [OF small_products(1)] unat_small_mult [OF small_products(2)]
    by (auto simp: word_less_nat_alt rsMaxDecodeAlloc_def)
  have w: "N + K \<le> 64 \<Longrightarrow> S' < 2 ^ 32 \<Longrightarrow>
      (4 * of_nat (length body) < (of_nat (N + K) * of_nat (rsShardHdrSize + S') :: uint64)) =
      (\<not> (N + K) * stride S' \<le> 4 * length body)" for N K S' :: nat
  proof -
    assume "N + K \<le> 64" "S' < 2 ^ 32"
    then have "unat (of_nat (N + K) * of_nat (rsShardHdrSize + S') :: uint64) = (N + K) * stride S'"
      using unat_small_mult [OF small_products(3)] by (simp add: stride_def)
    moreover have "unat (of_nat 4 * of_nat (length body) :: uint64) = 4 * length body"
      using assms by (intro unat_small_mult) simp
    ultimately show ?thesis by (auto simp: word_less_nat_alt)
  qed
  have sm: "unat P \<le> N * S' \<Longrightarrow> (N + K) * S' \<le> 2 ^ 33 \<Longrightarrow> as_len (sint P) = Some (unat P)"
    for N K S' :: nat and P :: uint64
  proof -
    assume "unat P \<le> N * S'" "(N + K) * S' \<le> 2 ^ 33"
    moreover have "N * S' \<le> (N + K) * S'" by (intro mult_le_mono1) simp
    ultimately have "unat P \<le> 2 ^ 33" by linarith
    then have "unat P < 2 ^ 63" by simp
    then show "as_len (sint P) = Some (unat P)" by (simp only: sint_small as_len_nat)
  qed
  have tot: "int ?N + int ?K > rsMaxTotalShards \<longleftrightarrow> \<not> ?N + ?K \<le> 64" for N K
    by (simp add: rsMaxTotalShards_def) linarith
  have fl: "unat (le_get (take 2 body) :: uint16) = ?N" "unat (le_get (take 2 (drop 2 body)) :: uint16) = ?K"
    "unat (le_get (take 4 (drop 4 body)) :: uint32) = ?S"
    by (simp_all add: meta_N_def meta_K_def meta_S_def)
  note unf = parseRSMeta_def f g bind.bind_lunit Let_def payload_check fl of_nat_add [where 'a = int] tot
  let ?E = "Some (Inl ErrCorrupt) :: (format_error + rsGeometry) option"
  let ?g = "\<lparr>g_dataShards = ?N, g_parityShards = ?K, g_shardSize = ?S, g_payloadLen = unat ?P\<rparr>"
  have crc: "(ChecksumIEEE (take 16 body) \<noteq> le_get (take 4 (drop 16 body))) = (\<not> meta_crc_ok body)"
    by (simp add: meta_crc_ok_def)
  consider "\<not> meta_crc_ok body" | "meta_crc_ok body" "\<not> (1 \<le> ?N \<and> ?N + ?K \<le> 64)"
    | "meta_crc_ok body" "1 \<le> ?N" "?N + ?K \<le> 64" "\<not> validRSGeometry (int ?N) (int ?K) ?P"
    | "meta_crc_ok body" "1 \<le> ?N" "?N + ?K \<le> 64" "validRSGeometry (int ?N) (int ?K) ?P"
      "unat ?P \<noteq> unat bc * l1RecordSize"
    | "meta_crc_ok body" "1 \<le> ?N" "?N + ?K \<le> 64" "validRSGeometry (int ?N) (int ?K) ?P"
      "unat ?P = unat bc * l1RecordSize" "\<not> ((?N + ?K) * ?S \<le> 2 ^ 33 \<and> unat ?P \<le> ?N * ?S)"
    | "meta_crc_ok body" "1 \<le> ?N" "?N + ?K \<le> 64" "validRSGeometry (int ?N) (int ?K) ?P"
      "unat ?P = unat bc * l1RecordSize" "(?N + ?K) * ?S \<le> 2 ^ 33 \<and> unat ?P \<le> ?N * ?S"
    by blast
  then show ?thesis
  proof cases
    case 5
    then show ?thesis unfolding unf crc v [OF 5(3) S] using False 5 by (simp add: meta_accepts_def)
  next
    case 6
    then have al: "as_len (sint ?P) = Some (unat ?P)" using sm by blast
    show ?thesis
    proof (cases "unat ?P = 0")
      case True
      then show ?thesis
        unfolding unf crc v [OF 6(3) S] w [OF 6(3) S] al
        using False 6(1-4,6) 6(5) [symmetric] by (simp add: meta_accepts_def)
    next
      case P: False
      then have "?S \<noteq> 0" using 6(6) by (cases ?S) simp_all
      moreover have "(unat ?P + ?N - 1) div ?N = shard_size ?N (unat ?P)" using P by (simp add: shard_size_def)
      ultimately show ?thesis
        unfolding unf crc v [OF 6(3) S] w [OF 6(3) S] al
        using False P 6(1-4,6) 6(5) [symmetric] by (simp add: meta_accepts_def)
    qed
  qed (use False in \<open>simp_all only: unf crc\<close>, (force simp: meta_accepts_def)+)
qed

text \<open>The metadata of a serialized blob reads back.\<close>

lemma rs_meta_fields:
  assumes "N < 2 ^ 16" "K < 2 ^ 16" "S < 2 ^ 32"
  shows "meta_N (rs_meta N K S P @ xs) = N" "meta_K (rs_meta N K S P @ xs) = K"
    "meta_S (rs_meta N K S P @ xs) = S" "meta_P (rs_meta N K S P @ xs) = of_nat P"
    "meta_crc_ok (rs_meta N K S P @ xs)"
  using assms
  by (simp_all add: rs_meta_def Let_def meta_N_def meta_K_def meta_S_def meta_P_def meta_crc_ok_def
      unat_of_nat take_bit_nat_eq_self_iff)

lemma parseRSMeta_rs_meta:
  assumes "geometry_ok N K p" "p = c * l1RecordSize" "p < 2 ^ 63" "S = shard_size N p"
    and "(N + K) * S \<le> 2 ^ 33" "p > 0 \<Longrightarrow> (N + K) * stride S \<le> 4 * (rsMetaSize + length sect)"
    and "int (length (rs_meta N K S p @ sect)) < 2 ^ 61"
  shows "parseRSMeta (rs_meta N K S p @ sect) (of_nat c)
    = Some (Inr \<lparr>g_dataShards = N, g_parityShards = K, g_shardSize = S, g_payloadLen = p\<rparr>)"
proof -
  have g: "1 \<le> N" "1 \<le> K" "N + K \<le> 64" using assms(1) by (simp_all add: geometry_ok_def)
  have S32: "S < 2 ^ 32"
  proof (rule ccontr)
    assume big: "\<not> S < 2 ^ 32"
    have N1: "N + K \<le> 2"
    proof (rule ccontr)
      assume "\<not> N + K \<le> 2"
      then have "3 * S \<le> (N + K) * S" by (intro mult_le_mono1) simp
      then have "3 * S \<le> 2 ^ 33" using assms(5) by (rule order_trans)
      with big show False by simp
    qed
    then have one: "N = 1" "K = 1" using g by simp_all
    have "0 < p" using big assms(4) by (cases p) (simp_all add: shard_size_def)
    then have "S = c * l1RecordSize" using assms(2,4) one by (simp add: shard_size_def)
    moreover have "S = 2 ^ 32" using assms(5) big by (simp add: one)
    ultimately have "(2 ^ 32 :: nat) mod l1RecordSize = 0" by (metis mod_mult_self2_is_0)
    then show False by (simp add: l1RecordSize_def BlockSize_def)
  qed
  have NK: "N < 2 ^ 16" "K < 2 ^ 16" using g by simp_all
  note fl = rs_meta_fields [OF NK S32, of p sect]
  have up: "unat (of_nat p :: uint64) = p" using assms(3) by (intro unat_of_nat_small int_below_2p63)
  have "c \<le> p" using assms(2) by (simp add: l1RecordSize_def)
  then have "c < 2 ^ 63" using assms(3) by (rule le_less_trans)
  then have uc: "unat (of_nat c :: uint64) = c" by (intro unat_of_nat_small int_below_2p63)
  have pN: "p \<le> N * S"
    using shard_size_facts(2) [OF g(1), of p] assms(4) by (cases "p = 0") simp_all
  have v: "validRSGeometry (int N) (int K) (of_nat p)"
    using validRSGeometry_nat [OF assms(3), of "int N" "int K"] assms(1) NK
    by (auto simp: geometry_ok_def)
  have "meta_accepts (length (rs_meta N K S p @ sect)) (of_nat c) N K S (of_nat p)"
    unfolding meta_accepts_def up uc using g v assms(2,4-6) pN by simp
  then show ?thesis using parseRSMeta_eq [OF assms(7), of "of_nat c"] up by (simp add: fl Let_def)
qed

section \<open>The slot table of parseShardSection\<close>

definition frame_idx :: "bytes \<Rightarrow> nat" where
  "frame_idx f = unat (le_get (take 2 f) :: uint16)"

definition frame_data :: "bytes \<Rightarrow> bytes" where
  "frame_data f = drop rsShardHdrSize f"

definition frame_ok :: "bytes \<Rightarrow> bool" where
  "frame_ok f \<longleftrightarrow> ChecksumIEEE (frame_data f) = le_get (take 4 (drop 2 f))"

definition slot_step :: "nat \<Rightarrow> bytes \<Rightarrow> bytes option list \<Rightarrow> bytes option list" where
  "slot_step t f sl =
     (if frame_idx f < t \<and> sl ! frame_idx f = None \<and> frame_ok f
      then sl[frame_idx f := Some (frame_data f)] else sl)"

definition slots_of :: "nat \<Rightarrow> bytes list \<Rightarrow> bytes option list" where
  "slots_of t fs = fold (slot_step t) fs (replicate t None)"

lemma length_slots_of [simp]: "length (slots_of t fs) = t"
proof -
  have "length (fold (slot_step t) fs sl) = length sl" for sl
    by (induction fs arbitrary: sl) (simp_all add: slot_step_def)
  then show ?thesis by (simp add: slots_of_def)
qed

text \<open>The first verifying frame of an index fills its slot.\<close>

lemma slots_of_nth:
  assumes "j < t"
  shows "slots_of t fs ! j = map_option frame_data (find (\<lambda>f. frame_ok f \<and> frame_idx f = j) fs)"
proof -
  have "fold (slot_step t) fs sl ! j = (case sl ! j of Some x \<Rightarrow> Some x
      | None \<Rightarrow> map_option frame_data (find (\<lambda>f. frame_ok f \<and> frame_idx f = j) fs))"
    if "length sl = t" for sl
    using that
  proof (induction fs arbitrary: sl)
    case (Cons f fs)
    have "length (slot_step t f sl) = t" using Cons.prems by (simp add: slot_step_def)
    from Cons.IH [OF this] Cons.prems assms show ?case
      by (auto simp: slot_step_def nth_list_update split: option.splits)
  qed (simp split: option.split)
  then show ?thesis using assms by (simp add: slots_of_def)
qed

lemma parseShard_eq:
  assumes "off + stride S \<le> length sect" "length sl = t"
  shows "parseShard sect t S off sl = Some (slot_step t (take (stride S) (drop off sect)) sl)"
proof -
  let ?f = "take (stride S) (drop off sect)"
  have st: "stride S = 6 + S" "rsShardHdrSize = 6" by (simp_all add: stride_def rsShardHdrSize_def)
  have "subslice sect off (off + 2) = Some (take 2 ?f)"
    "subslice sect (off + 2) (off + 6) = Some (take 4 (drop 2 ?f))"
    "subslice sect (off + rsShardHdrSize) (off + (rsShardHdrSize + S)) = Some (frame_data ?f)"
    using assms(1) by (simp_all add: subslice_Some st frame_data_def drop_take min_def add.commute)
  moreover have "get_u16 (take 2 ?f) = Some (le_get (take 2 ?f))"
    "get_u32 (take 4 (drop 2 ?f)) = Some (le_get (take 4 (drop 2 ?f)))"
    using assms(1) by (simp_all add: get_u16_Some get_u32_Some st)
  ultimately show ?thesis
    using assms(2) by (auto simp: parseShard_def Let_def slot_step_def frame_ok_def frame_idx_def)
qed

lemma parseShardSection_eq:
  "parseShardSection sect t S =
    (let sl = slots_of t (pieces (stride S) (length sect div stride S) sect)
     in Some (sl, length (filter (\<lambda>s. s = None) sl)))"
proof -
  let ?n = "length sect div stride S"
  have "for_list (parseShard sect t S) (map (\<lambda>i. i * stride S) [0..<n]) sl
      = Some (fold (slot_step t) (pieces (stride S) n sect) sl)"
    if "n \<le> ?n" "length sl = t" for n sl
    using that(1)
  proof (induction n)
    case 0
    then show ?case by (simp add: pieces_def)
  next
    case (Suc n)
    have "Suc n * stride S \<le> ?n * stride S" using Suc.prems by (rule mult_le_mono1)
    also have "\<dots> \<le> length sect" by simp
    finally have le: "n * stride S + stride S \<le> length sect" by simp
    have "length (fold (slot_step t) xs sl) = t" for xs
    proof -
      have "length (fold (slot_step t) xs sl) = length sl" for sl
        by (induction xs arbitrary: sl) (simp_all add: slot_step_def)
      then show ?thesis using that(2) by simp
    qed
    from parseShard_eq [OF le this] Suc show ?case by (simp add: for_list_append pieces_def)
  qed
  from this [OF order_refl, of "replicate t None"] show ?thesis
    by (simp add: parseShardSection_def range_le_from_0 slots_of_def Let_def flip: stride_def)
qed

section \<open>Recovery through Reconstruct\<close>

text \<open>
  The erasure code itself, for one geometry and shards that are not empty (the library refuses
  empty ones with ErrShardNoData, and the code never passes any): Encode keeps the data shards,
  and Reconstruct fills up to \<open>K\<close> missing shards of its output.
\<close>

definition rs_contract :: "rs_lib \<Rightarrow> nat \<Rightarrow> nat \<Rightarrow> bool" where
  "rs_contract rs N K \<longleftrightarrow> rs_new rs N K
     \<and> (\<forall>xs S. 0 < S \<longrightarrow> length xs = N + K \<longrightarrow> (\<forall>x\<in>set xs. length x = S) \<longrightarrow>
          (\<exists>ys. rs_encode rs N K xs = Some ys \<and> take N ys = take N xs
             \<and> (\<forall>es. length es = N + K \<longrightarrow> (\<forall>i<N + K. es ! i = None \<or> es ! i = Some (ys ! i))
                  \<longrightarrow> length (filter (\<lambda>e. e = None) es) \<le> K
                  \<longrightarrow> rs_reconstruct rs N K es = (True, map Some ys))))"

text \<open>The shards of a device: the zero-padded payload in N pieces, and what Encode makes of it.\<close>

definition encoded :: "rs_lib \<Rightarrow> nat \<Rightarrow> nat \<Rightarrow> nat \<Rightarrow> bytes \<Rightarrow> bytes list" where
  "encoded rs N K S p = the (rs_encode rs N K (data_shards N S p @ zero_parity K S))"

lemma encoded_facts:
  assumes "rs_contract rs N K" "rs_shape rs" "length p \<le> N * S" "p \<noteq> []"
  shows "rs_new rs N K"
    "rs_encode rs N K (data_shards N S p @ zero_parity K S) = Some (encoded rs N K S p)"
    "length (encoded rs N K S p) = N + K" "\<forall>y\<in>set (encoded rs N K S p). length y = S"
    "take N (encoded rs N K S p) = data_shards N S p"
    "length es = N + K \<Longrightarrow> (\<And>i. i < N + K \<Longrightarrow> es ! i = None \<or> es ! i = Some (encoded rs N K S p ! i))
     \<Longrightarrow> length (filter (\<lambda>e. e = None) es) \<le> K
     \<Longrightarrow> rs_reconstruct rs N K es = (True, map Some (encoded rs N K S p))"
proof -
  note dl = data_shards_length [OF assms(3)]
  have S: "0 < S" using assms(3,4) by (cases S) simp_all
  have l: "length (data_shards N S p @ zero_parity K S) = N + K"
    "\<forall>x\<in>set (data_shards N S p @ zero_parity K S). length x = S"
    using dl by (auto simp: zero_parity_def)
  show "rs_new rs N K" using assms(1) by (simp add: rs_contract_def)
  obtain ys where ys: "rs_encode rs N K (data_shards N S p @ zero_parity K S) = Some ys"
      "take N ys = take N (data_shards N S p @ zero_parity K S)"
      "\<forall>es. length es = N + K \<longrightarrow> (\<forall>i<N + K. es ! i = None \<or> es ! i = Some (ys ! i))
        \<longrightarrow> length (filter (\<lambda>e. e = None) es) \<le> K \<longrightarrow> rs_reconstruct rs N K es = (True, map Some ys)"
    using assms(1) l S unfolding rs_contract_def by blast
  then have e: "encoded rs N K S p = ys" by (simp add: encoded_def)
  show enc: "rs_encode rs N K (data_shards N S p @ zero_parity K S) = Some (encoded rs N K S p)"
    using ys(1) e by simp
  show "length (encoded rs N K S p) = N + K" "\<forall>y\<in>set (encoded rs N K S p). length y = S"
    using encode_lengths [OF assms(2,3) enc] by simp_all
  show "take N (encoded rs N K S p) = data_shards N S p" using ys(2) e dl by simp
  show "length es = N + K \<Longrightarrow> (\<And>i. i < N + K \<Longrightarrow> es ! i = None \<or> es ! i = Some (encoded rs N K S p ! i))
     \<Longrightarrow> length (filter (\<lambda>e. e = None) es) \<le> K
     \<Longrightarrow> rs_reconstruct rs N K es = (True, map Some (encoded rs N K S p))"
    using ys(3) unfolding e by blast
qed

lemma concat_data_shards: "length p \<le> N * S \<Longrightarrow> concat (data_shards N S p) = padded N S p"
  by (simp add: data_shards_def concat_pieces length_padded)

text \<open>The frames present carry the right data, and at most K slots stay empty.\<close>

definition sound_frames :: "nat \<Rightarrow> bytes list \<Rightarrow> bytes list \<Rightarrow> bool" where
  "sound_frames t enc fs \<longleftrightarrow>
     (\<forall>f\<in>set fs. frame_ok f \<and> frame_idx f < t \<longrightarrow> frame_data f = enc ! frame_idx f)"

definition lost_shards :: "nat \<Rightarrow> bytes list \<Rightarrow> nat set" where
  "lost_shards t fs = {j. j < t \<and> \<not> (\<exists>f\<in>set fs. frame_ok f \<and> frame_idx f = j)}"

lemma sound_slots:
  assumes "sound_frames t enc fs"
  shows "j < t \<Longrightarrow> slots_of t fs ! j = (if j \<in> lost_shards t fs then None else Some (enc ! j))"
    and "length (filter (\<lambda>e. e = None) (slots_of t fs)) = card (lost_shards t fs)"
proof -
  show *: "slots_of t fs ! j = (if j \<in> lost_shards t fs then None else Some (enc ! j))" if j: "j < t" for j
  proof (cases "find (\<lambda>f. frame_ok f \<and> frame_idx f = j) fs")
    case None
    then show ?thesis using j by (auto simp: slots_of_nth lost_shards_def find_None_iff)
  next
    case (Some f)
    then have "f \<in> set fs" "frame_ok f" "frame_idx f = j" by (auto dest: find_SomeD)
    then have "j \<notin> lost_shards t fs" "frame_data f = enc ! j"
      using assms j by (auto simp: lost_shards_def sound_frames_def)
    then show ?thesis using Some j by (simp add: slots_of_nth)
  qed
  have "{i. i < length (slots_of t fs) \<and> slots_of t fs ! i = None} = lost_shards t fs"
    using * by (auto simp: lost_shards_def split: if_splits)
  then show "length (filter (\<lambda>e. e = None) (slots_of t fs)) = card (lost_shards t fs)"
    by (simp add: length_filter_conv_card)
qed

lemma deserializeRS_recovers:
  assumes parse: "parseRSMeta (m @ sect) bc
      = Some (Inr \<lparr>g_dataShards = N, g_parityShards = K, g_shardSize = S, g_payloadLen = length p\<rparr>)"
    and "length m = rsMetaSize" "p \<noteq> []" "length p \<le> N * S"
    and rs: "rs_contract rs N K" "rs_shape rs"
    and fs: "fs = pieces (stride S) (length sect div stride S) sect"
    and sound: "sound_frames (N + K) (encoded rs N K S p) fs" "card (lost_shards (N + K) fs) \<le> K"
  shows "deserializeRS rs (m @ sect) bc bs = map_option Inr (applyRecords p TierL1 bc bs)"
proof -
  note e = encoded_facts [OF rs assms(4,3)]
  let ?enc = "encoded rs N K S p"
  let ?sl = "slots_of (N + K) fs"
  have sect: "subslice (m @ sect) rsMetaSize (length (m @ sect)) = Some sect"
    using assms(2) by (simp add: subslice_Some)
  have ps: "parseShardSection sect (N + K) S = Some (?sl, card (lost_shards (N + K) fs))"
    by (simp only: parseShardSection_eq fs [symmetric] Let_def sound_slots(2) [OF sound(1)])
  have rec: "rs_reconstruct rs N K ?sl = (True, map Some ?enc)"
    using sound_slots [OF sound(1)] sound(2) by (intro e(6)) auto
  have "map (\<lambda>i. case map Some ?enc ! i of Some x \<Rightarrow> x | None \<Rightarrow> []) [0..<N] = take N ?enc"
    using e(3) by (intro nth_equalityI) simp_all
  then have pay: "concat (map (\<lambda>i. case map Some ?enc ! i of Some x \<Rightarrow> x | None \<Rightarrow> []) [0..<N]) = padded N S p"
    using e(5) assms(4) by (simp add: concat_data_shards)
  have cut: "subslice (padded N S p) 0 (length p) = Some p"
    by (simp add: subslice_Some padded_def)
  have mo: "map_option Inr x = Option.bind x (\<lambda>r. Some (Inr r))" for x :: "'x option"
    by (cases x) simp_all
  have ln: "\<not> length (map Some ?enc) < N" "length p \<noteq> 0" using e(3) assms(3) by simp_all
  show ?thesis
    unfolding deserializeRS_def parse bind.bind_lunit sum.case Let_def rsGeometry.simps if_not_P [OF ln(2)]
      sect ps prod.case if_P [OF sound(2)] rec if_not_P [OF ln(1)] pay cut mo
    using e(1) by simp
qed

end
