(* ===== verification/Damage.thy ===== *)
theory Damage
  imports RecordTiers
begin

text \<open>
  Damaged blobs of the record tiers: one record overwritten by bytes that fail their check,
  one byte of the body changed, one byte of the header changed. The lemmas compute what
  Deserialize returns in each case; the last section states the properties of the record
  tiers over the blobs SerializeTier writes.
\<close>

section \<open>One record replaced by bytes that fail their CRC\<close>

lemma overlay_of_filter: "overlay_of ok k (filter ok rs) = overlay_of ok k rs"
  by (induction rs rule: rev_induct) (simp_all add: apply_rec_def)

lemma filter_one_bad:
  assumes "\<And>x. x \<in> set xs \<Longrightarrow> P x" "\<not> P r" "j < length xs"
  shows "filter P (xs[j := r]) = take j xs @ drop (Suc j) xs"
    "filter (\<lambda>x. \<not> P x) (xs[j := r]) = [r]"
proof -
  have u: "xs[j := r] = take j xs @ r # drop (Suc j) xs" using assms(3) by (rule upd_conv_take_nth_drop)
  have "filter P (take j xs) = take j xs" "filter P (drop (Suc j) xs) = drop (Suc j) xs"
    "filter (\<lambda>x. \<not> P x) (take j xs) = []" "filter (\<lambda>x. \<not> P x) (drop (Suc j) xs) = []"
    using assms(1) by (auto simp: filter_id_conv filter_empty_conv dest: in_set_takeD in_set_dropD)
  then show "filter P (xs[j := r]) = take j xs @ drop (Suc j) xs"
    "filter (\<lambda>x. \<not> P x) (xs[j := r]) = [r]"
    using assms(2) by (simp_all add: u)
qed

lemma set_without_nth:
  assumes "distinct ks" "j < length ks"
  shows "set (take j ks @ drop (Suc j) ks) = set ks - {ks ! j}"
proof -
  have k: "ks = take j ks @ ks ! j # drop (Suc j) ks" using assms(2) by (rule id_take_nth_drop)
  then have "distinct (take j ks @ ks ! j # drop (Suc j) ks)" using assms(1) by simp
  then have "ks ! j \<notin> set (take j ks @ drop (Suc j) ks)" by simp
  moreover have "set ks = insert (ks ! j) (set (take j ks @ drop (Suc j) ks))"
    by (subst k) (simp add: insert_commute)
  ultimately show ?thesis by auto
qed

definition damaged_blob :: "device \<Rightarrow> int list \<Rightarrow> nat \<Rightarrow> bytes \<Rightarrow> bytes" where
  "damaged_blob d ks j r =
     header TierL1 (length ks) @ concat ((dump (enc_record True) (dirty d) ks)[j := r])"

lemma damaged_record_decodes:
  assumes "fits True d ks" "distinct ks" "set ks = Mapping.keys (dirty d)" "j < length ks"
    and "length r = l1RecordSize" "\<not> crc_ok r"
    and m: "m = restrict_overlay (dirty d) (Mapping.keys (dirty d) - {ks ! j})"
  shows "Deserialize rs (damaged_blob d ks j r) (base d) = Some (Inr (d\<lparr>dirty := m\<rparr>,
    if explained (nblocks (base d)) m \<lparr>s_idx = rec_idx r, s_data = rec_data r\<rparr> then None
    else Some \<lparr>BadBlocks = [], Truncated = True\<rparr>))"
proof -
  note f = fits_facts [OF assms(1)]
  let ?t = "tier_of True" and ?k = "nblocks (base d)" and ?bc = "of_nat (length ks) :: uint64"
  let ?xs = "dump (enc_record True) (dirty d) ks"
  let ?ys = "?xs[j := r]"
  let ?ks = "take j ks @ drop (Suc j) ks"
  let ?body = "concat ?ys"
  have t: "?t = TierL1" by (simp add: tier_of_def)
  have sz: "enc_size True = l1RecordSize" by (simp add: enc_size_def)
  have xl: "length ?xs = length ks" by (simp add: dump_def)
  have len: "length x = l1RecordSize" if "x \<in> set ?ys" for x
    using rt.dump_length [OF f(2,4), where c = True] that assms(5) set_update_subset_insert [of ?xs j r]
    by (auto simp: sz)
  have lb: "length ?body = length ks * l1RecordSize"
    using length_concat_blocks [of ?ys l1RecordSize] len xl by simp
  have rc: "rec_count TierL1 ?body ?bc = length ks"
    by (simp add: rec_count_def f(7) lb)
  have rl: "rec_list TierL1 ?body ?bc = ?ys"
    using pieces_concat [of ?ys l1RecordSize "length ks" "[]"] len xl
    by (simp add: rec_list_def rc)
  have ok: "crc_ok x" if "x \<in> set ?xs" for x
    using rt.dump_records(1) [OF f(2,3,4) that] by (simp add: t)
  have fl: "filter crc_ok ?ys = dump (enc_record True) (dirty d) ?ks"
    "filter (\<lambda>x. \<not> crc_ok x) ?ys = [r]"
    using filter_one_bad [of ?xs crc_ok r j, OF ok assms(6)] assms(4) xl
    by (simp_all add: dump_def take_map drop_map)
  have ks: "set ?ks \<subseteq> set ks" by (auto dest: in_set_takeD in_set_dropD)
  have ov: "body_overlay TierL1 ?k ?body ?bc = m"
    using overlay_of_dump_restrict [OF assms(1) ks] set_without_nth [OF assms(2,4)]
    by (simp add: body_overlay_def rl m assms(3) t fl(1) flip: overlay_of_filter [of crc_ok ?k ?ys])
  have st: "\<not> stray crc_ok ?k ?ys"
  proof -
    have "stray crc_ok ?k ?ys = stray crc_ok ?k (filter crc_ok ?ys)" by (auto simp: stray_def)
    then show ?thesis using dump_clean_fits(2) [OF assms(1) ks] by (simp add: fl t)
  qed
  have ex: "exact_body TierL1 ?body ?bc" "\<not> cut_short TierL1 ?body ?bc"
    by (simp_all add: exact_body_def cut_short_def f(7) lb)
  have "named_loss TierL1 ?k ?body ?bc = []" using ex by (simp add: named_loss_def tail_named_def)
  moreover have "unnamed_loss TierL1 ?k ?body ?bc \<longleftrightarrow>
      \<not> explained ?k m \<lparr>s_idx = rec_idx r, s_data = rec_data r\<rparr>"
    using ex st by (simp add: unnamed_loss_def rl ov skipped_of_def fl)
  moreover have "int (length ?body) < 2 ^ 63" using f(5,6) by (simp only: lb sz)
  moreover have "d\<lparr>dirty := m\<rparr> = \<lparr>base = base d, dirty = m\<rparr>" by simp
  ultimately show ?thesis
    using f(1) Deserialize_record_tier [of "base d" ?body rs True "length ks"]
    by (simp add: damaged_blob_def t Let_def ov report_def)
qed

section \<open>One byte changed\<close>

lemma crc_ok_flip:
  assumes "crc_ok r" "length r = l1RecordSize" "i < l1RecordSize" "y \<noteq> r ! i"
  shows "\<not> crc_ok (r[i := y])"
  using checksum_field_flip [of "8 + BlockSize" r i y] assms
  by (simp add: crc_ok_def l1RecordSize_def)

text \<open>The index and the data of a record with one byte changed.\<close>

lemma flip_fields:
  assumes "length r = l1RecordSize" "i < l1RecordSize" "y \<noteq> r ! i"
  shows "8 \<le> i \<Longrightarrow> rec_idx (r[i := y]) = rec_idx r"
    and "i < 8 \<Longrightarrow> rec_idx (r[i := y]) \<noteq> rec_idx r \<and> rec_data (r[i := y]) = rec_data r"
proof -
  show "rec_idx (r[i := y]) = rec_idx r" if "8 \<le> i" using that by (simp add: rec_idx_def)
  show "rec_idx (r[i := y]) \<noteq> rec_idx r \<and> rec_data (r[i := y]) = rec_data r" if i: "i < 8"
  proof
    have l: "8 \<le> length r" using assms(1) by (simp add: l1RecordSize_def)
    have "take 8 (r[i := y]) \<noteq> take 8 r"
      using assms(3) i l by (metis length_list_update nth_list_update_eq nth_take order.strict_trans2)
    then have "(le_get (take 8 (r[i := y])) :: uint64) \<noteq> le_get (take 8 r)"
      using l by (subst le_get_inj) simp_all
    then show "rec_idx (r[i := y]) \<noteq> rec_idx r" 
      by (auto simp: rec_idx_def dest: arg_cong [where f = "word_of_int :: int \<Rightarrow> uint64"])
    show "rec_data (r[i := y]) = rec_data r" using i by (simp add: rec_data_def)
  qed
qed

lemma flip_is_damage:
  assumes "fits True d ks" "headerSize \<le> p" "p < length (record_blob True d ks)"
    and "j = (p - headerSize) div l1RecordSize" "i = (p - headerSize) mod l1RecordSize"
  shows "j < length ks"
    and "(record_blob True d ks)[p := y]
       = damaged_blob d ks j ((dump (enc_record True) (dirty d) ks ! j)[i := y])"
proof -
  note f = fits_facts [OF assms(1)]
  let ?xs = "dump (enc_record True) (dirty d) ks"
  have sz: "enc_size True = l1RecordSize" by (simp add: enc_size_def)
  have xl: "length ?xs = length ks" by (simp add: dump_def)
  have pl: "p - headerSize < length ks * l1RecordSize"
    using assms(2,3) f(5) by (simp add: record_blob_def sz)
  then show "j < length ks" by (simp add: assms(4) less_mult_imp_div_less)
  have "(concat ?xs)[p - headerSize := y] = concat (?xs[j := (?xs ! j)[i := y]])"
    unfolding assms(4,5) using rt.dump_length [OF f(2,4), where c = True] pl
    by (intro concat_list_update) (auto simp: sz xl)
  then show "(record_blob True d ks)[p := y] = damaged_blob d ks j ((?xs ! j)[i := y])"
    using assms(2) by (simp add: record_blob_def damaged_blob_def records_bytes_def tier_of_def
        list_update_append)
qed

lemma lookup_delete_if: "Mapping.lookup (Mapping.delete k m) i = (if i = k then None else Mapping.lookup m i)"
  by (auto simp: lookup_delete lookup_delete_neq)

lemma restrict_delete: "restrict_overlay m (Mapping.keys m - {i}) = Mapping.delete i m"
  by (rule mapping_eqI) (auto simp: lookup_restrict_overlay lookup_delete_if keys_dom_lookup)

lemma explained_other:
  assumes "explained k (Mapping.delete i m) \<lparr>s_idx = x, s_data = b\<rparr>"
  shows "x \<noteq> i" "Mapping.lookup m x = Some b"
  using assms by (auto simp: explained_def lookup_delete_if split: if_splits)

lemma flipped_byte_decodes:
  assumes "fits True d ks" "distinct ks" "set ks = Mapping.keys (dirty d)"
    and "headerSize \<le> p" "p < length (record_blob True d ks)" "y \<noteq> record_blob True d ks ! p"
    and j: "j = (p - headerSize) div l1RecordSize" and i: "i = (p - headerSize) mod l1RecordSize"
  obtains err where
    "Deserialize rs ((record_blob True d ks)[p := y]) (base d)
       = Some (Inr (d\<lparr>dirty := Mapping.delete (ks ! j) (dirty d)\<rparr>, err))"
    "err = None \<or> err = Some \<lparr>BadBlocks = [], Truncated = True\<rparr>"
    "err = None \<Longrightarrow> i < 8 \<and> (\<exists>x. x \<noteq> ks ! j \<and> Mapping.lookup (dirty d) x = Mapping.lookup (dirty d) (ks ! j))"
proof -
  note fl = flip_is_damage(1) [OF assms(1,4,5) j i] flip_is_damage(2) [OF assms(1,4,5) j i, of y]
  let ?r = "dump (enc_record True) (dirty d) ks ! j"
  let ?m = "Mapping.delete (ks ! j) (dirty d)"
  have sz: "enc_size True = l1RecordSize" by (simp add: enc_size_def)
  note r = dump_nth [OF assms(1) fl(1), unfolded sz]
  have ok: "crc_ok ?r" using r(2) by (simp add: tier_of_def)
  have il: "i < l1RecordSize" by (simp add: i)
  have ne: "y \<noteq> ?r ! i"
  proof
    assume "y = ?r ! i"
    then have "(record_blob True d ks)[p := y] = damaged_blob d ks j ?r" using fl(2) by simp
    also have "\<dots> = record_blob True d ks"
      by (simp add: damaged_blob_def record_blob_def records_bytes_def tier_of_def)
    finally show False using assms(5,6) by (metis nth_list_update_eq)
  qed
  let ?s = "\<lparr>s_idx = rec_idx (?r[i := y]), s_data = rec_data (?r[i := y])\<rparr>"
  define err where "err = (if explained (nblocks (base d)) ?m ?s then None
    else Some \<lparr>BadBlocks = [], Truncated = True\<rparr>)"
  have "Deserialize rs ((record_blob True d ks)[p := y]) (base d) = Some (Inr (d\<lparr>dirty := ?m\<rparr>, err))"
    using damaged_record_decodes [OF assms(1-3) fl(1) _ crc_ok_flip [OF ok r(1) il ne] refl] r(1)
    by (simp add: fl(2) restrict_delete err_def)
  moreover have "i < 8 \<and> (\<exists>x. x \<noteq> ks ! j \<and> Mapping.lookup (dirty d) x = Mapping.lookup (dirty d) (ks ! j))"
    if "err = None"
  proof -
    have e: "explained (nblocks (base d)) ?m ?s" using that by (simp add: err_def split: if_splits)
    note o = explained_other [OF e]
    have "i < 8" using flip_fields(1) [OF r(1) il ne] r(3) o(1) by (cases "i < 8") auto
    moreover from flip_fields(2) [OF r(1) il ne this] o r(5)
    have "rec_idx (?r[i := y]) \<noteq> ks ! j
        \<and> Mapping.lookup (dirty d) (rec_idx (?r[i := y])) = Mapping.lookup (dirty d) (ks ! j)"
      by simp
    ultimately show ?thesis by blast
  qed
  ultimately show ?thesis by (intro that [of err]) (auto simp: err_def)
qed

section \<open>A damaged header\<close>

lemma headerless_decodes:
  assumes "fits True d ks" "set ks = Mapping.keys (dirty d)" "ks \<noteq> []" "length h = headerSize"
  shows "deserializeHeaderless (h @ records_bytes True d ks) (base d)
       = Some (Inr (d, Some \<lparr>BadBlocks = [], Truncated = True\<rparr>))"
proof -
  note f = fits_facts [OF assms(1)]
  let ?xs = "dump (enc_record True) (dirty d) ks"
  let ?k = "nblocks (base d)"
  have sz: "enc_size True = l1RecordSize" by (simp add: enc_size_def)
  have t: "tier_of True = TierL1" by (simp add: tier_of_def)
  have bl: "length (records_bytes True d ks) = length ks * l1RecordSize" using f(5) by (simp add: sz)
  have ps: "pieces l1RecordSize (length ks) (records_bytes True d ks) = ?xs"
    using rt.pieces_dump [OF f(2,4) order_refl, of True "[]"]
    by (simp add: records_bytes_def dump_def sz)
  have "salvageable ?k ?xs = ?xs"
    using rt.dump_records(1,2) [OF f(2,3,4), where c = True] by (auto simp: salvageable_def filter_id_conv t)
  moreover have "?xs \<noteq> []" using assms(3) by (simp add: dump_def)
  moreover have "overlay_of crc_ok ?k ?xs = dirty d"
    using rt.overlay_of_dump [OF f(2,3) assms(2), of True] by (simp add: t)
  moreover have "records_bytes True d ks \<noteq> []"
    using bl assms(3) by (metis l1RecordSize_pos(2) length_0_conv mult_is_0)
  moreover have "\<lparr>base = base d, dirty = dirty d\<rparr> = d" by simp
  ultimately show ?thesis
    using deserializeHeaderless_eq [OF f(1), of "h @ records_bytes True d ks"] assms(4) bl ps
    by (simp add: Let_def)
qed

lemma flipped_header_decodes:
  assumes "fits True d ks" "set ks = Mapping.keys (dirty d)" "ks \<noteq> []"
    and "p < headerSize" "y \<noteq> record_blob True d ks ! p"
  shows "Deserialize rs ((record_blob True d ks)[p := y]) (base d) =
    Some (if p < 5 \<or> p = 5 \<and> (y = TierL0 \<or> y = TierL2) then Inl ErrCorrupt
          else Inr (d, Some \<lparr>BadBlocks = [], Truncated = True\<rparr>))"
proof -
  let ?h = "header TierL1 (length ks)"
  let ?h' = "?h[p := y]"
  let ?body = "records_bytes True d ks"
  have blob: "record_blob True d ks = ?h @ ?body" by (simp add: record_blob_def tier_of_def)
  have blob': "(record_blob True d ks)[p := y] = ?h' @ ?body"
    using assms(4) by (simp add: blob list_update_append)
  have y: "y \<noteq> ?h ! p" using assms(4,5) by (simp add: blob nth_append)
  have p18: "p < 18" using assms(4) by (simp add: headerSize_def)
  have lh: "length ?h' = 18" by (simp add: headerSize_def)
  have al: "length (base d) mod BlockSize = 0"
    using fits_facts(1) [OF assms(1)] by (simp add: valid_base_def)
  have mag: "hdr_magic_ok (?h' @ ?body) \<longleftrightarrow> \<not> p < 5"
  proof
    assume "hdr_magic_ok (?h' @ ?body)"
    then have e: "take 4 ?h' = take 4 ?h" "?h' ! 4 = ?h ! 4"
      using header_fields(1) [of TierL1 "length ks" "[]"] lh
      by (simp_all add: hdr_magic_ok_def nth_append headerSize_def)
    show "\<not> p < 5"
    proof
      assume "p < 5"
      then have "?h' ! p = ?h ! p"
        using e p18 lh nth_take [of p 4 ?h'] nth_take [of p 4 ?h] by (cases "p = 4") simp_all
      then show False using y p18 by (simp add: headerSize_def)
    qed
  next
    assume "\<not> p < 5"
    then show "hdr_magic_ok (?h' @ ?body)"
      using header_fields(1) [of TierL1 "length ks" "[]"] lh
      by (simp add: hdr_magic_ok_def nth_append headerSize_def)
  qed
  have crc: "\<not> hdr_crc_ok (?h' @ ?body)"
    using checksum_field_flip [of 14 ?h p y] header_fields(2) [of TierL1 "length ks" "[]"] p18 y lh
    by (simp add: hdr_crc_ok_def headerSize_def)
  have t5: "(?h' @ ?body) ! 5 = (if p = 5 then y else TierL1)"
    using header_fields(3) [of TierL1 "length ks" "[]"] lh by (simp add: nth_append headerSize_def)
  have hl: "deserializeHeaderless (?h' @ ?body) (base d) = Some (Inr (d, Some \<lparr>BadBlocks = [], Truncated = True\<rparr>))"
    using headerless_decodes [OF assms(1-3), of ?h'] lh by (simp add: headerSize_def)
  have ty: "y = TierL0 \<or> y = TierL2 \<or> y = TierL1 \<or> y > TierL2"
    unfolding TierL0_def TierL1_def TierL2_def word_unat_eq_iff word_less_nat_alt by simp arith
  have n1: "p = 5 \<Longrightarrow> y \<noteq> TierL1" using y header_fields(3) [of TierL1 "length ks" "[]"] by simp
  have lt: "\<not> TierL0 > TierL2" "TierL0 \<noteq> TierL1" "\<not> TierL2 > TierL2" "TierL2 \<noteq> TierL1"
    by (simp_all add: TierL0_def TierL1_def TierL2_def)
  have hs: "headerSize \<le> length (?h' @ ?body)" by simp
  show ?thesis
    unfolding blob' Deserialize_eq [OF al hs]
    using ty n1 lt by (auto simp: mag crc t5 hl)
qed

end
