(* ===== verification/RecordTheorems.thy ===== *)
theory RecordTheorems
  imports Damage
begin

text \<open>
  The properties of the record tiers L0 and L1, over the blobs SerializeTier writes. Each is a
  few steps over the lemmas of RecordTiers and Damage; the witnesses use the sample device of
  theory Device.
\<close>

section \<open>The blob of a device\<close>

lemma length_record_blob:
  assumes "valid_device d" "set ks \<subseteq> Mapping.keys (dirty d)"
  shows "length (record_blob c d ks) = headerSize + length ks * enc_size c"
  using length_records_bytes [OF block_keys_valid [OF assms]] by (simp add: record_blob_def)

lemma record_tier_blob:
  assumes "valid_device d" "SerializeTier rs procs sched hsched d (tier_of c) = Some (Inr blob)"
    "length blob < 2 ^ 63"
  shows "blob = record_blob c d (sorted_keys d)" "fits c d (sorted_keys d)"
    "distinct (sorted_keys d)" "set (sorted_keys d) = Mapping.keys (dirty d)"
proof -
  note k = sorted_keys_facts [OF assms(1)]
  show b: "blob = record_blob c d (sorted_keys d)"
    using assms(2) SerializeTier_record_blob [OF assms(1)] by simp
  have "headerSize + length (sorted_keys d) * enc_size c < 2 ^ 63"
    using assms(3) length_record_blob [OF assms(1), of "sorted_keys d" c] k(1) by (simp add: b)
  then show "fits c d (sorted_keys d)" using assms(1) k(1) by (simp add: fits_def)
  show "distinct (sorted_keys d)" "set (sorted_keys d) = Mapping.keys (dirty d)" using k by simp_all
qed

lemma tier_cases:
  assumes "t = TierL0 \<or> t = TierL1"
  obtains c where "t = tier_of c" "(t = TierL1) = c"
  using assms by (metis tier_of_def TierL0_def TierL1_def zero_neq_one)

lemma sample_keys: "sorted_keys sample_device = [0]"
  by (simp add: sorted_keys_def)

lemma sample_blob:
  "SerializeTier rs procs sched hsched sample_device (tier_of c) = Some (Inr (record_blob c sample_device [0]))"
  "length (record_blob c sample_device [0]) = headerSize + enc_size c"
  "headerSize + enc_size c < 2 ^ 63"
proof -
  show "SerializeTier rs procs sched hsched sample_device (tier_of c) = Some (Inr (record_blob c sample_device [0]))"
    using SerializeTier_record_blob [OF sample_device_valid] by (simp add: sample_keys)
  show "length (record_blob c sample_device [0]) = headerSize + enc_size c"
    using length_record_blob [OF sample_device_valid, of "[0]"] by simp
  show "headerSize + enc_size c < 2 ^ 63"
    by (simp add: headerSize_def enc_size_def l0RecordSize_def l1RecordSize_def BlockSize_def)
qed

section \<open>Properties\<close>

text \<open>
  C14: SerializeTier at L0 and L1 returns, for every number of processors and every schedule of
  the writer goroutines, the header followed by one record per dirty block in ascending
  order of the index; in particular equal overlays give equal bytes.
\<close>

theorem SerializeTier_bytes:
  assumes "valid_device d" "t = TierL0 \<or> t = TierL1"
  shows "SerializeTier rs procs sched hsched d t = Some (Inr
    (header t (card (Mapping.keys (dirty d)))
     @ concat (map (\<lambda>i. enc_record (t = TierL1) i (the (Mapping.lookup (dirty d) i)))
         (sorted_list_of_set (Mapping.keys (dirty d))))))"
proof -
  obtain c where c: "t = tier_of c" "(t = TierL1) = c" using assms(2) by (rule tier_cases)
  note k = sorted_keys_facts [OF assms(1)]
  have "map (\<lambda>i. enc_record c i (Mapping.lookup_default [] (dirty d) i)) (sorted_keys d)
      = map (\<lambda>i. enc_record c i (the (Mapping.lookup (dirty d) i))) (sorted_keys d)"
    using k(1) by (auto simp: lookup_default_def keys_dom_lookup)
  then show ?thesis
    using SerializeTier_record_blob [OF assms(1), of rs procs sched hsched c] k(4) c
    by (simp add: record_blob_def records_bytes_def dump_def sorted_keys_def del: map_eq_conv)
qed

theorem SerializeTier_bytes_witness:
  "SerializeTier replica_rs 4 [1, 0] [] sample_device TierL1
     = Some (Inr (header TierL1 1 @ enc_record True 0 sample_block))"
  using SerializeTier_bytes [OF sample_device_valid, of TierL1 replica_rs 4 "[1, 0]" "[]"] by simp

text \<open>
  C28: round trip. A blob SerializeTier writes at L0 or L1 deserializes over the same base to the
  same device, overlay included, with no error, and this does not depend on the schedule.
\<close>

theorem record_tier_roundtrip:
  assumes "valid_device d" "t = TierL0 \<or> t = TierL1"
    and "SerializeTier rs procs sched hsched d t = Some (Inr blob)" "length blob < 2 ^ 63"
  shows "Deserialize rs' blob (base d) = Some (Inr (d, None))"
proof -
  obtain c where c: "t = tier_of c" using assms(2) by (rule tier_cases)
  note b = record_tier_blob [OF assms(1) assms(3)[unfolded c] assms(4)]
  show ?thesis unfolding b(1) by (rule record_blob_decodes [OF b(2,4)])
qed

theorem record_tier_roundtrip_witness:
  "\<exists>blob. SerializeTier replica_rs 8 [] [] sample_device TierL1 = Some (Inr blob)
    \<and> Deserialize replica_rs blob sample_base = Some (Inr (sample_device, None))"
proof -
  note s = sample_blob(1) [of replica_rs 8 "[]" "[]" True] sample_blob(2,3) [of True]
  have "Deserialize replica_rs (record_blob True sample_device [0]) (base sample_device)
      = Some (Inr (sample_device, None))"
    by (rule record_tier_roundtrip [OF sample_device_valid _ s(1)])
      (use s(2,3) in \<open>simp_all add: tier_of_def\<close>)
  then show ?thesis using s(1) by (simp add: tier_of_def)
qed

text \<open>
  C17: the decoder does not rely on the order of the records or on their being distinct: any
  list of keys that covers the overlay, written as records behind a header that counts them,
  deserializes to the device without an error.
\<close>

theorem records_in_any_order:
  assumes "valid_device d" "set ks = Mapping.keys (dirty d)"
    and "blob = header t (length ks)
        @ concat (map (\<lambda>i. enc_record (t = TierL1) i (the (Mapping.lookup (dirty d) i))) ks)"
    and "t = TierL0 \<or> t = TierL1" "length blob < 2 ^ 63"
  shows "Deserialize rs blob (base d) = Some (Inr (d, None))"
proof -
  obtain c where c: "t = tier_of c" "(t = TierL1) = c" using assms(4) by (rule tier_cases)
  have "map (\<lambda>i. enc_record c i (the (Mapping.lookup (dirty d) i))) ks
      = dump (enc_record c) (dirty d) ks"
    using assms(2) by (auto simp: dump_def lookup_default_def keys_dom_lookup)
  then have b: "blob = record_blob c d ks"
    unfolding assms(3) c by (simp add: record_blob_def records_bytes_def c(2)[unfolded c(1)])
  have "fits c d ks"
    using assms(1,2,5) length_record_blob [OF assms(1), of ks c] by (simp add: fits_def b)
  then show ?thesis unfolding b by (rule record_blob_decodes) fact
qed

theorem records_in_any_order_witness:
  "Deserialize replica_rs (header TierL0 2 @ enc_record False 0 sample_block
      @ enc_record False 0 sample_block) sample_base = Some (Inr (sample_device, None))"
proof -
  have "length (enc_record False 0 sample_block) = l0RecordSize"
    by (simp add: length_enc_record enc_size_def)
  then show ?thesis
    using records_in_any_order [OF sample_device_valid, of "[0, 0]" _ TierL0 replica_rs]
    by (simp add: TierL0_def TierL1_def headerSize_def l0RecordSize_def BlockSize_def flip: numeral_2_eq_2)
qed

text \<open>
  C16: a blob cut short anywhere behind its header deserializes to exactly the blocks of the
  records that are still complete, and is always reported: by the index of the record that was
  cut when its eight index bytes are there, else by the Truncated flag. The records behind the one
  that was cut are not named in either case.
\<close>

theorem truncated_blob:
  assumes "valid_device d" "t = TierL0 \<or> t = TierL1"
    and "SerializeTier rs procs sched hsched d t = Some (Inr blob)" "length blob < 2 ^ 63"
    and "headerSize \<le> n" "n < length blob"
    and "sz = (if t = TierL1 then l1RecordSize else l0RecordSize)"
    and "q = (n - headerSize) div sz" "r = (n - headerSize) mod sz"
    and "ks = sorted_list_of_set (Mapping.keys (dirty d))"
  shows "Deserialize rs' (take n blob) (base d) =
    Some (Inr (d\<lparr>dirty := Mapping.filter (\<lambda>i _. i \<in> set (take q ks)) (dirty d)\<rparr>,
      Some \<lparr>BadBlocks = (if 8 \<le> r then [ks ! q] else []), Truncated = r < 8\<rparr>))"
proof -
  obtain c where c: "t = tier_of c" "(t = TierL1) = c" using assms(2) by (rule tier_cases)
  note b = record_tier_blob [OF assms(1) assms(3)[unfolded c(1)] assms(4)]
  have sz: "sz = enc_size c" using assms(7) c(2) by (simp add: enc_size_def)
  have "ks = sorted_keys d" by (simp add: assms(10) sorted_keys_def)
  then show ?thesis
    using truncated_blob_decodes [OF b(2,3) assms(5) _ assms(8)[unfolded sz] assms(9)[unfolded sz]] assms(6)
    by (simp add: b(1) restrict_overlay_def)
qed

theorem truncated_blob_witness:
  "\<exists>blob. SerializeTier replica_rs 8 [] [] sample_device TierL1 = Some (Inr blob)
    \<and> Deserialize replica_rs (take (headerSize + 8) blob) sample_base
      = Some (Inr (sample_device\<lparr>dirty := Mapping.filter (\<lambda>i _. False) (dirty sample_device)\<rparr>,
          Some \<lparr>BadBlocks = [0], Truncated = False\<rparr>))"
proof -
  note s = sample_blob(1) [of replica_rs 8 "[]" "[]" True] sample_blob(2,3) [of True]
  have t: "tier_of True = TierL1" by (simp add: tier_of_def)
  have e: "enc_size True = l1RecordSize" by (simp add: enc_size_def)
  have l: "8 < l1RecordSize" by (simp add: l1RecordSize_def)
  have "Deserialize replica_rs (take (headerSize + 8) (record_blob True sample_device [0])) (base sample_device)
      = Some (Inr (sample_device\<lparr>dirty := Mapping.filter (\<lambda>i _. i \<in> set (take 0 [0])) (dirty sample_device)\<rparr>,
          Some \<lparr>BadBlocks = (if 8 \<le> (8::nat) then [[0] ! 0] else []), Truncated = 8 < (8::nat)\<rparr>))"
    by (rule truncated_blob [OF sample_device_valid _ s(1)[unfolded t], where sz = l1RecordSize])
      (use s(2,3) l in \<open>simp_all add: e\<close>)
  then show ?thesis using s(1) by (simp add: t)
qed

text \<open>
  C19: at L0 and L1, bytes appended to a blob are ignored for the content and always reported as
  Truncated. (At L2 bytes behind the shard section are ignored without a report: see the witness of
  rs_recovers.)
\<close>

theorem extended_blob:
  assumes "valid_device d" "t = TierL0 \<or> t = TierL1"
    and "SerializeTier rs procs sched hsched d t = Some (Inr blob)"
    and "junk \<noteq> []" "length (blob @ junk) < 2 ^ 63"
  shows "Deserialize rs' (blob @ junk) (base d)
       = Some (Inr (d, Some \<lparr>BadBlocks = [], Truncated = True\<rparr>))"
proof -
  obtain c where c: "t = tier_of c" using assms(2) by (rule tier_cases)
  have "length blob < 2 ^ 63" using assms(5) by simp
  note b = record_tier_blob [OF assms(1) assms(3)[unfolded c] this]
  show ?thesis using extended_blob_decodes [OF b(2,4) assms(4)] assms(5) by (simp add: b(1))
qed

theorem extended_blob_witness:
  "\<exists>blob. SerializeTier replica_rs 8 [] [] sample_device TierL1 = Some (Inr blob)
    \<and> Deserialize replica_rs (blob @ [0]) sample_base
      = Some (Inr (sample_device, Some \<lparr>BadBlocks = [], Truncated = True\<rparr>))"
proof -
  note s = sample_blob(1) [of replica_rs 8 "[]" "[]" True] sample_blob(2,3) [of True]
  have t: "tier_of True = TierL1" by (simp add: tier_of_def)
  have "length (record_blob True sample_device [0] @ [0]) < 2 ^ 63"
    using s(2) by (simp add: headerSize_def enc_size_def l1RecordSize_def BlockSize_def)
  with extended_blob [OF sample_device_valid _ s(1)[unfolded t], of "[0]" replica_rs]
  show ?thesis using s(1) by (simp add: t)
qed

text \<open>
  C8: changing any one byte behind the header of an L1 blob loses exactly the block of the
  record it lies in, every other block is kept, and the loss is reported as Truncated except in
  the window the documentation states: the byte is in the index field, and another block of
  the overlay has the same content.
\<close>

theorem flipped_body_byte:
  assumes "valid_device d" "SerializeTier rs procs sched hsched d TierL1 = Some (Inr blob)"
    and "length blob < 2 ^ 63" "headerSize \<le> p" "p < length blob" "y \<noteq> blob ! p"
    and i: "i = sorted_list_of_set (Mapping.keys (dirty d)) ! ((p - headerSize) div l1RecordSize)"
  shows "\<exists>err. Deserialize rs' (blob[p := y]) (base d)
      = Some (Inr (d\<lparr>dirty := Mapping.delete i (dirty d)\<rparr>, err))
    \<and> (err = Some \<lparr>BadBlocks = [], Truncated = True\<rparr>
       \<or> err = None \<and> (p - headerSize) mod l1RecordSize < 8
         \<and> (\<exists>x. x \<noteq> i \<and> Mapping.lookup (dirty d) x = Mapping.lookup (dirty d) i))"
proof -
  have "TierL1 = tier_of True" by (simp add: tier_of_def)
  note b = record_tier_blob [OF assms(1) assms(2)[unfolded this] assms(3)]
  obtain err where "Deserialize rs' (blob[p := y]) (base d)
      = Some (Inr (d\<lparr>dirty := Mapping.delete i (dirty d)\<rparr>, err))"
    "err = None \<or> err = Some \<lparr>BadBlocks = [], Truncated = True\<rparr>"
    "err = None \<Longrightarrow> (p - headerSize) mod l1RecordSize < 8
      \<and> (\<exists>x. x \<noteq> i \<and> Mapping.lookup (dirty d) x = Mapping.lookup (dirty d) i)"
    using flipped_byte_decodes [OF b(2-4) assms(4) assms(5)[unfolded b(1)] assms(6)[unfolded b(1)] refl refl]
    unfolding b(1) i sorted_keys_def by blast
  then show ?thesis by blast
qed

theorem flipped_body_byte_witness:
  "\<exists>blob err. SerializeTier replica_rs 8 [] [] sample_device TierL1 = Some (Inr blob)
    \<and> Deserialize replica_rs (blob[headerSize + 8 := blob ! (headerSize + 8) + 1]) sample_base
      = Some (Inr (sample_device\<lparr>dirty := Mapping.delete 0 (dirty sample_device)\<rparr>, err))
    \<and> err \<noteq> None"
proof -
  note s = sample_blob(1) [of replica_rs 8 "[]" "[]" True] sample_blob(2,3) [of True]
  let ?b = "record_blob True sample_device [0]"
  have t: "tier_of True = TierL1" by (simp add: tier_of_def)
  have l: "8 < l1RecordSize" "l1RecordSize = enc_size True"
    by (simp_all add: l1RecordSize_def enc_size_def)
  have "\<exists>err. Deserialize replica_rs (?b[headerSize + 8 := ?b ! (headerSize + 8) + 1]) (base sample_device)
      = Some (Inr (sample_device\<lparr>dirty := Mapping.delete 0 (dirty sample_device)\<rparr>, err))
    \<and> (err = Some \<lparr>BadBlocks = [], Truncated = True\<rparr>
       \<or> err = None \<and> (headerSize + 8 - headerSize) mod l1RecordSize < 8
         \<and> (\<exists>x. x \<noteq> 0 \<and> Mapping.lookup (dirty sample_device) x = Mapping.lookup (dirty sample_device) 0))"
    by (rule flipped_body_byte [OF sample_device_valid s(1)[unfolded t]])
      (use s(2,3) l in simp_all)
  then show ?thesis using s(1) by (auto simp: t)
qed

text \<open>
  C18: changing any one byte of the header of an L1 blob with at least one record: in the magic,
  in the version, or turning the tier byte into another known tier, the blob is rejected;
  anywhere else the fallback scan recovers the whole overlay and reports Truncated.
\<close>

theorem flipped_header_byte:
  assumes "valid_device d" "SerializeTier rs procs sched hsched d TierL1 = Some (Inr blob)"
    and "length blob < 2 ^ 63" "dirty d \<noteq> Mapping.empty" "p < headerSize" "y \<noteq> blob ! p"
  shows "Deserialize rs' (blob[p := y]) (base d) =
    Some (if p < 5 \<or> p = 5 \<and> (y = TierL0 \<or> y = TierL2) then Inl ErrCorrupt
          else Inr (d, Some \<lparr>BadBlocks = [], Truncated = True\<rparr>))"
proof -
  have "TierL1 = tier_of True" by (simp add: tier_of_def)
  note b = record_tier_blob [OF assms(1) assms(2)[unfolded this] assms(3)]
  have "Mapping.keys (dirty d) \<noteq> {}"
  proof
    assume "Mapping.keys (dirty d) = {}"
    then have "dirty d = Mapping.empty" by (intro mapping_eqI) (auto simp: keys_dom_lookup)
    then show False using assms(4) by simp
  qed
  then have "sorted_keys d \<noteq> []" using b(4) by auto
  then show ?thesis unfolding b(1)
    by (rule flipped_header_decodes [OF b(2,4) _ assms(5) assms(6)[unfolded b(1)]])
qed

theorem flipped_header_byte_witness:
  "\<exists>blob. SerializeTier replica_rs 8 [] [] sample_device TierL1 = Some (Inr blob)
    \<and> Deserialize replica_rs (blob[17 := blob ! 17 + 1]) sample_base
      = Some (Inr (sample_device, Some \<lparr>BadBlocks = [], Truncated = True\<rparr>))"
proof -
  note s = sample_blob(1) [of replica_rs 8 "[]" "[]" True] sample_blob(2,3) [of True]
  let ?b = "record_blob True sample_device [0]"
  have t: "tier_of True = TierL1" by (simp add: tier_of_def)
  have "dirty sample_device \<noteq> Mapping.empty"
  proof
    assume "dirty sample_device = Mapping.empty"
    then have "Mapping.keys (dirty sample_device) = {}" by simp
    then show False by simp
  qed
  then have "Deserialize replica_rs (?b[17 := ?b ! 17 + 1]) (base sample_device)
      = Some (if (17::nat) < 5 \<or> (17::nat) = 5 \<and> (?b ! 17 + 1 = TierL0 \<or> ?b ! 17 + 1 = TierL2)
          then Inl ErrCorrupt else Inr (sample_device, Some \<lparr>BadBlocks = [], Truncated = True\<rparr>))"
    by (intro flipped_header_byte [OF sample_device_valid s(1)[unfolded t]])
      (use s(2,3) in \<open>simp_all add: headerSize_def\<close>)
  then show ?thesis using s(1) by (simp add: t)
qed

end
