(* ===== verification/RSTheorems.thy ===== *)
theory RSTheorems
  imports RSDecode RecordTheorems
begin

text \<open>
  The Reed-Solomon tier end to end: the frames SerializeRS writes, the decoding of a blob whose
  shard section still carries enough sound frames, and the properties of the tier.
\<close>

section \<open>Frames\<close>

lemma frame_fields:
  assumes "i < 2 ^ 16"
  shows "frame_idx (frame_hdr i s @ x) = i" "frame_data (frame_hdr i s @ x) = x"
    "frame_ok (frame_hdr i s @ s)"
  using assms
  by (simp_all add: frame_idx_def frame_data_def frame_ok_def frame_hdr_def rsShardHdrSize_def
      unat_of_nat take_bit_nat_eq_self_iff)

lemma frames_nth: "i < length ss \<Longrightarrow> frames ss ! i = frame_hdr i (ss ! i) @ ss ! i"
  by (simp add: frames_def)

lemma length_frames [simp]: "length (frames ss) = length ss"
  by (simp add: frames_def)

lemma frame_length: "\<forall>y\<in>set ss. length y = S \<Longrightarrow> f \<in> set (frames ss) \<Longrightarrow> length f = stride S"
  by (auto simp: frames_def stride_def)

text \<open>
  A list of frames in which frame \<open>i\<close> is the written one or does not verify: it is sound, and the
  lost shards are among the frames changed.
\<close>

lemma changed_frames:
  assumes "length fs = length enc" "length enc \<le> 64"
    and "\<And>i. i < length enc \<Longrightarrow> fs ! i = frames enc ! i \<or> i \<in> B \<and> \<not> frame_ok (fs ! i)"
  shows "sound_frames (length enc) enc fs" "lost_shards (length enc) fs \<subseteq> B"
proof -
  have ix: "frame_idx (frames enc ! i) = i \<and> frame_ok (frames enc ! i) \<and> frame_data (frames enc ! i) = enc ! i"
    if "i < length enc" for i
    using that assms(2) frame_fields [of i "enc ! i"] by (simp add: frames_nth)
  show "sound_frames (length enc) enc fs"
    unfolding sound_frames_def
  proof (intro ballI impI)
    fix f assume "f \<in> set fs" and f: "frame_ok f \<and> frame_idx f < length enc"
    then obtain i where i: "i < length enc" "f = fs ! i" using assms(1) by (auto simp: in_set_conv_nth)
    then have "f = frames enc ! i" using assms(3) [OF i(1)] f by auto
    then show "frame_data f = enc ! frame_idx f" using ix [OF i(1)] by simp
  qed
  show "lost_shards (length enc) fs \<subseteq> B"
  proof
    fix j assume j: "j \<in> lost_shards (length enc) fs"
    then have jl: "j < length enc" by (simp add: lost_shards_def)
    then have m: "fs ! j \<in> set fs" using assms(1) by simp
    show "j \<in> B"
    proof (rule ccontr)
      assume "j \<notin> B"
      then have "fs ! j = frames enc ! j" using assms(3) [OF jl] by auto
      then show False using ix [OF jl] m j by (auto simp: lost_shards_def)
    qed
  qed
qed

lemma frames_sound:
  assumes "length enc \<le> 64"
  shows "sound_frames (length enc) enc (frames enc)" "lost_shards (length enc) (frames enc) = {}"
  using changed_frames [of "frames enc" enc "{}"] assms by auto

text \<open>Enough slots filled means enough frames present.\<close>

lemma enough_frames:
  assumes "card (lost_shards (N + K) fs) \<le> K"
  shows "N \<le> length fs"
proof -
  have "{..<N + K} - lost_shards (N + K) fs \<subseteq> frame_idx ` set fs"
    by (auto simp: lost_shards_def)
  then have "card ({..<N + K} - lost_shards (N + K) fs) \<le> card (frame_idx ` set fs)"
    by (intro card_mono) simp_all
  also have "\<dots> \<le> length fs" by (meson card_image_le card_length finite_set le_trans)
  finally have "card ({..<N + K} - lost_shards (N + K) fs) \<le> length fs" .
  moreover have "lost_shards (N + K) fs \<subseteq> {..<N + K}" by (auto simp: lost_shards_def)
  then have "card ({..<N + K} - lost_shards (N + K) fs) = N + K - card (lost_shards (N + K) fs)"
    by (simp add: card_Diff_subset finite_subset)
  ultimately show ?thesis using assms by linarith
qed

section \<open>Decoding a blob with enough sound frames\<close>

lemma geometry_slack:
  assumes "geometry_ok N K p" "N \<le> m" "m * stride S \<le> len"
  shows "(N + K) * stride S \<le> 4 * (rsMetaSize + len)"
proof -
  have "N + K \<le> 4 * N" using assms(1) by (auto simp: geometry_ok_def)
  also have "\<dots> \<le> 4 * m" using assms(2) by simp
  finally have "(N + K) * stride S \<le> (4 * m) * stride S" by (rule mult_le_mono1)
  also have "(4 * m) * stride S = 4 * (m * stride S)" by simp
  also have "\<dots> \<le> 4 * (rsMetaSize + len)" using assms(3) by simp
  finally show ?thesis .
qed

lemma payload_fits:
  assumes "valid_device d" "length (payload_of d) < 2 ^ 62"
  shows "fits True d (sorted_keys d)"
proof -
  note k = sorted_keys_facts [OF assms(1)]
  have "length (sorted_keys d) * enc_size True < 2 ^ 62"
    using assms payload_of_length [OF assms(1)] k(4) by (simp add: enc_size_True)
  then show ?thesis using assms(1) k(1) by (simp add: fits_def headerSize_def)
qed

lemma payload_applies:
  assumes "valid_device d" "length (payload_of d) < 2 ^ 62"
  shows "applyRecords (payload_of d) TierL1 (of_nat (card (Mapping.keys (dirty d)))) (base d) = Some (d, None)"
  using records_apply [OF payload_fits [OF assms]] sorted_keys_facts [OF assms(1)]
  by (simp add: payload_of_def tier_of_def)

lemma Deserialize_L2:
  assumes "valid_base bs"
  shows "Deserialize rs (header TierL2 c @ body) bs = deserializeRS rs body (of_nat c) bs"
  using assms by (simp add: Deserialize_eq header_fields valid_base_def TierL0_def TierL1_def TierL2_def)

lemma rs_sections_decode:
  assumes d: "valid_device d" and p: "p = length (payload_of d)" and c: "c = card (Mapping.keys (dirty d))"
    and geo: "geometry_ok N K p" "S = shard_size N p" "(N + K) * S \<le> 2 ^ 33"
    and rs: "rs_contract rs N K" "rs_shape rs"
    and fs: "fs = pieces (stride S) (length sect div stride S) sect" and len: "length sect < 2 ^ 60"
    and sound: "p > 0 \<Longrightarrow> sound_frames (N + K) (encoded rs N K S (payload_of d)) fs"
      "p > 0 \<Longrightarrow> card (lost_shards (N + K) fs) \<le> K"
  shows "Deserialize rs (header TierL2 c @ rs_meta N K S p @ sect) (base d) = Some (Inr (d, None))"
proof -
  have N: "1 \<le> N" using geo(1) by (simp add: geometry_ok_def)
  have pN: "p \<le> N * S" using shard_size_facts(2) [OF N, of p] geo(2) by (cases "p = 0") simp_all
  have "N * S \<le> (N + K) * S" by (intro mult_le_mono1) simp
  then have p33: "p \<le> 2 ^ 33" using pN geo(3) by linarith
  then have p62: "length (payload_of d) < 2 ^ 62" by (simp add: p)
  have pc: "p = c * l1RecordSize" using payload_of_length [OF d] p c by simp
  have vb: "valid_base (base d)" using d by (simp add: valid_device_def)
  have slack: "(N + K) * stride S \<le> 4 * (rsMetaSize + length sect)" if "p > 0"
  proof (rule geometry_slack [OF geo(1)])
    show "N \<le> length sect div stride S" using enough_frames [OF sound(2) [OF that]] by (simp add: fs)
    show "length sect div stride S * stride S \<le> length sect" by simp
  qed
  have "length (rs_meta N K S p @ sect) < 2 ^ 61" using len by (simp add: rsMetaSize_def)
  then have l61: "int (length (rs_meta N K S p @ sect)) < 2 ^ 61"
    by (metis of_nat_less_iff of_nat_numeral of_nat_power)
  have p63: "p < 2 ^ 63" using p33 by simp
  have parse: "parseRSMeta (rs_meta N K S p @ sect) (of_nat c)
      = Some (Inr \<lparr>g_dataShards = N, g_parityShards = K, g_shardSize = S, g_payloadLen = p\<rparr>)"
    by (rule parseRSMeta_rs_meta [OF geo(1) pc p63 geo(2,3) _ l61]) (rule slack)
  have dec: "deserializeRS rs (rs_meta N K S p @ sect) (of_nat c) (base d)
      = map_option Inr (applyRecords (payload_of d) TierL1 (of_nat c) (base d))"
  proof (cases "p = 0")
    case True
    then have "payload_of d = []" using p by simp
    then show ?thesis
      unfolding deserializeRS_def parse bind.bind_lunit sum.case Let_def rsGeometry.simps
      using True by (simp add: map_conv_bind_option o_def)
  next
    case False
    then have "payload_of d \<noteq> []" "length (payload_of d) \<le> N * S" using p pN by auto
    then show ?thesis
      using deserializeRS_recovers [OF parse [unfolded p] length_rs_meta _ _ rs fs] sound False p by simp
  qed
  show ?thesis
    unfolding Deserialize_L2 [OF vb] dec using payload_applies [OF d p62] by (simp add: c)
qed

section \<open>The sample codec and blob\<close>

lemma replica_shape: "rs_shape replica_rs"
  unfolding rs_shape_def
proof (intro conjI allI impI)
  fix N K S and xs ys :: "bytes list"
  assume e: "rs_encode replica_rs N K xs = Some ys" and l: "length xs = N + K" "\<forall>x\<in>set xs. length x = S"
  have ys: "ys = take N xs @ replicate K (xs ! 0)" using e by (simp add: replica_rs_def split: if_splits)
  show "length ys = N + K" using l(1) by (simp add: ys)
  show "\<forall>y\<in>set ys. length y = S"
  proof
    fix y assume "y \<in> set ys"
    then have "y \<in> set xs"
    proof (cases "y \<in> set (take N xs)")
      case False
      then have "0 < K" "y = xs ! 0" using \<open>y \<in> set ys\<close> by (auto simp: ys)
      then show ?thesis using l(1) by simp
    qed (rule in_set_takeD)
    then show "length y = S" using l(2) by blast
  qed
next
  fix N K S ok and xs ys :: "bytes option list"
  assume r: "rs_reconstruct replica_rs N K xs = (ok, ys)" and l: "length xs = N + K"
    "\<forall>x. Some x \<in> set xs \<longrightarrow> length x = S"
  have c: "ok \<and> (\<exists>x. Some x \<in> set xs \<and> ys = replicate (N + K) (Some x)) \<or> \<not> ok \<and> ys = xs"
  proof (cases "find (\<lambda>x. x \<noteq> None) xs")
    case None
    then show ?thesis using r by (simp add: replica_rs_def)
  next
    case (Some x)
    then show ?thesis using r find_SomeD [OF Some] by (auto simp: replica_rs_def)
  qed
  then show "length ys = N + K" using l(1) by auto
  from c show "length y = S" if "Some y \<in> set ys" for y using l(2) that by auto
  from c show "None \<notin> set (take N ys)" if ok using that by (auto dest!: in_set_takeD)
qed

lemma replica_contract: "rs_contract replica_rs 1 K"
  unfolding rs_contract_def
proof (intro conjI allI impI)
  show "rs_new replica_rs 1 K" by (simp add: replica_rs_def)
  fix xs :: "bytes list" and S :: nat
  assume S: "0 < S" "\<forall>x\<in>set xs. length x = S" and l: "length xs = 1 + K"
  then obtain x xs' where xs: "xs = x # xs'" by (cases xs) simp_all
  let ?ys = "replicate (1 + K) x"
  have "rs_reconstruct replica_rs 1 K es = (True, map Some ?ys)"
    if es: "length es = 1 + K" "\<forall>i<1 + K. es ! i = None \<or> es ! i = Some (?ys ! i)"
      "length (filter (\<lambda>e. e = None) es) \<le> K" for es
  proof -
    have m: "e = None \<or> e = Some x" if "e \<in> set es" for e
    proof -
      from that obtain i where "i < length es" "e = es ! i" by (auto simp: in_set_conv_nth)
      then show ?thesis using es(1,2) by (metis nth_replicate)
    qed
    have "\<exists>e\<in>set es. e \<noteq> None"
    proof (rule ccontr)
      assume "\<not> (\<exists>e\<in>set es. e \<noteq> None)"
      then have "filter (\<lambda>e. e = None) es = es" by (simp add: filter_id_conv)
      then show False using es(1,3) by simp
    qed
    then obtain e where f: "find (\<lambda>e. e \<noteq> None) es = Some e"
      using find_exists [of "\<lambda>e. e \<noteq> None" es] by blast
    have "e = Some x" using find_SomeD [OF f] m [of e] by blast
    with f show ?thesis by (simp add: replica_rs_def)
  qed
  moreover have "rs_encode replica_rs 1 K xs = Some ?ys" "take 1 ?ys = take 1 xs"
    using S by (auto simp: replica_rs_def xs)
  ultimately show "\<exists>ys. rs_encode replica_rs 1 K xs = Some ys \<and> take 1 ys = take 1 xs
      \<and> (\<forall>es. length es = 1 + K \<longrightarrow> (\<forall>i<1 + K. es ! i = None \<or> es ! i = Some (ys ! i))
           \<longrightarrow> length (filter (\<lambda>e. e = None) es) \<le> K
           \<longrightarrow> rs_reconstruct replica_rs 1 K es = (True, map Some ys))"
    by blast
qed

lemma sample_payload:
  "length (payload_of sample_device) = l1RecordSize" "l1RecordSize = 4108"
  "chosen_geometry l1RecordSize 0 0 = (1, 2)" "shard_size 1 l1RecordSize = l1RecordSize"
  by (simp_all add: payload_of_length [OF sample_device_valid] l1RecordSize_def BlockSize_def
      chosen_geometry_def rsDefaultShards_def rs_consts Let_def shard_size_def)

lemma sample_payload_ne: "payload_of sample_device \<noteq> []"
  using sample_payload(1,2) by auto

section \<open>Properties\<close>

lemma chosen_ok:
  assumes "valid_device d" "rs_shape rs" "length (payload_of d) < 2 ^ 63" "in_i64 dn" "in_i64 dk"
    and "chosen_geometry (length (payload_of d)) dn dk = (int N, int K)"
    and "rs_contract rs N K" "SerializeRS rs procs sched hsched d dn dk = Some (Inr blob)"
    and "p = length (payload_of d)" "S = shard_size N p"
  shows "geometry_ok N K p"
    and "blob = header TierL2 (card (Mapping.keys (dirty d))) @ rs_meta N K S p
      @ concat (frames (if p = 0 then replicate (N + K) [] else encoded rs N K S (payload_of d)))"
proof -
  note eq = SerializeRS_eq [where procs = procs and sched = sched and hsched = hsched,
    OF assms(1,2,9) _ assms(4,5) assms(6)[folded assms(9)] nat_int [symmetric] nat_int [symmetric] refl assms(10)]
  show g: "geometry_ok N K p" using eq assms(3,8,9) by (auto split: if_splits)
  then have N: "1 \<le> N" by (simp add: geometry_ok_def)
  have pN: "p > 0 \<Longrightarrow> length (payload_of d) \<le> N * S"
    using shard_size_facts(2) [OF N, of p] assms(9,10) by simp
  show "blob = header TierL2 (card (Mapping.keys (dirty d))) @ rs_meta N K S p
      @ concat (frames (if p = 0 then replicate (N + K) [] else encoded rs N K S (payload_of d)))"
  proof (cases "p = 0")
    case True
    then show ?thesis using eq g assms(3,8-10) by (simp add: rs_blob_def shard_size_def)
  next
    case False
    then have "0 < p" "payload_of d \<noteq> []" using assms(9) by simp_all
    note e = encoded_facts(1,2) [OF assms(7,2) pN [OF this(1)] this(2)]
    show ?thesis using eq g e False assms(3,8,9) by (simp add: rs_blob_def)
  qed
qed

lemma encoded_frames:
  assumes "rs_contract rs N K" "rs_shape rs" "length p \<le> N * S" "N + K \<le> 64" "p \<noteq> []"
  shows "pieces (stride S) (N + K) (concat (frames (encoded rs N K S p))) = frames (encoded rs N K S p)"
    "length (concat (frames (encoded rs N K S p))) = (N + K) * stride S"
    "sound_frames (N + K) (encoded rs N K S p) (frames (encoded rs N K S p))"
    "lost_shards (N + K) (frames (encoded rs N K S p)) = {}"
proof -
  let ?e = "encoded rs N K S p"
  note e = encoded_facts(3,4) [OF assms(1-3,5)]
  show len: "length (concat (frames ?e)) = (N + K) * stride S"
    using length_concat_blocks [of "frames ?e" "stride S"] frame_length [OF e(2)] e(1) by simp
  have "pieces (stride S) (length (frames ?e)) (concat (frames ?e) @ []) = take (length (frames ?e)) (frames ?e)"
    using frame_length [OF e(2)] by (intro pieces_concat) simp_all
  then show "pieces (stride S) (N + K) (concat (frames ?e)) = frames ?e"
    using e(1) by simp
  show "sound_frames (N + K) ?e (frames ?e)" "lost_shards (N + K) (frames ?e) = {}"
    using frames_sound [of ?e] e(1) assms(4) by simp_all
qed

text \<open>
  C13: what SerializeRS returns on every branch, for every geometry argument in the int64 range,
  every number of processors and every schedule of its two groups of goroutines: the
  unsupported-tier error exactly for the geometries outside the documented bounds (the wrapping
  sum in the cap cannot be exploited), else header, metadata and one frame per encoded shard.
\<close>

theorem SerializeRS_bytes:
  assumes "valid_device d" "rs_shape rs" "in_i64 dn" "in_i64 dk"
    and "p = length (payload_of d)" "p < 2 ^ 63" "chosen_geometry p dn dk = (int N, int K)" "S = shard_size N p"
  shows "SerializeRS rs procs sched hsched d dn dk =
    (if \<not> (1 \<le> N \<and> 1 \<le> K \<and> N + K \<le> 64 \<and> N \<le> max 1 ((p + 127) div 128) \<and> K \<le> max 2 N)
     then Some (Inl ErrUnsupportedTier)
     else if p = 0 then Some (Inr (rs_blob (card (Mapping.keys (dirty d))) N K 0 0 (replicate (N + K) [])))
     else if \<not> rs_new rs N K then Some (Inl ErrUnsupportedTier)
     else (case rs_encode rs N K (data_shards N S (payload_of d) @ zero_parity K S) of
         None \<Rightarrow> Some (Inl ErrCorrupt)
       | Some enc \<Rightarrow> Some (Inr (rs_blob (card (Mapping.keys (dirty d))) N K S p enc))))"
  using SerializeRS_eq [where procs = procs and sched = sched and hsched = hsched,
      OF assms(1,2,5,6,3,4,7) nat_int [symmetric] nat_int [symmetric] refl assms(8)]
  by (simp only: geometry_ok_def max_data_def)

theorem SerializeRS_bytes_witness:
  "SerializeRS replica_rs 4 [] [] sample_device (2 ^ 63 - 1) (2 ^ 63 - 1) = Some (Inl ErrUnsupportedTier)"
proof -
  have "chosen_geometry l1RecordSize (2 ^ 63 - 1) (2 ^ 63 - 1) = (int (2 ^ 63 - 1), int (2 ^ 63 - 1))"
    by (simp add: chosen_geometry_def)
  from SerializeRS_bytes [OF sample_device_valid replica_shape _ _ sample_payload(1) [symmetric] _ this refl, of 4 "[]" "[]"]
  show ?thesis by (simp add: in_i64_def sample_payload(2))
qed

lemma serialized_rs_decodes:
  assumes "valid_device d" "rs_shape rs" "in_i64 dn" "in_i64 dk"
    and "p = length (payload_of d)" "p < 2 ^ 63" "chosen_geometry p dn dk = (int N, int K)"
    and "rs_contract rs N K" "SerializeRS rs procs sched hsched d dn dk = Some (Inr blob)"
    and "(N + K) * shard_size N p \<le> 2 ^ 33"
  shows "Deserialize rs blob (base d) = Some (Inr (d, None))"
proof -
  note c = chosen_ok [OF assms(1,2) assms(6)[unfolded assms(5)] assms(3,4) assms(7)[unfolded assms(5)] assms(8,9,5) refl]
  have N: "1 \<le> N" "N + K \<le> 64" using c(1) by (simp_all add: geometry_ok_def)
  let ?S = "shard_size N p"
  let ?sect = "concat (frames (if p = 0 then replicate (N + K) [] else encoded rs N K ?S (payload_of d)))"
  have pN: "p > 0 \<Longrightarrow> length (payload_of d) \<le> N * ?S"
    using shard_size_facts(2) [OF N(1), of p] assms(5) by simp
  have ne: "payload_of d \<noteq> []" if "p > 0" using that assms(5) by auto
  note ef = encoded_frames [OF assms(8,2) pN N(2) ne]
  have len: "length ?sect < 2 ^ 60"
  proof -
    have "length ?sect = (N + K) * stride ?S"
    proof (cases "p = 0")
      case True
      have "length (concat (frames (replicate (N + K) []))) = (N + K) * stride 0"
        using length_concat_blocks [of "frames (replicate (N + K) ([] :: bytes))" "stride 0"]
          frame_length [of "replicate (N + K) []" 0] by simp
      then show ?thesis using True by (simp add: shard_size_def)
    qed (simp add: ef(2))
    also have "\<dots> = (N + K) * 6 + (N + K) * ?S" by (simp add: stride_def rsShardHdrSize_def add_mult_distrib2)
    also have "\<dots> < 2 ^ 60" using N(2) assms(10) by simp
    finally show ?thesis .
  qed
  show ?thesis unfolding c(2)
    by (rule rs_sections_decode [OF assms(1,5) refl c(1) refl assms(10,8,2) refl len]) (simp_all add: ef)
qed

text \<open>
  C15: round trip at L2. A blob SerializeRS writes deserializes over the same base to the same
  device without an error, for every accepted geometry, provided the shard section is within
  the decoder's allocation cap.
\<close>

theorem rs_roundtrip:
  assumes "valid_device d" "rs_shape rs" "in_i64 dn" "in_i64 dk"
    and "p = length (payload_of d)" "p < 2 ^ 63" "chosen_geometry p dn dk = (int N, int K)"
    and "rs_contract rs N K" "SerializeRS rs procs sched hsched d dn dk = Some (Inr blob)"
    and "(N + K) * shard_size N p \<le> 2 ^ 33"
  shows "Deserialize rs blob (base d) = Some (Inr (d, None))"
  using assms by (rule serialized_rs_decodes)

lemma sample_rs_blob:
  "\<exists>blob. SerializeRS replica_rs procs sched hsched sample_device 0 0 = Some (Inr blob)"
proof -
  note e = encoded_facts(2) [OF replica_contract replica_shape _ sample_payload_ne, of l1RecordSize 2]
  have "geometry_ok 1 2 l1RecordSize" by (simp add: geometry_ok_def max_data_def)
  then show ?thesis
    using SerializeRS_eq [where procs = procs and sched = sched and hsched = hsched and rs = replica_rs,
        OF sample_device_valid replica_shape sample_payload(1) [symmetric] _ _ _ sample_payload(3) refl refl refl refl]
      e replica_contract [of 2] sample_payload
    by (simp add: in_i64_def rs_contract_def)
qed

lemma sample_geometry:
  "chosen_geometry (length (payload_of sample_device)) 0 0 = (int 1, int 2)" "in_i64 0"
  "length (payload_of sample_device) < 2 ^ 63"
  "(1 + 2) * shard_size 1 (length (payload_of sample_device)) \<le> 2 ^ 33"
  by (simp_all add: sample_payload(1,3) sample_payload(4) [unfolded One_nat_def] in_i64_def)
    (simp_all add: sample_payload(2))

theorem rs_roundtrip_witness:
  "\<exists>blob. SerializeRS replica_rs 4 [] [] sample_device 0 0 = Some (Inr blob)
    \<and> Deserialize replica_rs blob sample_base = Some (Inr (sample_device, None))"
proof -
  obtain blob where b: "SerializeRS replica_rs 4 [] [] sample_device 0 0 = Some (Inr blob)"
    using sample_rs_blob by blast
  from rs_roundtrip [OF sample_device_valid replica_shape sample_geometry(2,2) refl sample_geometry(3,1)
      replica_contract b sample_geometry(4)]
  show ?thesis using b by simp
qed

lemma written_frames_sound:
  assumes "length enc = t" "t \<le> 64" "fs = frames enc"
    and "\<forall>g\<in>set gs. g \<in> set fs \<or> \<not> frame_ok g"
  shows "sound_frames t enc gs" "lost_shards t gs \<subseteq> {i. i < t \<and> fs ! i \<notin> set gs}"
proof -
  have ix: "frame_idx (fs ! i) = i \<and> frame_ok (fs ! i) \<and> frame_data (fs ! i) = enc ! i" if "i < t" for i
    using that assms(1,2) frame_fields [of i "enc ! i"] by (simp add: assms(3) frames_nth)
  show "sound_frames t enc gs"
    unfolding sound_frames_def
  proof (intro ballI impI)
    fix g assume g: "g \<in> set gs" "frame_ok g \<and> frame_idx g < t"
    then have "g \<in> set fs" using assms(4) by auto
    then obtain i where "i < t" "g = fs ! i" using assms(1,3) by (auto simp: in_set_conv_nth)
    then show "frame_data g = enc ! frame_idx g" using ix by simp
  qed
  show "lost_shards t gs \<subseteq> {i. i < t \<and> fs ! i \<notin> set gs}"
    using ix by (auto simp: lost_shards_def)
qed

lemma rs_blob_fields:
  assumes "blob = header TierL2 c @ rs_meta N K S p @ concat (frames enc)"
  shows "take shardSectionOff blob = header TierL2 c @ rs_meta N K S p"
    "drop shardSectionOff blob = concat (frames enc)"
  by (simp_all add: assms shardSectionOff_def)

text \<open>
  C2: recovery. The shard section of a blob may be replaced by any bytes in which every frame is
  one of the written frames or fails its check - frames damaged, cut off, dropped, repeated or
  reordered, with a partial frame at the end - and as long as at most K of the written frames are
  missing, Deserialize returns the device, with no error. The check of a frame covers its data but
  not its two index bytes: a frame with a changed index passes it, so such damage is outside this
  theorem (misindexed_shard_loses_data in RSDamage shows that it can lose data).
\<close>

theorem rs_recovers:
  assumes "valid_device d" "rs_shape rs" "in_i64 dn" "in_i64 dk"
    and "p = length (payload_of d)" "p < 2 ^ 63" "chosen_geometry p dn dk = (int N, int K)"
    and "rs_contract rs N K" "SerializeRS rs procs sched hsched d dn dk = Some (Inr blob)"
    and "(N + K) * shard_size N p \<le> 2 ^ 33" "0 < p"
    and w: "w = rsShardHdrSize + shard_size N p"
    and fs: "fs = pieces w (N + K) (drop shardSectionOff blob)"
    and gs: "gs = pieces w (length sect div w) sect" "length sect < 2 ^ 60"
    and ok: "\<forall>g\<in>set gs. g \<in> set fs \<or> \<not> frame_ok g"
    and few: "card {i. i < N + K \<and> fs ! i \<notin> set gs} \<le> K"
  shows "Deserialize rs (take shardSectionOff blob @ sect) (base d) = Some (Inr (d, None))"
proof -
  note c = chosen_ok [OF assms(1,2) assms(6)[unfolded assms(5)] assms(3,4) assms(7)[unfolded assms(5)] assms(8,9,5) refl]
  let ?S = "shard_size N p"
  let ?enc = "encoded rs N K ?S (payload_of d)"
  have N: "1 \<le> N" "N + K \<le> 64" using c(1) by (simp_all add: geometry_ok_def)
  have pN: "length (payload_of d) \<le> N * ?S" using shard_size_facts(2) [OF N(1) assms(11)] assms(5) by simp
  have ne: "payload_of d \<noteq> []" using assms(5,11) by auto
  note ef = encoded_frames [OF assms(8,2) pN N(2) ne]
  have blob: "blob = header TierL2 (card (Mapping.keys (dirty d))) @ rs_meta N K ?S p @ concat (frames ?enc)"
    using c(2) assms(11) by simp
  note bf = rs_blob_fields [OF blob]
  have st: "w = stride ?S" by (simp add: w stride_def)
  have fe: "fs = frames ?enc" by (simp add: fs bf st ef(1))
  note ws = written_frames_sound [OF encoded_facts(3) [OF assms(8,2) pN ne] N(2) fe ok]
  have "card (lost_shards (N + K) gs) \<le> card {i. i < N + K \<and> fs ! i \<notin> set gs}"
    using ws(2) by (intro card_mono) simp_all
  then have lost: "card (lost_shards (N + K) gs) \<le> K" using few by simp
  show ?thesis unfolding bf append_assoc
    by (rule rs_sections_decode [OF assms(1,5) refl c(1) refl assms(10,8,2) gs(1)[unfolded st] gs(2)])
      (use ws(1) lost in auto)
qed

lemma sample_blob_length:
  assumes "SerializeRS replica_rs procs sched hsched sample_device 0 0 = Some (Inr blob)"
  shows "length (drop shardSectionOff blob) = 3 * (rsShardHdrSize + l1RecordSize)"
proof -
  let ?p = "length (payload_of sample_device)"
  note c = chosen_ok [OF sample_device_valid replica_shape sample_geometry(3) sample_geometry(2,2)
      sample_geometry(1) replica_contract assms refl refl]
  have S: "shard_size 1 ?p = l1RecordSize" "0 < ?p" by (simp_all add: sample_payload(1) sample_payload(4) [unfolded One_nat_def])
  then have "blob = header TierL2 (card (Mapping.keys (dirty sample_device))) @ rs_meta 1 2 l1RecordSize ?p
      @ concat (frames (encoded replica_rs 1 2 l1RecordSize (payload_of sample_device)))"
    using c(2) by simp
  note bf = rs_blob_fields(2) [OF this]
  have "?p \<le> 1 * l1RecordSize" by (simp add: sample_payload(1))
  from encoded_frames(2) [OF replica_contract replica_shape this _ sample_payload_ne, of 2]
  show ?thesis by (simp add: bf stride_def)
qed

theorem rs_recovers_witness:
  "\<exists>blob. SerializeRS replica_rs 4 [] [] sample_device 0 0 = Some (Inr blob)
    \<and> Deserialize replica_rs (take shardSectionOff blob
        @ take (rsShardHdrSize + l1RecordSize) (drop shardSectionOff blob) @ [7]) sample_base
      = Some (Inr (sample_device, None))"
proof -
  obtain blob where b: "SerializeRS replica_rs 4 [] [] sample_device 0 0 = Some (Inr blob)"
    using sample_rs_blob by blast
  let ?p = "length (payload_of sample_device)"
  let ?w = "rsShardHdrSize + shard_size 1 ?p"
  let ?x = "drop shardSectionOff blob"
  let ?sect = "take ?w ?x @ [7]"
  have S: "shard_size 1 ?p = l1RecordSize" "0 < ?p"
    by (simp_all add: sample_payload(1) sample_payload(4) [unfolded One_nat_def])
  have len: "length (take ?w ?x) = ?w" using sample_blob_length [OF b] S(1) by simp
  have w: "1 < ?w" by (simp add: rsShardHdrSize_def)
  have dv: "length ?sect div ?w = 1"
    unfolding length_append len by (rule div_nat_eqI) (use w in simp_all)
  have gs: "pieces ?w (length ?sect div ?w) ?sect = [take ?w ?x]"
    unfolding dv using len by (simp add: pieces_def)
  have fs0: "pieces ?w (1 + 2) ?x ! 0 = take ?w ?x" by (simp add: pieces_def)
  have m: "take ?w ?x \<in> set (pieces ?w (1 + 2) ?x)" by (subst fs0 [symmetric], rule nth_mem) simp
  have "{i. i < 1 + 2 \<and> pieces ?w (1 + 2) ?x ! i \<notin> set [take ?w ?x]} \<subseteq> {1, 2}"
  proof
    fix i assume i: "i \<in> {i. i < 1 + 2 \<and> pieces ?w (1 + 2) ?x ! i \<notin> set [take ?w ?x]}"
    then have "i \<noteq> 0" using fs0 by (metis (mono_tags, lifting) list.set_intros(1) mem_Collect_eq)
    then show "i \<in> {1, 2}" using i by auto
  qed
  then have "card {i. i < 1 + 2 \<and> pieces ?w (1 + 2) ?x ! i \<notin> set [take ?w ?x]} \<le> card {1, 2 :: nat}"
    by (rule card_mono [rotated]) simp
  then have few: "card {i. i < 1 + 2 \<and> pieces ?w (1 + 2) ?x ! i \<notin> set [take ?w ?x]} \<le> 2" by simp
  have "length ?sect < 2 ^ 60"
    unfolding length_append len S(1) by (simp add: sample_payload(2) rsShardHdrSize_def)
  from rs_recovers [OF sample_device_valid replica_shape sample_geometry(2,2) refl sample_geometry(3,1)
      replica_contract b sample_geometry(4) S(2) refl refl gs [symmetric] this _ few] m
  show ?thesis using b S(1) by auto
qed

end
