(* ===== verification/RSDamage.thy ===== *)
theory RSDamage
  imports RSTheorems
begin

text \<open>
  Single bytes of a Reed-Solomon blob. A changed byte of a shard's checksum or data makes the
  shard an erasure, which the parity repairs. The two index bytes in front of a shard are not
  covered by any checksum: a changed index puts the shard into another shard's slot, and one
  such byte can cost data although only one shard was touched.
\<close>

section \<open>A changed byte behind the index of a frame\<close>

lemma frame_ok_flip:
  assumes "frame_ok f" "rsShardHdrSize \<le> length f" "2 \<le> i" "i < length f" "y \<noteq> f ! i"
  shows "\<not> frame_ok (f[i := y])"
proof (cases "i < 6")
  case True
  have h: "rsShardHdrSize = 6" by (simp add: rsShardHdrSize_def)
  have d: "frame_data (f[i := y]) = frame_data f" using True by (simp add: frame_data_def h)
  have t: "take 4 (drop 2 (f[i := y])) = (take 4 (drop 2 f))[i - 2 := y]"
    using assms(3) by (simp add: drop_update_swap take_update_swap)
  have "Suc (Suc (i - 2)) = i" using assms(3) by simp
  then have "i - 2 < length (take 4 (drop 2 f))" "take 4 (drop 2 f) ! (i - 2) = f ! i"
    using assms(2-4) True by (simp_all add: h)
  then have "(take 4 (drop 2 f))[i - 2 := y] \<noteq> take 4 (drop 2 f)"
    using assms(5) by (metis nth_list_update_eq)
  then have "le_get (take 4 (drop 2 (f[i := y]))) \<noteq> (le_get (take 4 (drop 2 f)) :: uint32)"
    unfolding t using assms(2) by (subst le_get_inj) (simp_all add: h)
  then show ?thesis using assms(1) d by (simp add: frame_ok_def)
next
  case False
  have h: "rsShardHdrSize = 6" by (simp add: rsShardHdrSize_def)
  have d: "frame_data (f[i := y]) = (frame_data f)[i - 6 := y]"
    using False by (simp add: frame_data_def h drop_update_swap)
  have "take 4 (drop 2 (f[i := y])) = take 4 (drop 2 f)" using False by (simp add: drop_update_swap)
  moreover have "ChecksumIEEE ((frame_data f)[i - 6 := y]) \<noteq> ChecksumIEEE (frame_data f)"
    using False assms(4,5) by (intro ChecksumIEEE_byte) (simp_all add: frame_data_def h)
  ultimately show ?thesis using assms(1) d by (simp add: frame_ok_def)
qed

text \<open>
  C20: one changed byte of the shard section, outside the index fields of the shards, is repaired:
  Deserialize returns the device, with no error.
\<close>

theorem rs_flipped_byte:
  assumes "valid_device d" "rs_shape rs" "in_i64 dn" "in_i64 dk"
    and "p = length (payload_of d)" "p < 2 ^ 63" "chosen_geometry p dn dk = (int N, int K)"
    and "rs_contract rs N K" "SerializeRS rs procs sched hsched d dn dk = Some (Inr blob)"
    and "(N + K) * shard_size N p \<le> 2 ^ 33" "0 < p"
    and q: "shardSectionOff \<le> q" "q < length blob" "y \<noteq> blob ! q"
      "2 \<le> (q - shardSectionOff) mod (rsShardHdrSize + shard_size N p)"
  shows "Deserialize rs (blob[q := y]) (base d) = Some (Inr (d, None))"
proof -
  note c = chosen_ok [OF assms(1,2) assms(6)[unfolded assms(5)] assms(3,4) assms(7)[unfolded assms(5)] assms(8,9,5) refl]
  let ?S = "shard_size N p"
  let ?enc = "encoded rs N K ?S (payload_of d)"
  let ?fs = "frames ?enc"
  have N: "1 \<le> N" "1 \<le> K" "N + K \<le> 64" using c(1) by (simp_all add: geometry_ok_def)
  have pN: "length (payload_of d) \<le> N * ?S" using shard_size_facts(2) [OF N(1) assms(11)] assms(5) by simp
  have ne: "payload_of d \<noteq> []" using assms(5,11) by auto
  note ef = encoded_frames [OF assms(8,2) pN N(3) ne]
  note e = encoded_facts(3,4) [OF assms(8,2) pN ne]
  let ?pre = "header TierL2 (card (Mapping.keys (dirty d))) @ rs_meta N K ?S p"
  have blob: "blob = ?pre @ concat ?fs" using c(2) assms(11) by simp
  have lp: "length ?pre = shardSectionOff" by (simp add: shardSectionOff_def)
  let ?k = "q - shardSectionOff"
  let ?j = "?k div stride ?S" and ?i = "?k mod stride ?S"
  have k: "?k < length ?fs * stride ?S" using q(1,2) lp ef(2) e(1) by (simp add: blob)
  then have j: "?j < length ?fs" by (simp add: less_mult_imp_div_less)
  have flen: "length f = stride ?S" if "f \<in> set ?fs" for f using frame_length [OF e(2) that] .
  let ?gs = "?fs[?j := (?fs ! ?j)[?i := y]]"
  have "blob[q := y] = ?pre @ (concat ?fs)[?k := y]"
    using q(1) lp by (simp only: blob list_update_append not_less [symmetric] if_False)
  also have "(concat ?fs)[?k := y] = concat ?gs"
    using flen k by (intro concat_list_update) simp_all
  finally have flipped: "blob[q := y] = ?pre @ concat ?gs" .
  have fj: "frame_ok (?fs ! ?j)" "length (?fs ! ?j) = stride ?S"
    using frame_fields(3) [of ?j "?enc ! ?j"] j N(3) e(1) flen [OF nth_mem [OF j]] by (simp_all add: frames_nth)
  have "blob ! q = concat ?fs ! ?k" using q(1,2) lp by (simp only: blob nth_append) simp
  also have "\<dots> = ?fs ! ?j ! ?i" using flen k by (intro nth_concat_blocks) simp_all
  finally have y: "y \<noteq> ?fs ! ?j ! ?i" using q(3) by simp
  have bad: "\<not> frame_ok ((?fs ! ?j)[?i := y])"
  proof (rule frame_ok_flip [OF fj(1) _ _ _ y])
    show "2 \<le> ?i" using q(4) by (simp add: stride_def)
    show "?i < length (?fs ! ?j)" unfolding fj(2) by simp
    show "rsShardHdrSize \<le> length (?fs ! ?j)" unfolding fj(2) by (simp add: stride_def)
  qed
  have ch: "?gs ! i = ?fs ! i \<or> i \<in> {?j} \<and> \<not> frame_ok (?gs ! i)" if "i < length ?enc" for i
    using bad j that by (cases "i = ?j") simp_all
  have l64: "length ?enc \<le> 64" "length ?gs = length ?enc" using e(1) N(3) by simp_all
  note cf = changed_frames [OF l64(2,1) ch]
  have gl: "length g = stride ?S" if "g \<in> set ?gs" for g
    using that flen fj(2) set_update_subset_insert [of ?fs ?j "(?fs ! ?j)[?i := y]"] by auto
  have lg: "length (concat ?gs) = (N + K) * stride ?S"
    using length_concat_blocks [of ?gs "stride ?S"] gl e(1) by simp
  have ps: "pieces (stride ?S) (N + K) (concat ?gs) = ?gs"
    using pieces_concat [of ?gs "stride ?S" "N + K" "[]"] gl e(1) by simp
  have S: "(N + K) * stride ?S < 2 ^ 60"
  proof -
    have "(N + K) * stride ?S = (N + K) * 6 + (N + K) * ?S" by (simp add: stride_def rsShardHdrSize_def add_mult_distrib2)
    also have "\<dots> < 2 ^ 60" using N(3) assms(10) by simp
    finally show ?thesis .
  qed
  have "card (lost_shards (N + K) ?gs) \<le> card {?j}"
    using cf(2) e(1) by (intro card_mono) simp_all
  then have lost: "card (lost_shards (N + K) ?gs) \<le> K" using N(2) by simp
  have gs: "?gs = pieces (stride ?S) (length (concat ?gs) div stride ?S) (concat ?gs)"
    unfolding lg using ps by simp
  show ?thesis unfolding flipped append_assoc
    by (rule rs_sections_decode [OF assms(1,5) refl c(1) refl assms(10,8,2) gs])
      (use cf(1) lost e(1) lg S in simp_all)
qed

theorem rs_flipped_byte_witness:
  "\<exists>blob. SerializeRS replica_rs 4 [] [] sample_device 0 0 = Some (Inr blob)
    \<and> Deserialize replica_rs (blob[shardSectionOff + 2 := blob ! (shardSectionOff + 2) + 1]) sample_base
      = Some (Inr (sample_device, None))"
proof -
  obtain blob where b: "SerializeRS replica_rs 4 [] [] sample_device 0 0 = Some (Inr blob)"
    using sample_rs_blob by blast
  let ?p = "length (payload_of sample_device)"
  let ?q = "shardSectionOff + 2"
  have S: "shard_size 1 ?p = l1RecordSize" "0 < ?p"
    by (simp_all add: sample_payload(1) sample_payload(4) [unfolded One_nat_def])
  have "length blob - shardSectionOff = 3 * (rsShardHdrSize + l1RecordSize)"
    using sample_blob_length [OF b] by simp
  then have q: "shardSectionOff \<le> ?q" "?q < length blob" "blob ! ?q + 1 \<noteq> blob ! ?q"
    "2 \<le> (?q - shardSectionOff) mod (rsShardHdrSize + shard_size 1 ?p)"
    unfolding S(1) by (simp_all add: rsShardHdrSize_def)
  from rs_flipped_byte [OF sample_device_valid replica_shape sample_geometry(2,2) refl sample_geometry(3,1)
      replica_contract b sample_geometry(4) S(2) q]
  show ?thesis using b by simp
qed

section \<open>A changed index byte\<close>

text \<open>A codec for two data shards and one parity shard, the bytewise exclusive or.\<close>

definition xor_bytes :: "bytes \<Rightarrow> bytes \<Rightarrow> bytes" where
  "xor_bytes a b = map2 (\<lambda>x y. x XOR y) a b"

fun xor_fill :: "bytes option list \<Rightarrow> bool \<times> bytes option list" where
  "xor_fill [None, Some b, Some c] = (True, [Some (xor_bytes b c), Some b, Some c])"
| "xor_fill [Some a, None, Some c] = (True, [Some a, Some (xor_bytes a c), Some c])"
| "xor_fill [Some a, Some b, None] = (True, [Some a, Some b, Some (xor_bytes a b)])"
| "xor_fill [Some a, Some b, Some c] = (True, [Some a, Some b, Some c])"
| "xor_fill xs = (False, xs)"

definition xor_rs :: rs_lib where
  "xor_rs = \<lparr>
     rs_new = (\<lambda>N K. N = 2 \<and> K = 1),
     rs_encode = (\<lambda>N K xs. if N = 2 \<and> K = 1 then Some [xs ! 0, xs ! 1, xor_bytes (xs ! 0) (xs ! 1)] else None),
     rs_reconstruct = (\<lambda>N K xs. if N = 2 \<and> K = 1 then xor_fill xs else (False, xs))\<rparr>"

lemma length_xor [simp]: "length (xor_bytes a b) = min (length a) (length b)"
  by (simp add: xor_bytes_def)

lemma xor_xor: "length a = length b \<Longrightarrow> xor_bytes a (xor_bytes a b) = b"
  "length a = length b \<Longrightarrow> xor_bytes b (xor_bytes a b) = a"
  by (intro nth_equalityI; simp add: xor_bytes_def ac_simps)+

lemma length3: "length xs = 3 \<Longrightarrow> \<exists>a b c. xs = [a, b, c]"
  by (auto simp: length_Suc_conv numeral_3_eq_3)

lemma xor_fill_shape:
  assumes "xor_fill xs = (ok, ys)" "length xs = 3" "\<forall>x. Some x \<in> set xs \<longrightarrow> length x = S"
  shows "ys = xs \<and> \<not> ok \<or> length ys = 3 \<and> None \<notin> set ys \<and> (\<forall>y. Some y \<in> set ys \<longrightarrow> length y = S)"
proof -
  obtain x y z where xs: "xs = [x, y, z]" using length3 assms(2) by blast
  have len: "x = Some a \<Longrightarrow> length a = S" "y = Some a \<Longrightarrow> length a = S" "z = Some a \<Longrightarrow> length a = S" for a
    using assms(3) by (simp_all add: xs)
  show ?thesis
    using assms(1) len unfolding xs
    by (cases x; cases y; cases z) (simp_all, (elim conjE, hypsubst, simp)+)
qed

lemma xor_shape: "rs_shape xor_rs"
  unfolding rs_shape_def
proof (intro conjI allI impI)
  fix N K S and xs ys :: "bytes list"
  assume e: "rs_encode xor_rs N K xs = Some ys" and l: "length xs = N + K" "\<forall>x\<in>set xs. length x = S"
  then have NK: "N = 2" "K = 1" by (auto simp: xor_rs_def split: if_splits)
  then obtain a b c where xs: "xs = [a, b, c]" using length3 [of xs] l(1) by auto
  have ys: "ys = [a, b, xor_bytes a b]" using e by (simp add: xor_rs_def NK xs)
  show "length ys = N + K" by (simp add: ys NK)
  have "length a = S" "length b = S" using l(2) by (simp_all add: xs)
  then show "\<forall>y\<in>set ys. length y = S" by (simp add: ys)
next
  fix N K S ok and xs ys :: "bytes option list"
  assume r: "rs_reconstruct xor_rs N K xs = (ok, ys)" and l: "length xs = N + K"
    "\<forall>x. Some x \<in> set xs \<longrightarrow> length x = S"
  have c: "ys = xs \<and> \<not> ok \<or> length ys = N + K \<and> None \<notin> set ys \<and> (\<forall>y. Some y \<in> set ys \<longrightarrow> length y = S)"
  proof (cases "N = 2 \<and> K = 1")
    case True
    then have "xor_fill xs = (ok, ys)" using r by (simp add: xor_rs_def)
    from xor_fill_shape [OF this] l True show ?thesis by auto
  next
    case False
    then show ?thesis using r by (auto simp: xor_rs_def)
  qed
  then show "length ys = N + K" using l(1) by auto
  from c show "length y = S" if "Some y \<in> set ys" for y using l(2) that by auto
  from c show "None \<notin> set (take N ys)" if ok using that by (auto dest: in_set_takeD)
qed

lemma xor_contract: "rs_contract xor_rs 2 1"
  unfolding rs_contract_def
proof (intro conjI allI impI)
  show "rs_new xor_rs 2 1" by (simp add: xor_rs_def)
  fix xs :: "bytes list" and S :: nat
  assume "0 < S" and l: "length xs = 2 + 1" "\<forall>x\<in>set xs. length x = S"
  then obtain a b c where xs: "xs = [a, b, c]" using length3 [of xs] by auto
  then have ab: "length a = length b" using l(2) by simp
  let ?ys = "[a, b, xor_bytes a b]"
  have "rs_reconstruct xor_rs 2 1 es = (True, map Some ?ys)"
    if es: "length es = 2 + 1" "\<forall>i<2 + 1. es ! i = None \<or> es ! i = Some (?ys ! i)"
      "length (filter (\<lambda>e. e = None) es) \<le> 1" for es
  proof -
    obtain x y z where e: "es = [x, y, z]" using length3 [of es] es(1) by auto
    have "x = None \<or> x = Some a" "y = None \<or> y = Some b" "z = None \<or> z = Some (xor_bytes a b)"
      using es(2) [THEN spec, of 0] es(2) [THEN spec, of 1] es(2) [THEN spec, of 2] by (simp_all add: e)
    then show ?thesis using es(3) ab
      by (elim disjE) (simp_all add: e xor_rs_def xor_xor)
  qed
  moreover have "rs_encode xor_rs 2 1 xs = Some ?ys" "take 2 ?ys = take 2 xs"
    by (simp_all add: xor_rs_def xs)
  ultimately show "\<exists>ys. rs_encode xor_rs 2 1 xs = Some ys \<and> take 2 ys = take 2 xs
      \<and> (\<forall>es. length es = 2 + 1 \<longrightarrow> (\<forall>i<2 + 1. es ! i = None \<or> es ! i = Some (ys ! i))
           \<longrightarrow> length (filter (\<lambda>e. e = None) es) \<le> 1
           \<longrightarrow> rs_reconstruct xor_rs 2 1 es = (True, map Some ys))"
    by blast
qed

text \<open>The sample device under the 2+1 geometry: two shards of 2054 bytes.\<close>

definition half0 :: bytes where "half0 = take 2054 (payload_of sample_device)"
definition half1 :: bytes where "half1 = drop 2054 (payload_of sample_device)"

lemma sample_payload_bytes:
  "payload_of sample_device = le_put 8 (0 :: uint64) @ sample_block
     @ le_put 4 (ChecksumIEEE (le_put 8 (0 :: uint64) @ sample_block))"
  by (simp add: payload_of_def sample_keys records_bytes_def dump_def lookup_default_def
      enc_record_def Let_def)

lemma halves:
  "payload_of sample_device = half0 @ half1" "length half0 = 2054" "length half1 = 2054"
  "take 8 half1 = replicate 8 1"
proof -
  show "payload_of sample_device = half0 @ half1" by (simp add: half0_def half1_def)
  have l: "length (payload_of sample_device) = 4108" using sample_payload(1,2) by simp
  then show "length half0 = 2054" "length half1 = 2054" by (simp_all add: half0_def half1_def)
  show "take 8 half1 = replicate 8 1"
    by (simp add: half1_def sample_payload_bytes sample_block_def BlockSize_def)
qed

lemma sample_two_shards:
  "data_shards 2 2054 (payload_of sample_device) = [half0, half1]"
  "encoded xor_rs 2 1 2054 (payload_of sample_device) = [half0, half1, xor_bytes half0 half1]"
proof -
  have "padded 2 2054 (payload_of sample_device) = half0 @ half1"
    using halves by (simp add: padded_def)
  then show ds: "data_shards 2 2054 (payload_of sample_device) = [half0, half1]"
    using halves by (simp add: data_shards_def pieces_def numeral_2_eq_2)
  then show "encoded xor_rs 2 1 2054 (payload_of sample_device) = [half0, half1, xor_bytes half0 half1]"
    by (simp add: encoded_def xor_rs_def)
qed

lemma sample_two_blob:
  "SerializeRS xor_rs procs sched hsched sample_device 2 1 = Some (Inr (header TierL2 1
     @ rs_meta 2 1 2054 4108 @ concat (frames [half0, half1, xor_bytes half0 half1])))"
proof -
  have cg: "chosen_geometry 4108 2 1 = (2, 1)" by (simp add: chosen_geometry_def)
  have g: "geometry_ok 2 1 4108" by (simp add: geometry_ok_def max_data_def)
  have S: "shard_size 2 4108 = 2054" by (simp add: shard_size_def)
  have p: "length (payload_of sample_device) = 4108" using sample_payload(1,2) by simp
  have "length (payload_of sample_device) \<le> 2 * 2054" using p by simp
  from encoded_facts(1,2) [OF xor_contract xor_shape this sample_payload_ne]
  have e: "rs_new xor_rs 2 1" "rs_encode xor_rs 2 1 (data_shards 2 2054 (payload_of sample_device) @ zero_parity 1 2054)
      = Some [half0, half1, xor_bytes half0 half1]"
    by (simp_all only: sample_two_shards(2))
  have small: "(4108 :: nat) < 2 ^ 63" and range: "in_i64 2" "in_i64 1" and nats: "(2 :: nat) = nat 2" "(1 :: nat) = nat 1"
    by (simp_all add: in_i64_def)
  show ?thesis
    unfolding SerializeRS_eq [where N = 2 and K = 1 and procs = procs and sched = sched and hsched = hsched,
        OF sample_device_valid xor_shape p [symmetric] small range cg nats refl S [symmetric]]
    by (simp only: g e option.case rs_blob_def) simp
qed

lemma displaced_slots:
  "slots_of 3 [frame_hdr 1 half0 @ half0, frame_hdr 1 half1 @ half1, frame_hdr 2 x @ x]
    = [None, Some half0, Some x]"
proof -
  let ?fs = "[frame_hdr 1 half0 @ half0, frame_hdr 1 half1 @ half1, frame_hdr 2 x @ x]"
  have n: "slots_of 3 ?fs ! 0 = None" "slots_of 3 ?fs ! 1 = Some half0" "slots_of 3 ?fs ! 2 = Some x"
    by (simp_all add: slots_of_nth frame_fields)
  obtain a b c where "slots_of 3 ?fs = [a, b, c]" using length3 [of "slots_of 3 ?fs"] by auto
  with n show ?thesis by simp
qed

lemma swapped_payload:
  "applyRecords (half1 @ half0) TierL1 1 sample_base
    = Some (\<lparr>base = sample_base, dirty = Mapping.empty\<rparr>, Some \<lparr>BadBlocks = [], Truncated = True\<rparr>)"
proof -
  let ?r = "half1 @ half0"
  let ?k = "nblocks sample_base"
  have l: "length ?r = l1RecordSize" using halves sample_payload(2) by simp
  have rl: "rec_list TierL1 ?r 1 = [?r]"
    using l by (simp add: rec_list_def rec_count_def pieces_def)
  have "replicate 8 (1 :: byte) = le_put 8 (72340172838076673 :: uint64)"
    by code_simp
  then have "take 8 ?r = le_put 8 (72340172838076673 :: uint64)" using halves by simp
  then have "rec_idx ?r = sint (72340172838076673 :: uint64)" by (simp add: rec_idx_def)
  also have "\<dots> = 72340172838076673" by simp
  finally have "rec_idx ?r = 72340172838076673" .
  then have out: "\<not> in_base ?k (rec_idx ?r)" by (simp add: in_base_def sample_base_valid)
  have ov: "body_overlay TierL1 ?k ?r 1 = Mapping.empty"
    using out by (simp add: body_overlay_def rl overlay_of_def apply_rec_def)
  have ex: "exact_body TierL1 ?r 1" "\<not> cut_short TierL1 ?r 1"
    using l by (simp_all add: exact_body_def cut_short_def)
  have "named_loss TierL1 ?k ?r 1 = []" using ex by (simp add: named_loss_def tail_named_def)
  moreover have "unnamed_loss TierL1 ?k ?r 1"
    using out by (cases "crc_ok ?r") (simp_all add: unnamed_loss_def rl stray_def skipped_of_def explained_def)
  moreover have "int (length ?r) < 2 ^ 63" using l sample_payload(2) by simp
  ultimately show ?thesis
    using applyRecords_eq [OF sample_base_valid(1)] by (simp add: ov report_def)
qed

lemma displaced_decodes:
  assumes "x = xor_bytes half0 half1"
  shows "Deserialize xor_rs (header TierL2 1 @ rs_meta 2 1 2054 4108
      @ concat [frame_hdr 1 half0 @ half0, frame_hdr 1 half1 @ half1, frame_hdr 2 x @ x]) sample_base
    = Some (Inr (\<lparr>base = sample_base, dirty = Mapping.empty\<rparr>, Some \<lparr>BadBlocks = [], Truncated = True\<rparr>))"
proof -
  let ?gs = "[frame_hdr 1 half0 @ half0, frame_hdr 1 half1 @ half1, frame_hdr 2 x @ x]"
  let ?sect = "concat ?gs"
  have st: "stride 2054 = 2060" by (simp add: stride_def rsShardHdrSize_def)
  have lx: "length x = 2054" using halves by (simp add: assms)
  have gl: "length g = 2060" if "g \<in> set ?gs" for g using that halves lx by (auto simp: rsShardHdrSize_def)
  have ls: "length ?sect = 6180" using length_concat_blocks [of ?gs 2060] gl by simp
  have "pieces 2060 3 (?sect @ []) = take 3 ?gs" using gl by (intro pieces_concat) auto
  then have ps: "pieces (stride 2054) (length ?sect div stride 2054) ?sect = ?gs"
    unfolding ls st by simp
  have geo: "geometry_ok 2 1 4108" "4108 = 1 * l1RecordSize" "(4108 :: nat) < 2 ^ 63" "2054 = shard_size 2 4108"
    "(2 + 1) * 2054 \<le> (2 :: nat) ^ 33" "(2 + 1) * stride 2054 \<le> 4 * (rsMetaSize + length ?sect)"
    "int (length (rs_meta 2 1 2054 4108 @ ?sect)) < 2 ^ 61"
    unfolding length_append ls st
    by (simp_all add: geometry_ok_def max_data_def sample_payload(2) shard_size_def rsMetaSize_def)
  note parse = parseRSMeta_rs_meta [OF geo]
  have sect: "subslice (rs_meta 2 1 2054 4108 @ ?sect) rsMetaSize (length (rs_meta 2 1 2054 4108 @ ?sect)) = Some ?sect"
    by (simp add: subslice_Some)
  have sl: "parseShardSection ?sect (2 + 1) 2054 = Some ([None, Some half0, Some x], 1)"
    using displaced_slots [of x] unfolding parseShardSection_eq ps Let_def by simp
  have rec: "rs_reconstruct xor_rs 2 1 [None, Some half0, Some x] = (True, [Some half1, Some half0, Some x])"
    using halves by (simp add: xor_rs_def assms xor_xor)
  have cut: "subslice (half1 @ half0) 0 4108 = Some (half1 @ half0)" using halves by (simp add: subslice_Some)
  have "deserializeRS xor_rs (rs_meta 2 1 2054 4108 @ ?sect) (of_nat 1) sample_base
      = Some (Inr (\<lparr>base = sample_base, dirty = Mapping.empty\<rparr>, Some \<lparr>BadBlocks = [], Truncated = True\<rparr>))"
    unfolding deserializeRS_def parse bind.bind_lunit sum.case Let_def rsGeometry.simps sect sl prod.case rec
    using cut swapped_payload by (simp add: xor_rs_def numeral_2_eq_2)
  then show ?thesis
    using Deserialize_L2 [OF sample_base_valid(1), of xor_rs 1 "rs_meta 2 1 2054 4108 @ ?sect"]
    by (simp only: append_assoc)
qed

text \<open>
  C21: the index bytes of a shard are covered by no checksum. In a 2+1 blob of one block, one
  changed byte in one shard - the low index byte of shard 0 - loses the block, although one shard
  is within the parity and the codec meets its contract; the same damage anywhere else in the
  shard is repaired (rs_flipped_byte).
\<close>

theorem misindexed_shard_loses_data:
  "\<exists>blob. SerializeRS xor_rs procs sched hsched sample_device 2 1 = Some (Inr blob)
    \<and> rs_contract xor_rs 2 1 \<and> rs_shape xor_rs \<and> blob ! shardSectionOff = 0
    \<and> Deserialize xor_rs blob sample_base = Some (Inr (sample_device, None))
    \<and> Deserialize xor_rs (blob[shardSectionOff := 1]) sample_base
      = Some (Inr (\<lparr>base = sample_base, dirty = Mapping.empty\<rparr>, Some \<lparr>BadBlocks = [], Truncated = True\<rparr>))"
proof -
  let ?x = "xor_bytes half0 half1"
  let ?pre = "header TierL2 1 @ rs_meta 2 1 2054 4108"
  let ?blob = "?pre @ concat (frames [half0, half1, ?x])"
  let ?gs = "[frame_hdr 1 half0 @ half0, frame_hdr 1 half1 @ half1, frame_hdr 2 ?x @ ?x]"
  note ser = sample_two_blob [of procs sched hsched]
  have p: "length (payload_of sample_device) = 4108" using sample_payload(1,2) by simp
  have lp: "length ?pre = shardSectionOff" by (simp add: shardSectionOff_def)
  have fr: "frames [half0, half1, ?x] = [frame_hdr 0 half0 @ half0, frame_hdr 1 half1 @ half1, frame_hdr 2 ?x @ ?x]"
    by (simp add: frames_def numeral_2_eq_2)
  have h: "frame_hdr 0 half0 ! 0 = 0" "(frame_hdr 0 half0)[0 := 1] = frame_hdr 1 half0"
    by (simp_all add: frame_hdr_def le_put_def numeral_2_eq_2)
  have "?blob ! shardSectionOff = 0"
    using h(1) by (simp only: nth_append lp fr) (simp add: nth_append rsShardHdrSize_def)
  moreover have "?blob[shardSectionOff := 1] = ?pre @ concat ?gs"
    using h(2) by (simp only: list_update_append lp fr) (simp add: list_update_append rsShardHdrSize_def)
  moreover have "Deserialize xor_rs ?blob sample_base = Some (Inr (sample_device, None))"
  proof -
    have "in_i64 2" "in_i64 1" "(4108 :: nat) < 2 ^ 63" "chosen_geometry 4108 2 1 = (int 2, int 1)"
      "(2 + 1) * shard_size 2 4108 \<le> 2 ^ 33"
      by (simp_all add: in_i64_def chosen_geometry_def shard_size_def)
    from serialized_rs_decodes [OF sample_device_valid xor_shape this(1,2) p [symmetric] this(3,4) xor_contract ser this(5)]
    show ?thesis by simp
  qed
  moreover have "Deserialize xor_rs (?pre @ concat ?gs) sample_base
      = Some (Inr (\<lparr>base = sample_base, dirty = Mapping.empty\<rparr>, Some \<lparr>BadBlocks = [], Truncated = True\<rparr>))"
    using displaced_decodes [of ?x] by simp
  ultimately show ?thesis using ser xor_contract xor_shape by auto
qed

end
