(* ===== verification/RSLimits.thy ===== *)
theory RSLimits
  imports RSTheorems
begin

text \<open>
  The allocation limits of src/blockdevice/rs.go: what an accepted rsMeta may demand, and the
  blobs that SerializeRS writes but the decoder refuses because its absolute cap has no
  counterpart on the encode side.
\<close>

text \<open>
  C22: parseRSMeta returns for every body, and the geometry it accepts is bounded: at most 64
  shards, a payload of exactly blockCount L1 records that fits the data shards, at most 8 GiB of
  shard memory, and for a non-empty payload at most four times the bytes present.
\<close>

theorem parseRSMeta_bounds:
  assumes "int (length body) < 2 ^ 61"
  shows "\<exists>r. parseRSMeta body bc = Some r \<and> (\<forall>e. r = Inl e \<longrightarrow> e = ErrCorrupt)
    \<and> (\<forall>g. r = Inr g \<longrightarrow>
        1 \<le> g_dataShards g \<and> g_dataShards g + g_parityShards g \<le> 64
      \<and> g_payloadLen g = unat bc * l1RecordSize
      \<and> g_payloadLen g \<le> g_dataShards g * g_shardSize g
      \<and> (g_dataShards g + g_parityShards g) * g_shardSize g \<le> 2 ^ 33
      \<and> (0 < g_payloadLen g \<longrightarrow>
           (g_dataShards g + g_parityShards g) * (rsShardHdrSize + g_shardSize g) \<le> 4 * length body))"
  unfolding parseRSMeta_eq [OF assms] Let_def
  by (auto simp: meta_accepts_def stride_def)

theorem parseRSMeta_bounds_witness:
  "\<exists>r. parseRSMeta (rs_meta 1 2 l1RecordSize l1RecordSize @ replicate (3 * l1RecordSize) 0) 1 = Some r
    \<and> (\<forall>g. r = Inr g \<longrightarrow> g_dataShards g + g_parityShards g \<le> 64)"
proof -
  have "length (rs_meta 1 2 l1RecordSize l1RecordSize @ replicate (3 * l1RecordSize) 0) < 2 ^ 61"
    by (simp add: rsMetaSize_def l1RecordSize_def BlockSize_def)
  then have "int (length (rs_meta 1 2 l1RecordSize l1RecordSize @ replicate (3 * l1RecordSize) 0)) < 2 ^ 61"
    by (metis of_nat_less_iff of_nat_numeral of_nat_power)
  from parseRSMeta_bounds [OF this, of 1] show ?thesis by blast
qed

section \<open>Payloads over the cap of the decoder\<close>

lemma oversize_meta_rejected:
  assumes "1 \<le> N" "0 < p" "p < 2 ^ 63" "2 ^ 33 < (N + K) * shard_size N p" "N + K \<le> 64"
    and "int (length (rs_meta N K S p @ sect)) < 2 ^ 61"
  shows "parseRSMeta (rs_meta N K S p @ sect) bc = Some (Inl ErrCorrupt)"
proof -
  let ?b = "rs_meta N K S p @ sect"
  have NK: "N < 2 ^ 16" "K < 2 ^ 16" using assms(1,5) by simp_all
  have f: "meta_N ?b = N" "meta_K ?b = K" "meta_P ?b = of_nat p"
    using NK by (simp_all add: rs_meta_def Let_def meta_N_def meta_K_def meta_P_def unat_of_nat
        take_bit_nat_eq_self_iff)
  have up: "unat (of_nat p :: uint64) = p" using assms(3) by (intro unat_of_nat_small int_below_2p63)
  have "\<not> meta_accepts (length ?b) bc N K (meta_S ?b) (of_nat p)"
    using assms(2,4) by (auto simp: meta_accepts_def up)
  then show ?thesis by (simp add: parseRSMeta_eq [OF assms(6)] f Let_def)
qed

text \<open>
  C23: SerializeRS does not enforce the decoder's cap on shard memory: every non-empty blob it
  writes whose shards exceed 8 GiB in total is refused by Deserialize as corrupt, although the
  geometry rule was met and nothing was damaged.
\<close>

theorem oversize_blob_rejected:
  assumes "valid_device d" "rs_shape rs" "in_i64 dn" "in_i64 dk"
    and "p = length (payload_of d)" "p < 2 ^ 63" "chosen_geometry p dn dk = (int N, int K)"
    and "rs_contract rs N K" "SerializeRS rs procs sched hsched d dn dk = Some (Inr blob)"
    and "2 ^ 33 < (N + K) * shard_size N p" "length blob < 2 ^ 61"
  shows "Deserialize rs blob (base d) = Some (Inl ErrCorrupt)"
proof -
  note c = chosen_ok [OF assms(1,2) assms(6)[unfolded assms(5)] assms(3,4) assms(7)[unfolded assms(5)] assms(8,9,5) refl]
  have N: "1 \<le> N" "N + K \<le> 64" using c(1) by (simp_all add: geometry_ok_def)
  have p: "0 < p" using assms(10) by (cases p) (simp_all add: shard_size_def)
  let ?sect = "concat (frames (encoded rs N K (shard_size N p) (payload_of d)))"
  have blob: "blob = header TierL2 (card (Mapping.keys (dirty d))) @ rs_meta N K (shard_size N p) p @ ?sect"
    using c(2) p by simp
  have "length (rs_meta N K (shard_size N p) p @ ?sect) < 2 ^ 61" using assms(11) by (simp add: blob)
  then have l: "int (length (rs_meta N K (shard_size N p) p @ ?sect)) < 2 ^ 61"
    by (metis of_nat_less_iff of_nat_numeral of_nat_power)
  have vb: "valid_base (base d)" using assms(1) by (simp add: valid_device_def)
  show ?thesis
    unfolding blob Deserialize_L2 [OF vb] deserializeRS_def
      oversize_meta_rejected [OF N(1) p assms(6,10) N(2) l]
    by simp
qed

text \<open>A fully overwritten device of 4 GiB.\<close>

definition big_n :: nat where "big_n = 2 ^ 20"

definition big_device :: device where
  "big_device = \<lparr>base = replicate (big_n * BlockSize) 0,
     dirty = Mapping.tabulate (map int [0..<big_n]) (\<lambda>_. sample_block)\<rparr>"

lemma big_device_keys: "Mapping.keys (dirty big_device) = int ` {0..<big_n}"
  by (simp add: big_device_def keys_tabulate)

lemma big_device_valid: "valid_device big_device"
proof -
  have "valid_base (base big_device)"
    by (simp add: valid_base_def big_device_def big_n_def BlockSize_def)
  moreover have "nblocks (base big_device) = big_n" by (simp add: nblocks_def big_device_def)
  moreover have "valid_overlay big_n (dirty big_device)"
  proof -
    have "distinct (map int [0..<big_n])" by (simp add: distinct_map)
    then have "Mapping.lookup (dirty big_device) i = Some b \<Longrightarrow>
        i \<in> int ` {0..<big_n} \<and> b = sample_block" for i b
      by (auto simp: big_device_def lookup_tabulate restrict_map_def split: if_splits)
    then show ?thesis by (fastforce simp: valid_overlay_def)
  qed
  ultimately show ?thesis by (simp add: valid_device_def)
qed

lemma big_payload: "length (payload_of big_device) = 4307550208"
proof -
  have "card (int ` {0..<big_n}) = big_n" by (simp add: card_image)
  then show ?thesis
    using payload_of_length [OF big_device_valid]
    by (simp add: big_device_keys big_n_def l1RecordSize_def BlockSize_def)
qed

theorem oversize_blob_rejected_witness:
  "\<exists>blob. SerializeRS replica_rs 1 [] [] big_device 1 2 = Some (Inr blob)
    \<and> Deserialize replica_rs blob (base big_device) = Some (Inl ErrCorrupt)"
proof -
  let ?p = "4307550208 :: nat"
  have g: "in_i64 1" "in_i64 2" "?p < 2 ^ 63" "chosen_geometry ?p 1 2 = (int 1, int 2)"
    "2 ^ 33 < (1 + 2) * shard_size 1 ?p" "shard_size 1 ?p = ?p" "geometry_ok 1 2 ?p"
    by (simp_all add: in_i64_def chosen_geometry_def shard_size_def geometry_ok_def max_data_def)
  let ?e = "encoded replica_rs 1 2 ?p (payload_of big_device)"
  let ?c = "card (Mapping.keys (dirty big_device))"
  let ?blob = "rs_blob ?c 1 2 ?p ?p ?e"
  have le: "length (payload_of big_device) \<le> 1 * ?p" using big_payload by simp
  have ne: "payload_of big_device \<noteq> []" using big_payload by auto
  note e = encoded_facts(1,2) [OF replica_contract replica_shape le ne, of 2]
  have s: "SerializeRS replica_rs 1 [] [] big_device 1 2 = Some (Inr ?blob)"
    unfolding SerializeRS_eq [where N = 1 and K = 2 and procs = 1 and sched = "[]" and hsched = "[]",
        OF big_device_valid replica_shape big_payload [symmetric] g(3,1,2) g(4) _ _ refl g(6) [symmetric],
        unfolded nat_int, OF refl refl]
    by (simp only: g(7) e option.case) simp
  have "length ?blob < 2 ^ 61"
    using encoded_frames(2) [OF replica_contract replica_shape le _ ne, of 2]
    by (simp add: rs_blob_def rsMetaSize_def headerSize_def stride_def rsShardHdrSize_def)
  from oversize_blob_rejected [OF big_device_valid replica_shape g(1,2) big_payload [symmetric] g(3,4)
      replica_contract s g(5) this]
  show ?thesis using s by blast
qed

end
