(* ===== verification/RSSalvage.thy ===== *)
theory RSSalvage
  imports RSTheorems
begin

text \<open>
  The salvage path of src/blockdevice/rs.go, for blobs with more lost shards than parity: what
  readShardSpan reads, and the device and report rsSalvage returns, for every table of shards.
\<close>

section \<open>Reading through lost shards\<close>

definition shard_table :: "nat \<Rightarrow> nat \<Rightarrow> bytes option list \<Rightarrow> bool" where
  "shard_table N S sh \<longleftrightarrow> N \<le> length sh \<and> 0 < S \<and> (\<forall>x. Some x \<in> set sh \<longrightarrow> length x = S)"

text \<open>The payload as far as it is there, and the ranges all of whose bytes are there.\<close>

definition flat :: "nat \<Rightarrow> nat \<Rightarrow> bytes option list \<Rightarrow> bytes" where
  "flat N S sh = concat (map (\<lambda>i. case sh ! i of Some x \<Rightarrow> x | None \<Rightarrow> replicate S 0) [0..<N])"

definition avail :: "nat \<Rightarrow> bytes option list \<Rightarrow> nat \<Rightarrow> nat \<Rightarrow> bool" where
  "avail S sh off n \<longleftrightarrow> (\<forall>q. off \<le> q \<and> q < off + n \<longrightarrow> sh ! (q div S) \<noteq> None)"

lemma avail_add: "avail S sh off (n + m) \<longleftrightarrow> avail S sh off n \<and> avail S sh (off + n) m"
  unfolding avail_def
proof (intro iffI conjI allI impI)
  assume a: "(\<forall>q. off \<le> q \<and> q < off + n \<longrightarrow> sh ! (q div S) \<noteq> None)
    \<and> (\<forall>q. off + n \<le> q \<and> q < off + n + m \<longrightarrow> sh ! (q div S) \<noteq> None)"
  fix q assume "off \<le> q \<and> q < off + (n + m)"
  then show "sh ! (q div S) \<noteq> None" using a by (cases "q < off + n") simp_all
qed simp_all

lemma avail_shard:
  assumes "0 < S" "0 < n" "n + off mod S \<le> S"
  shows "avail S sh off n \<longleftrightarrow> sh ! (off div S) \<noteq> None"
proof -
  have "q div S = off div S" if "off \<le> q" "q < off + n" for q
  proof -
    have o: "S * (off div S) + off mod S = off" by simp
    show ?thesis
    proof (rule div_nat_eqI)
      show "S * (off div S) \<le> q" using o that by linarith
      show "q < S * Suc (off div S)" using o that assms(3) by (simp only: mult_Suc_right)
    qed
  qed
  then have "avail S sh off n \<longleftrightarrow> (\<forall>q. off \<le> q \<and> q < off + n \<longrightarrow> sh ! (off div S) \<noteq> None)"
    unfolding avail_def by (intro all_cong1 imp_cong) (metis, metis)
  then show ?thesis using assms(2) by (meson le_refl less_add_same_cancel1)
qed

lemma flat_blocks:
  assumes "shard_table N S sh" "x \<in> set (map (\<lambda>i. case sh ! i of Some x \<Rightarrow> x | None \<Rightarrow> replicate S 0) [0..<N])"
  shows "length x = S"
proof -
  obtain i where i: "i < N" "x = (case sh ! i of Some x \<Rightarrow> x | None \<Rightarrow> replicate S 0)" using assms(2) by auto
  have "sh ! i \<in> set sh" using assms(1) i(1) by (simp add: shard_table_def)
  then show ?thesis using assms(1) i(2) by (auto simp: shard_table_def split: option.splits)
qed

lemma length_flat: "shard_table N S sh \<Longrightarrow> length (flat N S sh) = N * S"
  unfolding flat_def by (subst length_concat_blocks [where k = S]) (auto simp: flat_blocks)

lemma flat_chunk:
  assumes "shard_table N S sh" "off div S < N" "sh ! (off div S) = Some x" "n + off mod S \<le> S"
  shows "take n (drop off (flat N S sh)) = take n (drop (off mod S) x)"
proof -
  let ?xs = "map (\<lambda>i. case sh ! i of Some x \<Rightarrow> x | None \<Rightarrow> replicate S 0) [0..<N]"
  have x: "?xs ! (off div S) = x" using assms(2,3) by simp
  have lx: "length x = S" using flat_blocks [OF assms(1), of x] nth_mem [of "off div S" ?xs] x assms(2) by simp
  have "drop (off div S * S) (concat ?xs) = concat (drop (off div S) ?xs)"
    using flat_blocks [OF assms(1)] by (rule drop_concat_blocks)
  also have "drop (off div S) ?xs = x # drop (Suc (off div S)) ?xs"
    using assms(2) x by (metis Cons_nth_drop_Suc diff_zero length_map length_upt)
  finally have "drop (off div S * S) (flat N S sh) = x @ concat (drop (Suc (off div S)) ?xs)"
    by (simp add: flat_def)
  then have "drop (off mod S) (drop (off div S * S) (flat N S sh)) = drop (off mod S) x @ concat (drop (Suc (off div S)) ?xs)"
    using lx assms(4) by simp
  then have "drop off (flat N S sh) = drop (off mod S) x @ concat (drop (Suc (off div S)) ?xs)"
    by (metis add.commute div_mult_mod_eq drop_drop)
  then show ?thesis using lx assms(4) by simp
qed

lemma readShardSpan_eq:
  assumes "shard_table N S sh"
  shows "off + need \<le> N * S \<Longrightarrow> readShardSpan sh N S need off
    = Some (if avail S sh off need then Some (take need (drop off (flat N S sh))) else None)"
proof (induction need arbitrary: off rule: less_induct)
  case (less need)
  show ?case
  proof (cases "need = 0")
    case True
    then show ?thesis by (simp add: readShardSpan.simps avail_def)
  next
    case False
    have S: "0 < S" "S \<noteq> 0" and N: "N \<le> length sh" using assms by (simp_all add: shard_table_def)
    have "off < N * S" using less.prems False by simp
    then have i: "off div S < N" by (simp add: less_mult_imp_div_less)
    have r: "off mod S < S" using S by simp
    define n where "n = min need (S - off mod S)"
    have n: "0 < n" "n \<le> need" "n + off mod S \<le> S" using False r by (simp_all add: n_def)
    have nd: "need = n + (need - n)" using n(2) by simp
    have av: "avail S sh off need \<longleftrightarrow> sh ! (off div S) \<noteq> None \<and> avail S sh (off + n) (need - n)"
      by (subst nd) (simp only: avail_add avail_shard [OF S(1) n(1,3)])
    show ?thesis
    proof (cases "sh ! (off div S)")
      case None
      then show ?thesis using False S(2) i N av by (subst readShardSpan.simps) simp
    next
      case (Some x)
      have "Some x \<in> set sh" using Some i N by (metis nth_mem order_less_le_trans)
      then have lx: "length x = S" using assms by (simp add: shard_table_def)
      let ?c = "take need (drop (off mod S) x)"
      have lc: "length ?c = n" by (simp add: lx n_def)
      then have c0: "?c \<noteq> []" using n(1) by auto
      have ch: "?c = take n (drop off (flat N S sh))"
      proof -
        have "take n (drop (off mod S) x) = ?c" by (simp add: n_def lx min_def)
        then show ?thesis using flat_chunk [OF assms i Some n(3)] by simp
      qed
      have IH: "readShardSpan sh N S (need - n) (off + n)
          = Some (if avail S sh (off + n) (need - n) then Some (take (need - n) (drop (off + n) (flat N S sh))) else None)"
        using less.prems n(1,2) False by (intro less.IH) simp_all
      have app: "?c @ take (need - n) (drop (off + n) (flat N S sh)) = take need (drop off (flat N S sh))"
        unfolding ch using take_add [of n "need - n" "drop off (flat N S sh)"] n(2)
        by (simp add: add.commute)
      show ?thesis
        using False S(2) i N Some c0 lc IH av app
        by (subst readShardSpan.simps) (simp add: Let_def)
    qed
  qed
qed

section \<open>The records of a payload with holes\<close>

definition salv_rec :: "nat \<Rightarrow> nat \<Rightarrow> bytes option list \<Rightarrow> nat \<Rightarrow> bytes" where
  "salv_rec N S sh i = take l1RecordSize (drop (i * l1RecordSize) (flat N S sh))"

text \<open>Record \<open>i\<close> is whole, or lost with its index field still there and inside the base.\<close>

definition whole :: "nat \<Rightarrow> bytes option list \<Rightarrow> nat \<Rightarrow> bool" where
  "whole S sh i \<longleftrightarrow> avail S sh (i * l1RecordSize) l1RecordSize"

definition nameable :: "nat \<Rightarrow> nat \<Rightarrow> nat \<Rightarrow> bytes option list \<Rightarrow> nat \<Rightarrow> bool" where
  "nameable k N S sh i \<longleftrightarrow> avail S sh (i * l1RecordSize) 8 \<and> in_base k (rec_idx (salv_rec N S sh i))"

definition whole_recs :: "nat \<Rightarrow> nat \<Rightarrow> bytes option list \<Rightarrow> nat \<Rightarrow> bytes list" where
  "whole_recs N S sh n = map (salv_rec N S sh) (filter (whole S sh) [0..<n])"

definition named_lost :: "nat \<Rightarrow> nat \<Rightarrow> nat \<Rightarrow> bytes option list \<Rightarrow> nat \<Rightarrow> int list" where
  "named_lost k N S sh n =
     map (\<lambda>i. rec_idx (salv_rec N S sh i)) (filter (\<lambda>i. \<not> whole S sh i \<and> nameable k N S sh i) [0..<n])"

definition unnamed_lost :: "nat \<Rightarrow> nat \<Rightarrow> nat \<Rightarrow> bytes option list \<Rightarrow> nat \<Rightarrow> bool" where
  "unnamed_lost k N S sh n \<longleftrightarrow> (\<exists>i<n. \<not> whole S sh i \<and> \<not> nameable k N S sh i)"

lemma salv_snoc:
  "whole_recs N S sh (Suc n) = whole_recs N S sh n @ (if whole S sh n then [salv_rec N S sh n] else [])"
  "named_lost k N S sh (Suc n) = named_lost k N S sh n
     @ (if \<not> whole S sh n \<and> nameable k N S sh n then [rec_idx (salv_rec N S sh n)] else [])"
  "unnamed_lost k N S sh (Suc n) \<longleftrightarrow> unnamed_lost k N S sh n \<or> \<not> whole S sh n \<and> \<not> nameable k N S sh n"
  "whole_recs N S sh 0 = []" "named_lost k N S sh 0 = []" "\<not> unnamed_lost k N S sh 0"
  by (auto simp: whole_recs_def named_lost_def unnamed_lost_def less_Suc_eq)

lemma salvageRecord_eq:
  assumes "shard_table N S sh" "(i + 1) * l1RecordSize \<le> N * S"
  shows "salvageRecord sh N S (int k) (i * l1RecordSize) (s, lost) =
    (let r = salv_rec N S sh i in
     Some (if whole S sh i then
             (if \<not> crc_ok r then (s\<lparr>r_skipped := r_skipped s @ [\<lparr>s_idx = rec_idx r, s_data = rec_data r\<rparr>]\<rparr>, lost)
              else if in_base k (rec_idx r) then
                (s\<lparr>r_dev := (r_dev s)\<lparr>dirty := Mapping.update (rec_idx r) (rec_data r) (dirty (r_dev s))\<rparr>\<rparr>, lost)
              else (s\<lparr>r_unattr := True\<rparr>, lost))
           else if nameable k N S sh i then (s\<lparr>r_bad := r_bad s @ [rec_idx r]\<rparr>, lost @ [rec_idx r])
           else (s\<lparr>r_unattr := True\<rparr>, lost)))"
proof -
  define r where "r = salv_rec N S sh i"
  have le: "i * l1RecordSize + l1RecordSize \<le> N * S" using assms(2) by simp
  then have le8: "i * l1RecordSize + 8 \<le> N * S" by (simp add: l1RecordSize_def)
  have full: "readShardSpan sh N S l1RecordSize (i * l1RecordSize)
      = Some (if whole S sh i then Some r else None)"
    using readShardSpan_eq [OF assms(1) le] by (simp add: whole_def r_def salv_rec_def)
  have lr: "length r = l1RecordSize" using le by (simp add: r_def salv_rec_def length_flat [OF assms(1)])
  have l8: "8 \<le> length r" "8 + BlockSize \<le> length r" "take 8 r = take 8 (drop (i * l1RecordSize) (flat N S sh))"
    unfolding lr by (simp_all add: r_def salv_rec_def l1RecordSize_def min_def)
  have idx8: "readShardSpan sh N S 8 (i * l1RecordSize)
      = Some (if avail S sh (i * l1RecordSize) 8 then Some (take 8 r) else None)"
    using readShardSpan_eq [OF assms(1) le8] by (simp add: l8(3))
  have g: "get_u64 (take 8 r) = Some (le_get (take 8 r))" using l8(1) by (simp add: get_u64_Some)
  have dt: "subslice r 8 (8 + BlockSize) = Some (rec_data r)" using l8(2) by (simp add: subslice_Some rec_data_def)
  have ld: "length (rec_data r) = BlockSize" using l8(2) by (simp add: rec_data_def)
  have cp: "copy_into (replicate BlockSize 0) 0 BlockSize (rec_data r) = Some (rec_data r)"
    using ld by (subst copy_into_exact) simp_all
  have ib: "(0 \<le> rec_idx r \<and> rec_idx r < int k) \<longleftrightarrow> in_base k (rec_idx r)" by (simp add: in_base_def)
  have ix: "sint (le_get (take 8 r) :: uint64) = rec_idx r" by (simp add: rec_idx_def)
  have nm: "nameable k N S sh i \<longleftrightarrow> avail S sh (i * l1RecordSize) 8 \<and> in_base k (rec_idx r)"
    by (simp add: nameable_def r_def)
  show ?thesis
    unfolding salvageRecord_def full idx8 r_def [symmetric] nm
    by (cases "whole S sh i"; cases "avail S sh (i * l1RecordSize) 8")
      (simp_all add: readIdx_eq [OF l8(1)] readCRCok_eq [OF lr] dt cp ib g ix Let_def)
qed

lemma salvage_loop_eq:
  assumes "shard_table N S sh" "n * l1RecordSize \<le> N * S"
  shows "for_list (salvageRecord sh N S (int k)) (map (\<lambda>i. i * l1RecordSize) [0..<n])
      (\<lparr>r_dev = \<lparr>base = bs, dirty = Mapping.empty\<rparr>, r_bad = [], r_skipped = [], r_unattr = False\<rparr>, [])
    = (let rs = whole_recs N S sh n in
       Some (\<lparr>r_dev = \<lparr>base = bs, dirty = overlay_of crc_ok k rs\<rparr>, r_bad = named_lost k N S sh n,
              r_skipped = skipped_of crc_ok rs, r_unattr = stray crc_ok k rs \<or> unnamed_lost k N S sh n\<rparr>,
             named_lost k N S sh n))"
  using assms(2)
proof (induction n)
  case 0
  then show ?case by (simp add: salv_snoc)
next
  case (Suc n)
  have "(n + 1) * l1RecordSize \<le> N * S" using Suc.prems by simp
  from salvageRecord_eq [OF assms(1) this] Suc show ?case
    by (simp add: for_list_append Let_def salv_snoc apply_rec_def)
qed

text \<open>rsSalvage on every table of shards that covers the payload.\<close>

definition salv_overlay :: "nat \<Rightarrow> nat \<Rightarrow> nat \<Rightarrow> bytes option list \<Rightarrow> nat \<Rightarrow> (int, bytes) mapping" where
  "salv_overlay k N S sh n = overlay_of crc_ok k (whole_recs N S sh n)"

definition salv_bad :: "nat \<Rightarrow> nat \<Rightarrow> nat \<Rightarrow> bytes option list \<Rightarrow> nat \<Rightarrow> int list" where
  "salv_bad k N S sh n = sorted_list_of_set
     {b \<in> set (named_lost k N S sh n). Mapping.lookup (salv_overlay k N S sh n) b = None}"

definition salv_unnamed :: "nat \<Rightarrow> nat \<Rightarrow> nat \<Rightarrow> bytes option list \<Rightarrow> nat \<Rightarrow> bool" where
  "salv_unnamed k N S sh n \<longleftrightarrow>
     stray crc_ok k (whole_recs N S sh n) \<or> unnamed_lost k N S sh n
     \<or> (\<exists>s\<in>set (skipped_of crc_ok (whole_recs N S sh n)). \<not> explained k (salv_overlay k N S sh n) s)
     \<or> (\<exists>b\<in>set (named_lost k N S sh n). Mapping.lookup (salv_overlay k N S sh n) b \<noteq> None)"

lemma skip_fold': "fold (\<lambda>i u. if P i then True else u) xs u \<longleftrightarrow> u \<or> (\<exists>x\<in>set xs. P x)"
  by (induction xs arbitrary: u) auto

theorem rsSalvage_eq:
  assumes "shard_table N S sh" "P \<le> N * S" "valid_base bs"
  shows "rsSalvage sh N S P bs =
    (let n = P div l1RecordSize; k = nblocks bs in
     Some (report \<lparr>base = bs, dirty = salv_overlay k N S sh n\<rparr> (salv_bad k N S sh n) (salv_unnamed k N S sh n)))"
proof -
  let ?n = "P div l1RecordSize" and ?k = "nblocks bs"
  have "?n * l1RecordSize \<le> P" by simp
  then have le: "?n * l1RecordSize \<le> N * S" using assms(2) by (rule order_trans)
  have nk: "length bs div BlockSize = ?k" by (simp add: nblocks_def)
  note loop = salvage_loop_eq [OF assms(1) le, of ?k bs, unfolded Let_def, folded salv_overlay_def]
  show ?thesis
    unfolding rsSalvage_def New_valid [OF assms(3)] nk Let_def bind.bind_lunit
      range_le_from_0 [OF l1RecordSize_pos(1)] loop prod.case
    by (auto simp: suppressed_eq skip_fold skip_fold' finalizeBad_eq salv_bad_def salv_unnamed_def)
qed

end
