(* ===== verification/Totality.thy ===== *)
theory Totality
  imports RSSalvage
begin

text \<open>
  Deserialize on arbitrary bytes: it returns for every blob, the device it returns is over the
  given base with a well-formed overlay, and the report that comes with it is well-formed.
\<close>

definition sound_report :: "device \<Rightarrow> partial_recovery option \<Rightarrow> bool" where
  "sound_report d rep \<longleftrightarrow>
     (case rep of None \<Rightarrow> True
      | Some q \<Rightarrow> (BadBlocks q \<noteq> [] \<or> Truncated q) \<and> sorted (BadBlocks q) \<and> distinct (BadBlocks q)
          \<and> (\<forall>b\<in>set (BadBlocks q). in_base (nblocks (base d)) b \<and> Mapping.lookup (dirty d) b = None))"

definition sound_result :: "bytes \<Rightarrow> format_error + device \<times> partial_recovery option \<Rightarrow> bool" where
  "sound_result bs r \<longleftrightarrow>
     (case r of Inl e \<Rightarrow> True
      | Inr (d, rep) \<Rightarrow> valid_device d \<and> base d = bs \<and> sound_report d rep)"

lemma sound_result_report:
  assumes "valid_base bs" "valid_overlay (nblocks bs) m" "sorted bad" "distinct bad"
    "\<forall>b\<in>set bad. in_base (nblocks bs) b \<and> Mapping.lookup m b = None"
  shows "sound_result bs (Inr (report \<lparr>base = bs, dirty = m\<rparr> bad u))"
  using assms by (auto simp: sound_result_def report_def sound_report_def valid_device_def)

lemma rec_list_lengths:
  assumes "r \<in> set (rec_list t body bc)"
  shows "8 + BlockSize \<le> length r"
proof -
  have "rec_count t body bc * tier_size t \<le> length body div tier_size t * tier_size t"
    by (intro mult_le_mono1) (simp add: rec_count_def)
  then have "rec_count t body bc * tier_size t \<le> length body" using div_times_less_eq_dividend le_trans by blast
  from pieces_length [OF this] assms show ?thesis by (simp add: rec_list_def)
qed

lemma applyRecords_sound:
  assumes "valid_base bs" "int (length body) < 2 ^ 63"
  shows "\<exists>r. applyRecords body t bc bs = Some r \<and> sound_result bs (Inr r)"
proof -
  let ?k = "nblocks bs"
  have "valid_overlay ?k (body_overlay t ?k body bc)"
    unfolding body_overlay_def using rec_list_lengths by (rule overlay_of_valid)
  moreover have "sorted (named_loss t ?k body bc)" "distinct (named_loss t ?k body bc)"
    "\<forall>b\<in>set (named_loss t ?k body bc). in_base ?k b \<and> Mapping.lookup (body_overlay t ?k body bc) b = None"
    by (auto simp: named_loss_def tail_named_def)
  ultimately show ?thesis
    using applyRecords_eq [OF assms] sound_result_report [OF assms(1)] by blast
qed

lemma rsSalvage_sound:
  assumes "shard_table N S sh" "P \<le> N * S" "valid_base bs"
  shows "\<exists>r. rsSalvage sh N S P bs = Some r \<and> sound_result bs (Inr r)"
proof -
  let ?k = "nblocks bs" and ?n = "P div l1RecordSize"
  have "?n * l1RecordSize \<le> P" by simp
  then have le: "?n * l1RecordSize \<le> N * S" using assms(2) by (rule order_trans)
  have "length r = l1RecordSize" if "r \<in> set (whole_recs N S sh ?n)" for r
  proof -
    have "r \<in> salv_rec N S sh ` {..<?n}" using that by (auto simp: whole_recs_def)
    then obtain i where "i < ?n" "r = salv_rec N S sh i" by blast
    then show ?thesis
      using piece_bounds [of i ?n l1RecordSize "N * S"] le by (simp add: salv_rec_def length_flat [OF assms(1)])
  qed
  then have "valid_overlay ?k (salv_overlay ?k N S sh ?n)"
    unfolding salv_overlay_def by (intro overlay_of_valid) (simp add: l1RecordSize_def)
  moreover have "finite {b \<in> set (named_lost ?k N S sh ?n). Mapping.lookup (salv_overlay ?k N S sh ?n) b = None}"
    by simp
  then have "sorted (salv_bad ?k N S sh ?n)" "distinct (salv_bad ?k N S sh ?n)"
    "\<forall>b\<in>set (salv_bad ?k N S sh ?n). in_base ?k b \<and> Mapping.lookup (salv_overlay ?k N S sh ?n) b = None"
    by (auto simp: salv_bad_def named_lost_def nameable_def)
  ultimately show ?thesis
    using rsSalvage_eq [OF assms] sound_result_report [OF assms(3)] by (auto simp: Let_def)
qed

section \<open>The slot table and the codec\<close>

lemma slots_of_lengths:
  assumes "\<forall>f\<in>set fs. length f = stride S" "Some x \<in> set (slots_of t fs)"
  shows "length x = S"
proof -
  obtain j where j: "j < t" "slots_of t fs ! j = Some x" using assms(2) by (auto simp: in_set_conv_nth)
  then obtain f where "find (\<lambda>f. frame_ok f \<and> frame_idx f = j) fs = Some f" "x = frame_data f"
    by (auto simp: slots_of_nth)
  then have "f \<in> set fs" "x = frame_data f" by (auto dest: find_SomeD)
  then show ?thesis using assms(1) by (simp add: frame_data_def stride_def)
qed

text \<open>After a successful Reconstruct the data shards make the payload.\<close>

lemma reconstructed_payload:
  assumes "length sl = N + K" "\<forall>y. Some y \<in> set sl \<longrightarrow> length y = S" "None \<notin> set (take N sl)"
  shows "length (concat (map (\<lambda>i. case sl ! i of Some x \<Rightarrow> x | None \<Rightarrow> []) [0..<N])) = N * S"
proof -
  have "length (case sl ! i of Some x \<Rightarrow> x | None \<Rightarrow> []) = S" if "i < N" for i
  proof -
    have "sl ! i \<in> set sl" using that assms(1) by simp
    moreover have "sl ! i \<in> set (take N sl)"
      using that assms(1) nth_mem [of i "take N sl"] by simp
    ultimately obtain y where y: "sl ! i = Some y" using assms(3) by (metis not_None_eq)
    then have "length y = S" using assms(2) \<open>sl ! i \<in> set sl\<close> by metis
    with y show ?thesis by simp
  qed
  then show ?thesis by (subst length_concat_blocks [where k = S]) auto
qed

lemma deserializeRS_sound:
  assumes rs: "rs_shape rs" and len: "int (length body) < 2 ^ 61" and vb: "valid_base bs"
  shows "\<exists>r. deserializeRS rs body bc bs = Some r \<and> sound_result bs r"
proof (cases "length body < rsMetaSize \<or> \<not> meta_crc_ok body
    \<or> \<not> meta_accepts (length body) bc (meta_N body) (meta_K body) (meta_S body) (meta_P body)")
  case True
  then show ?thesis
    by (simp add: deserializeRS_def parseRSMeta_eq [OF len] Let_def sound_result_def)
next
  case False
  let ?N = "meta_N body" and ?K = "meta_K body" and ?S = "meta_S body" and ?P = "unat (meta_P body)"
  have parse: "parseRSMeta body bc = Some (Inr \<lparr>g_dataShards = ?N, g_parityShards = ?K, g_shardSize = ?S, g_payloadLen = ?P\<rparr>)"
    using False by (simp add: parseRSMeta_eq [OF len] Let_def)
  have acc: "1 \<le> ?N" "?P \<le> ?N * ?S" "(?N + ?K) * ?S \<le> 2 ^ 33" using False by (simp_all add: meta_accepts_def)
  have "?N * ?S \<le> (?N + ?K) * ?S" by (intro mult_le_mono1) simp
  then have P33: "?P \<le> 2 ^ 33" using acc by linarith
  have wrap: "\<exists>r. (do { x \<leftarrow> m; Some (Inr x) }) = Some r \<and> sound_result bs r"
    if "\<exists>x. m = Some x \<and> sound_result bs (Inr x)" for m
    using that by auto
  show ?thesis
  proof (cases "?P = 0")
    case True
    have "\<exists>x. applyRecords [] TierL1 bc bs = Some x \<and> sound_result bs (Inr x)"
      by (rule applyRecords_sound [OF vb]) simp
    from wrap [OF this] show ?thesis
      unfolding deserializeRS_def parse bind.bind_lunit sum.case Let_def rsGeometry.simps using True by simp
  next
    case P: False
    then have S: "0 < ?S" using acc(2) by (cases ?S) simp_all
    let ?sect = "drop rsMetaSize body"
    let ?fs = "pieces (stride ?S) (length ?sect div stride ?S) ?sect"
    let ?sl = "slots_of (?N + ?K) ?fs"
    have sect: "subslice body rsMetaSize (length body) = Some ?sect" using False by (simp add: subslice_Some)
    have fl: "\<forall>f\<in>set ?fs. length f = stride ?S"
      by (intro ballI pieces_length [OF div_times_less_eq_dividend])
    have sl: "length ?sl = ?N + ?K" "\<forall>x. Some x \<in> set ?sl \<longrightarrow> length x = ?S"
      by (rule length_slots_of, intro allI impI, rule slots_of_lengths [OF fl])
    have salv: "\<exists>x. rsSalvage t ?N ?S ?P bs = Some x \<and> sound_result bs (Inr x)"
      if "length t = ?N + ?K" "\<forall>x. Some x \<in> set t \<longrightarrow> length x = ?S" for t
      using that S by (intro rsSalvage_sound [OF _ acc(2) vb]) (simp add: shard_table_def)
    obtain ok t where t: "rs_reconstruct rs ?N ?K ?sl = (ok, t)" by (cases "rs_reconstruct rs ?N ?K ?sl")
    have tl: "length t = ?N + ?K" "\<forall>x. Some x \<in> set t \<longrightarrow> length x = ?S" "ok \<Longrightarrow> None \<notin> set (take ?N t)"
      using rs t sl unfolding rs_shape_def by blast+
    let ?pay = "concat (map (\<lambda>i. case t ! i of Some x \<Rightarrow> x | None \<Rightarrow> []) [0..<?N])"
    have pay: "\<exists>x. applyRecords (take ?P ?pay) TierL1 bc bs = Some x \<and> sound_result bs (Inr x)"
      if ok
    proof (rule applyRecords_sound [OF vb])
      have "length (take ?P ?pay) \<le> 2 ^ 33" using P33 by simp
      then show "int (length (take ?P ?pay)) < 2 ^ 63" by (intro int_below_2p63) simp
    qed
    have cut: "subslice ?pay 0 ?P = Some (take ?P ?pay)" if ok
      using reconstructed_payload [OF tl(1,2) tl(3) [OF that]] acc(2) by (simp add: subslice_Some)
    have ln: "\<not> length t < ?N" using tl(1) by simp
    show ?thesis
      unfolding deserializeRS_def parse bind.bind_lunit sum.case Let_def rsGeometry.simps if_not_P [OF P]
        sect parseShardSection_eq prod.case t if_not_P [OF ln]
      using wrap [OF salv [OF sl]] wrap [OF salv [OF tl(1,2)]] wrap [OF pay] cut
      by (cases ok) (auto simp: sound_result_def)
  qed
qed

section \<open>Deserialize\<close>

lemma deserializeHeaderless_sound:
  assumes "valid_base bs" "headerSize \<le> length blob"
  shows "\<exists>r. deserializeHeaderless blob bs = Some r \<and> sound_result bs r"
proof -
  let ?body = "drop headerSize blob"
  let ?rs = "pieces l1RecordSize (length ?body div l1RecordSize) ?body"
  have lr: "length r = l1RecordSize" if "r \<in> set ?rs" for r
    by (rule pieces_length [OF div_times_less_eq_dividend that])
  have "valid_overlay (nblocks bs) (overlay_of crc_ok (nblocks bs) ?rs)"
  proof (rule overlay_of_valid)
    show "8 + BlockSize \<le> length r" if "r \<in> set ?rs" for r
      unfolding lr [OF that] by (simp add: l1RecordSize_def)
  qed
  then show ?thesis
    unfolding deserializeHeaderless_eq [OF assms] Let_def
    using assms(1) by (auto simp: sound_result_def sound_report_def valid_device_def)
qed

lemma Deserialize_sound:
  assumes "rs_shape rs" "int (length blob) < 2 ^ 61" "int (length bs) < 2 ^ 63"
  shows "\<exists>r. Deserialize rs blob bs = Some r \<and> sound_result bs r"
proof (cases "length bs mod BlockSize \<noteq> 0 \<or> length blob < headerSize")
  case True
  then show ?thesis by (auto simp: Deserialize_def sound_result_def)
next
  case False
  then have vb: "valid_base bs" and al: "length bs mod BlockSize = 0" and hs: "headerSize \<le> length blob"
    using assms(3) by (simp_all add: valid_base_def)
  have body: "int (length (drop headerSize blob)) < 2 ^ 61" "int (length (drop headerSize blob)) < 2 ^ 63"
    using assms(2) by simp_all
  show ?thesis
    unfolding Deserialize_eq [OF al hs]
    using applyRecords_sound [OF vb body(2), of "blob ! 5" "hdr_count blob"]
      deserializeRS_sound [OF assms(1) body(1) vb, of "hdr_count blob"]
      deserializeHeaderless_sound [OF vb hs]
    by (auto simp: sound_result_def)
qed

text \<open>
  C3: Deserialize returns for every blob and every base - no slice, index or length in the decoder
  is ever out of range - and when it returns a device, the device is over the given base, its
  overlay consists of whole blocks inside the base, and a report next to it is never empty and
  lists in ascending order, without repeats, only blocks of the base that read as base data.
\<close>

theorem Deserialize_total:
  assumes "rs_shape rs" "int (length blob) < 2 ^ 61" "int (length bs) < 2 ^ 63"
  shows "\<exists>r. Deserialize rs blob bs = Some r
    \<and> (\<forall>d rep. r = Inr (d, rep) \<longrightarrow> valid_device d \<and> base d = bs
        \<and> (\<forall>q. rep = Some q \<longrightarrow> (BadBlocks q \<noteq> [] \<or> Truncated q)
             \<and> sorted (BadBlocks q) \<and> distinct (BadBlocks q)
             \<and> (\<forall>b\<in>set (BadBlocks q). 0 \<le> b \<and> b < int (nblocks bs) \<and> Mapping.lookup (dirty d) b = None)))"
  using Deserialize_sound [OF assms] by (auto simp: sound_result_def sound_report_def in_base_def)

theorem Deserialize_total_witness:
  "\<exists>r. Deserialize replica_rs (header TierL2 1 @ [1, 2, 3]) sample_base = Some r
    \<and> (\<forall>d rep. r = Inr (d, rep) \<longrightarrow> base d = sample_base)"
proof -
  have "int (length (header TierL2 1 @ [1, 2, 3])) < 2 ^ 61" "int (length sample_base) < 2 ^ 63"
    by (simp_all add: headerSize_def sample_base_def BlockSize_def)
  from Deserialize_total [OF replica_shape this] show ?thesis by blast
qed

end
