(* ===== verification/RSLoss.thy ===== *)
theory RSLoss
  imports Totality
begin

text \<open>
  More lost shards than parity: what the salvage path recovers of a serialized device and how
  it reports the rest.
\<close>

section \<open>The payload seen through the shards that are left\<close>

definition left_of :: "nat \<Rightarrow> nat \<Rightarrow> nat set \<Rightarrow> bytes list \<Rightarrow> bytes option list" where
  "left_of N K lost enc = map (\<lambda>j. if j \<in> lost then None else Some (enc ! j)) [0..<N + K]"

lemma left_of_table:
  assumes "length enc = N + K" "\<forall>y\<in>set enc. length y = S" "0 < S"
  shows "shard_table N S (left_of N K lost enc)"
proof -
  have "length x = S" if "Some x \<in> set (left_of N K lost enc)" for x
  proof -
    have "x \<in> set enc" using that assms(1) by (auto simp: left_of_def split: if_splits)
    then show ?thesis using assms(2) by blast
  qed
  then show ?thesis using assms(3) by (auto simp: shard_table_def left_of_def)
qed

lemma flat_left:
  assumes enc: "length enc = N + K" "\<forall>y\<in>set enc. length y = S" "take N enc = data_shards N S p"
    and "0 < S" "length p \<le> N * S" "off + n \<le> length p"
    and av: "avail S (left_of N K lost enc) off n"
  shows "take n (drop off (flat N S (left_of N K lost enc))) = take n (drop off p)"
proof (rule nth_equalityI)
  let ?sl = "left_of N K lost enc"
  note tb = left_of_table [OF enc(1,2) assms(4), of lost]
  have lf: "length (flat N S ?sl) = N * S" using tb by (rule length_flat)
  show "length (take n (drop off (flat N S ?sl))) = length (take n (drop off p))"
    using lf assms(5,6) by simp
  fix q assume "q < length (take n (drop off (flat N S ?sl)))"
  then have q: "q < n" by simp
  let ?q = "off + q"
  let ?xs = "map (\<lambda>i. case ?sl ! i of Some x \<Rightarrow> x | None \<Rightarrow> replicate S 0) [0..<N]"
  have qN: "?q < N * S" using q assms(5,6) by linarith
  then have i: "?q div S < N" by (simp add: less_mult_imp_div_less)
  have "?sl ! (?q div S) \<noteq> None" using av q by (simp add: avail_def)
  then have s: "?sl ! (?q div S) = Some (enc ! (?q div S))" using i by (simp add: left_of_def split: if_splits)
  have "flat N S ?sl ! ?q = ?xs ! (?q div S) ! (?q mod S)"
    unfolding flat_def using flat_blocks [OF tb] qN assms(4) by (intro nth_concat_blocks) simp_all
  also have "\<dots> = enc ! (?q div S) ! (?q mod S)" using i s by simp
  also have "enc ! (?q div S) = data_shards N S p ! (?q div S)" using i enc(3) by (metis nth_take)
  also have "\<dots> ! (?q mod S) = p ! ?q"
    using data_shard_nth(2) [OF assms(5) i, of "?q mod S"] assms(4,6) q by simp
  finally show "take n (drop off (flat N S ?sl)) ! q = take n (drop off p) ! q"
    using q lf qN assms(6) by simp
qed

section \<open>The records that are left\<close>

lemma payload_record:
  assumes "fits True d ks" "i < length ks"
  shows "take l1RecordSize (drop (i * l1RecordSize) (records_bytes True d ks)) = dump (enc_record True) (dirty d) ks ! i"
proof -
  note f = fits_facts [OF assms(1)]
  have "pieces l1RecordSize (length ks) (concat (dump (enc_record True) (dirty d) ks) @ [])
      = take (length ks) (dump (enc_record True) (dirty d) ks)"
    using rt.pieces_dump [OF f(2,4) order_refl, of True "[]"] by (simp add: enc_size_True)
  then have "pieces l1RecordSize (length ks) (records_bytes True d ks) ! i = dump (enc_record True) (dirty d) ks ! i"
    using assms(2) by (simp add: records_bytes_def)
  then show ?thesis using assms(2) by (simp add: pieces_def)
qed

text \<open>Bytes \<open>[off, off+n)\<close> of the payload avoid the lost shards.\<close>

definition kept_span :: "nat \<Rightarrow> nat set \<Rightarrow> nat \<Rightarrow> nat \<Rightarrow> bool" where
  "kept_span S lost off n \<longleftrightarrow> (\<forall>q\<in>{off..<off + n}. q div S \<notin> lost)"

lemma kept_span_avail:
  assumes "off + n \<le> N * S" "0 < S"
  shows "avail S (left_of N K lost enc) off n \<longleftrightarrow> kept_span S lost off n"
proof -
  have "left_of N K lost enc ! (q div S) \<noteq> None \<longleftrightarrow> q div S \<notin> lost" if "q < off + n" for q
  proof -
    have "q div S < N" using that assms by (simp add: less_mult_imp_div_less)
    then show ?thesis by (simp add: left_of_def)
  qed
  then show ?thesis by (auto simp: avail_def kept_span_def)
qed

definition whole_keys :: "nat \<Rightarrow> nat set \<Rightarrow> int list \<Rightarrow> int list" where
  "whole_keys S lost ks = map ((!) ks) (filter (\<lambda>i. kept_span S lost (i * l1RecordSize) l1RecordSize) [0..<length ks])"

definition named_keys :: "nat \<Rightarrow> nat set \<Rightarrow> int list \<Rightarrow> int list" where
  "named_keys S lost ks = map ((!) ks) (filter (\<lambda>i. \<not> kept_span S lost (i * l1RecordSize) l1RecordSize
     \<and> kept_span S lost (i * l1RecordSize) 8) [0..<length ks])"

definition anonymous_loss :: "nat \<Rightarrow> nat set \<Rightarrow> int list \<Rightarrow> bool" where
  "anonymous_loss S lost ks \<longleftrightarrow> (\<exists>i\<in>{..<length ks}. \<not> kept_span S lost (i * l1RecordSize) 8)"

lemma kept_span_prefix: "kept_span S lost off n \<Longrightarrow> m \<le> n \<Longrightarrow> kept_span S lost off m"
  by (simp add: kept_span_def)

lemma salvage_of_device:
  assumes fits: "fits True d ks" and "distinct ks"
    and enc: "length enc = N + K" "\<forall>y\<in>set enc. length y = S"
      "take N enc = data_shards N S (records_bytes True d ks)"
    and S: "0 < S" and le: "length (records_bytes True d ks) \<le> N * S"
  shows "rsSalvage (left_of N K lost enc) N S (length (records_bytes True d ks)) (base d) = Some (report
    (d\<lparr>dirty := restrict_overlay (dirty d) (set (whole_keys S lost ks))\<rparr>)
    (sorted_list_of_set (set (named_keys S lost ks))) (anonymous_loss S lost ks))"
proof -
  note f = fits_facts [OF fits]
  let ?sl = "left_of N K lost enc" and ?k = "nblocks (base d)" and ?n = "length ks"
  let ?m = "restrict_overlay (dirty d) (set (whole_keys S lost ks))"
  have pn: "length (records_bytes True d ks) = ?n * l1RecordSize" using f(5) by (simp add: enc_size_True)
  then have dv: "length (records_bytes True d ks) div l1RecordSize = ?n" by simp
  have bnd: "i * l1RecordSize + l1RecordSize \<le> length (records_bytes True d ks)" if "i < ?n" for i
    using piece_bounds [OF that, of l1RecordSize "length (records_bytes True d ks)"] pn by simp
  have w: "whole S ?sl i \<longleftrightarrow> kept_span S lost (i * l1RecordSize) l1RecordSize" if "i < ?n" for i
    unfolding whole_def using bnd [OF that] le S by (intro kept_span_avail) simp_all
  have a8: "avail S ?sl (i * l1RecordSize) 8 \<longleftrightarrow> kept_span S lost (i * l1RecordSize) 8" if "i < ?n" for i
    using bnd [OF that] le S by (intro kept_span_avail) (simp_all add: l1RecordSize_def)
  have r: "salv_rec N S ?sl i = dump (enc_record True) (dirty d) ks ! i" if "i < ?n" "whole S ?sl i" for i
    unfolding salv_rec_def payload_record [OF fits that(1), symmetric]
    using that bnd [OF that(1)] by (intro flat_left [OF enc S le]) (simp_all add: whole_def)
  have ix: "rec_idx (salv_rec N S ?sl i) = ks ! i" if "i < ?n" "avail S ?sl (i * l1RecordSize) 8" for i
  proof -
    have "take 8 (salv_rec N S ?sl i) = take 8 (drop (i * l1RecordSize) (records_bytes True d ks))"
      using flat_left [OF enc S le _ that(2)] bnd [OF that(1)] by (simp add: salv_rec_def l1RecordSize_def min_def)
    also have "\<dots> = take 8 (dump (enc_record True) (dirty d) ks ! i)"
      unfolding payload_record [OF fits that(1), symmetric] by (simp add: l1RecordSize_def min_def)
    finally show ?thesis using dump_nth(3) [OF fits that(1)] by (simp add: rec_idx_def)
  qed
  have nm: "nameable ?k N S ?sl i \<longleftrightarrow> kept_span S lost (i * l1RecordSize) 8" if "i < ?n" for i
    using ix [OF that] a8 [OF that] dump_nth(4) [OF fits that] by (auto simp: nameable_def)
  have wr: "whole_recs N S ?sl ?n = dump (enc_record True) (dirty d) (whole_keys S lost ks)"
    unfolding whole_recs_def whole_keys_def dump_def map_map
    using w r by (intro map_cong filter_cong) (auto simp: dump_def)
  have nl: "named_lost ?k N S ?sl ?n = named_keys S lost ks"
    unfolding named_lost_def named_keys_def
    using w nm ix a8 by (intro map_cong filter_cong) auto
  have ul: "unnamed_lost ?k N S ?sl ?n \<longleftrightarrow> anonymous_loss S lost ks"
  proof -
    have "\<not> whole S ?sl i \<and> \<not> nameable ?k N S ?sl i \<longleftrightarrow> \<not> kept_span S lost (i * l1RecordSize) 8" if "i < ?n" for i
      using w [OF that] nm [OF that] kept_span_prefix [of S lost "i * l1RecordSize" l1RecordSize 8]
      by (auto simp: l1RecordSize_def)
    then show ?thesis by (auto simp: unnamed_lost_def anonymous_loss_def)
  qed
  have wk: "set (whole_keys S lost ks) \<subseteq> set ks" by (auto simp: whole_keys_def)
  have ov: "salv_overlay ?k N S ?sl ?n = ?m"
    using overlay_of_dump_restrict [OF fits wk] by (simp add: salv_overlay_def wr tier_of_def)
  have cl: "skipped_of crc_ok (whole_recs N S ?sl ?n) = []" "\<not> stray crc_ok ?k (whole_recs N S ?sl ?n)"
    using dump_clean_fits [OF fits wk] by (simp_all add: wr tier_of_def)
  have none: "Mapping.lookup ?m b = None" if "b \<in> set (named_keys S lost ks)" for b
  proof -
    have "b \<notin> set (whole_keys S lost ks)"
      using that assms(2) by (auto simp: named_keys_def whole_keys_def nth_eq_iff_index_eq)
    then show ?thesis by (simp add: lookup_restrict_overlay)
  qed
  have "salv_bad ?k N S ?sl ?n = sorted_list_of_set (set (named_keys S lost ks))"
    using none by (auto simp: salv_bad_def nl ov intro!: arg_cong [where f = sorted_list_of_set])
  moreover have "salv_unnamed ?k N S ?sl ?n \<longleftrightarrow> anonymous_loss S lost ks"
    using none cl by (auto simp: salv_unnamed_def nl ov ul)
  moreover have "d\<lparr>dirty := ?m\<rparr> = \<lparr>base = base d, dirty = ?m\<rparr>" by simp
  ultimately show ?thesis
    unfolding rsSalvage_eq [OF left_of_table [OF enc(1,2) S] le f(1), of lost] dv Let_def ov by (simp only: )
qed

section \<open>A loss beyond the parity is never silent\<close>

text \<open>Every data shard holds payload bytes: the padding is shorter than a shard.\<close>

lemma data_shard_nonempty:
  assumes "geometry_ok N K p" "p = c * l1RecordSize" "0 < p" "S = shard_size N p" "j < N"
  shows "j * S < p" "0 < S"
proof -
  have N: "1 \<le> N" "N \<le> 63" using assms(1) by (auto simp: geometry_ok_def)
  note sf = shard_size_facts [OF N(1) assms(3), folded assms(4)]
  have "c \<noteq> 0" using assms(2,3) by (cases c) simp_all
  then have p: "4108 \<le> p" using assms(2) by (simp add: l1RecordSize_def BlockSize_def)
  have "N \<le> S"
  proof (rule ccontr)
    assume "\<not> N \<le> S"
    then have "N * S \<le> 63 * 62" using N by (intro mult_le_mono) simp_all
    then show False using sf(2) p by simp
  qed
  then show "0 < S" using N by simp
  have "N * S \<le> p + N - 1"
    using assms(3,4) by (simp add: shard_size_def)
  moreover have "Suc j * S \<le> N * S" using assms(5) by (intro mult_le_mono1) simp
  then have "j * S + S \<le> N * S" by simp
  ultimately show "j * S < p" using \<open>N \<le> S\<close> N by linarith
qed

lemma lost_record_reported:
  assumes "j * S < length ks * l1RecordSize" "j \<in> lost" "0 < S" "distinct ks"
  shows "named_keys S lost ks \<noteq> [] \<or> anonymous_loss S lost ks"
proof -
  let ?i = "j * S div l1RecordSize"
  have i: "?i < length ks" using assms(1) by (rule less_mult_imp_div_less)
  have "j * S = ?i * l1RecordSize + j * S mod l1RecordSize" "j * S mod l1RecordSize < l1RecordSize"
    by simp_all
  then have "j * S \<in> {?i * l1RecordSize..<?i * l1RecordSize + l1RecordSize}" by (metis add_less_cancel_left atLeastLessThan_iff le_add1)
  moreover have "j * S div S \<in> lost" using assms(2,3) by simp
  ultimately have "\<not> kept_span S lost (?i * l1RecordSize) l1RecordSize"
    unfolding kept_span_def by blast
  then show ?thesis
    using i by (auto simp: named_keys_def anonymous_loss_def filter_empty_conv)
qed

lemma report_of_loss: "bad \<noteq> [] \<or> u \<Longrightarrow> report d bad u = (d, Some \<lparr>BadBlocks = bad, Truncated = u\<rparr>)"
  by (auto simp: report_def)

lemma written_frames_lost:
  assumes "length enc = t" "t \<le> 64" "fs = frames enc" "\<forall>g\<in>set gs. g \<in> set fs \<or> \<not> frame_ok g"
  shows "lost_shards t gs = {i. i < t \<and> fs ! i \<notin> set gs}"
proof (rule antisym [OF written_frames_sound(2) [OF assms]])
  have ix: "frame_idx (fs ! i) = i" if "i < t" for i
    using that assms(1,2) frame_fields [of i "enc ! i"] by (simp add: assms(3) frames_nth)
  show "{i. i < t \<and> fs ! i \<notin> set gs} \<subseteq> lost_shards t gs"
  proof
    fix i assume i: "i \<in> {i. i < t \<and> fs ! i \<notin> set gs}"
    have "\<not> (\<exists>g\<in>set gs. frame_ok g \<and> frame_idx g = i)"
    proof
      assume "\<exists>g\<in>set gs. frame_ok g \<and> frame_idx g = i"
      then obtain g where g: "g \<in> set gs" "frame_ok g" "frame_idx g = i" by blast
      then have "g \<in> set fs" using assms(4) by blast
      then obtain j where "j < t" "g = fs ! j" using assms(1,3) by (auto simp: in_set_conv_nth)
      then show False using ix g i by auto
    qed
    then show "i \<in> lost_shards t gs" using i by (simp add: lost_shards_def)
  qed
qed

end
