(* ===== verification/RSLossTheorems.thy ===== *)
theory RSLossTheorems
  imports RSLoss
begin

text \<open>
  The Reed-Solomon tier with more lost shards than parity, end to end: Deserialize takes the
  salvage path, keeps the records whose bytes are all in surviving shards, and reports every
  other record.
\<close>

section \<open>Decoding a blob with too few frames\<close>

lemma deserializeRS_salvages:
  assumes parse: "parseRSMeta (m @ sect) bc
      = Some (Inr \<lparr>g_dataShards = N, g_parityShards = K, g_shardSize = S, g_payloadLen = p\<rparr>)"
    and "length m = rsMetaSize" "0 < p" "length enc = N + K"
    and fs: "fs = pieces (stride S) (length sect div stride S) sect"
    and sound: "sound_frames (N + K) enc fs" "K < card (lost_shards (N + K) fs)"
  shows "deserializeRS rs (m @ sect) bc bs
    = map_option Inr (rsSalvage (left_of N K (lost_shards (N + K) fs) enc) N S p bs)"
proof -
  let ?sl = "slots_of (N + K) fs"
  have sect: "subslice (m @ sect) rsMetaSize (length (m @ sect)) = Some sect"
    using assms(2) by (simp add: subslice_Some)
  have ps: "parseShardSection sect (N + K) S = Some (?sl, card (lost_shards (N + K) fs))"
    by (simp only: parseShardSection_eq fs [symmetric] Let_def sound_slots(2) [OF sound(1)])
  have sl: "?sl = left_of N K (lost_shards (N + K) fs) enc"
    using sound_slots(1) [OF sound(1)] by (intro nth_equalityI) (simp_all add: left_of_def)
  have ln: "p \<noteq> 0" "\<not> card (lost_shards (N + K) fs) \<le> K" using assms(3) sound(2) by simp_all
  show ?thesis
    unfolding deserializeRS_def parse bind.bind_lunit sum.case Let_def rsGeometry.simps if_not_P [OF ln(1)]
      sect ps prod.case if_not_P [OF ln(2)] sl
    by (simp add: map_conv_bind_option o_def)
qed

lemma rs_sections_salvage:
  assumes d: "valid_device d" and p: "p = length (payload_of d)" and c: "c = card (Mapping.keys (dirty d))"
    and geo: "geometry_ok N K p" "S = shard_size N p" "(N + K) * S \<le> 2 ^ 33" "0 < p"
    and enc: "length enc = N + K" "\<forall>y\<in>set enc. length y = S" "take N enc = data_shards N S (payload_of d)"
    and fs: "fs = pieces (stride S) (length sect div stride S) sect" and len: "length sect < 2 ^ 60"
    and size: "(N + K) * stride S \<le> 4 * (rsMetaSize + length sect)"
    and sound: "sound_frames (N + K) enc fs" and lost: "lost = lost_shards (N + K) fs" "K < card lost"
    and ks: "ks = sorted_list_of_set (Mapping.keys (dirty d))"
  shows "Deserialize rs (header TierL2 c @ rs_meta N K S p @ sect) (base d) = Some (Inr
    (d\<lparr>dirty := restrict_overlay (dirty d) (set (whole_keys S lost ks))\<rparr>,
     Some \<lparr>BadBlocks = sorted_list_of_set (set (named_keys S lost ks)), Truncated = anonymous_loss S lost ks\<rparr>))"
proof -
  have N: "1 \<le> N" using geo(1) by (simp add: geometry_ok_def)
  have pN: "p \<le> N * S" using shard_size_facts(2) [OF N geo(4)] geo(2) by simp
  have "N * S \<le> (N + K) * S" by (intro mult_le_mono1) simp
  then have p33: "p \<le> 2 ^ 33" using pN geo(3) by linarith
  then have p62: "length (payload_of d) < 2 ^ 62" and p63: "p < 2 ^ 63" by (simp_all add: p)
  have pc: "p = c * l1RecordSize" using payload_of_length [OF d] p c by simp
  have vb: "valid_base (base d)" using d by (simp add: valid_device_def)
  have "length (rs_meta N K S p @ sect) < 2 ^ 61" using len by (simp add: rsMetaSize_def)
  then have l61: "int (length (rs_meta N K S p @ sect)) < 2 ^ 61"
    by (metis of_nat_less_iff of_nat_numeral of_nat_power)
  have parse: "parseRSMeta (rs_meta N K S p @ sect) (of_nat c)
      = Some (Inr \<lparr>g_dataShards = N, g_parityShards = K, g_shardSize = S, g_payloadLen = p\<rparr>)"
    by (rule parseRSMeta_rs_meta [OF geo(1) pc p63 geo(2,3) size l61])
  have k: "ks = sorted_keys d" by (simp add: ks sorted_keys_def)
  have pay: "payload_of d = records_bytes True d ks" by (simp add: k payload_of_def)
  note sf = sorted_keys_facts [OF d]
  have fits: "fits True d ks" using payload_fits [OF d p62] by (simp add: k)
  have dist: "distinct ks" by (simp add: ks)
  have klen: "length ks = c" using sf k c by simp
  obtain j where j: "j \<in> lost" "j < N"
  proof -
    have "\<not> lost \<subseteq> {N..<N + K}"
    proof
      assume "lost \<subseteq> {N..<N + K}"
      then have "card lost \<le> card {N..<N + K}" by (intro card_mono) simp_all
      then show False using lost(2) by simp
    qed
    moreover have "lost \<subseteq> {..<N + K}" by (auto simp: lost lost_shards_def)
    ultimately show ?thesis using that by (meson atLeastLessThan_iff lessThan_iff not_le subset_iff)
  qed
  note ne = data_shard_nonempty [OF geo(1) pc geo(4,2) j(2)]
  have rep: "sorted_list_of_set (set (named_keys S lost ks)) \<noteq> [] \<or> anonymous_loss S lost ks"
    using lost_record_reported [of j S ks lost] ne j(1) dist pc klen by simp
  have "rsSalvage (left_of N K lost enc) N S p (base d) = Some (report
      (d\<lparr>dirty := restrict_overlay (dirty d) (set (whole_keys S lost ks))\<rparr>)
      (sorted_list_of_set (set (named_keys S lost ks))) (anonymous_loss S lost ks))"
    using salvage_of_device [OF fits dist enc(1,2) enc(3)[unfolded pay] ne(2), of lost] pN
    by (simp add: p pay)
  then show ?thesis
    unfolding Deserialize_L2 [OF vb]
      deserializeRS_salvages [OF parse length_rs_meta geo(4) enc(1) fs sound lost(2)[unfolded lost(1)], folded lost(1)]
    by (simp add: report_of_loss [OF rep])
qed

section \<open>Properties\<close>

text \<open>
  C6: more than K frames lost. If the shard section of a blob is replaced by bytes in which every
  frame is a written one or fails its check, more than K of the written frames are missing, and at
  least a quarter of the section is still there, Deserialize keeps exactly the blocks of the
  records that lie in surviving shards, names exactly the records whose index bytes survived, sets
  Truncated exactly when some record lost its index bytes, and never succeeds silently. (With less
  than a quarter of the section present rsMeta is not accepted and the blob is refused as corrupt.)
\<close>

theorem rs_beyond_parity:
  assumes "valid_device d" "rs_shape rs" "in_i64 dn" "in_i64 dk"
    and "p = length (payload_of d)" "p < 2 ^ 63" "chosen_geometry p dn dk = (int N, int K)"
    and "rs_contract rs N K" "SerializeRS rs procs sched hsched d dn dk = Some (Inr blob)"
    and "(N + K) * shard_size N p \<le> 2 ^ 33" "0 < p"
    and w: "w = rsShardHdrSize + shard_size N p"
    and fs: "fs = pieces w (N + K) (drop shardSectionOff blob)"
    and gs: "gs = pieces w (length sect div w) sect" "length sect < 2 ^ 60"
    and ok: "\<forall>g\<in>set gs. g \<in> set fs \<or> \<not> frame_ok g"
    and lost: "lost = {i. i < N + K \<and> fs ! i \<notin> set gs}" "K < card lost"
    and size: "(N + K) * w \<le> 4 * (rsMetaSize + length sect)"
    and ks: "ks = sorted_list_of_set (Mapping.keys (dirty d))"
    and ins: "inside = (\<lambda>off n. \<forall>q\<in>{off..<off + n}. q div shard_size N p \<notin> lost)"
    and full: "full = {ks ! i |i. i < length ks \<and> inside (i * l1RecordSize) l1RecordSize}"
    and named: "named = {ks ! i |i. i < length ks \<and> \<not> inside (i * l1RecordSize) l1RecordSize
        \<and> inside (i * l1RecordSize) 8}"
  shows "Deserialize rs (take shardSectionOff blob @ sect) (base d) = Some (Inr
    (d\<lparr>dirty := Mapping.filter (\<lambda>i _. i \<in> full) (dirty d)\<rparr>,
     Some \<lparr>BadBlocks = sorted_list_of_set named,
           Truncated = (\<exists>i\<in>{..<length ks}. \<not> inside (i * l1RecordSize) 8)\<rparr>))"
proof -
  note c = chosen_ok [OF assms(1,2) assms(6)[unfolded assms(5)] assms(3,4) assms(7)[unfolded assms(5)] assms(8,9,5) refl]
  let ?S = "shard_size N p"
  let ?enc = "encoded rs N K ?S (payload_of d)"
  have N: "1 \<le> N" "N + K \<le> 64" using c(1) by (simp_all add: geometry_ok_def)
  have pN: "length (payload_of d) \<le> N * ?S" using shard_size_facts(2) [OF N(1) assms(11)] assms(5) by simp
  have ne: "payload_of d \<noteq> []" using assms(5,11) by auto
  note ef = encoded_frames [OF assms(8,2) pN N(2) ne] and e = encoded_facts(3-5) [OF assms(8,2) pN ne]
  have blob: "blob = header TierL2 (card (Mapping.keys (dirty d))) @ rs_meta N K ?S p @ concat (frames ?enc)"
    using c(2) assms(11) by simp
  note bf = rs_blob_fields [OF blob]
  have st: "w = stride ?S" by (simp add: w stride_def)
  have fe: "fs = frames ?enc" by (simp add: fs bf st ef(1))
  have l: "lost = lost_shards (N + K) gs" using written_frames_lost [OF e(1) N(2) fe ok] by (simp add: lost(1))
  have wh: "inside = kept_span ?S lost" by (simp add: ins kept_span_def fun_eq_iff)
  have sets: "set (whole_keys ?S lost ks) = full" "set (named_keys ?S lost ks) = named"
    by (auto simp: whole_keys_def named_keys_def full named wh)
  have an: "anonymous_loss ?S lost ks = (\<exists>i\<in>{..<length ks}. \<not> inside (i * l1RecordSize) 8)"
    by (simp add: anonymous_loss_def wh)
  show ?thesis
    using rs_sections_salvage [OF assms(1,5) refl c(1) refl assms(10,11) e gs(1)[unfolded st] gs(2)
        size[unfolded st] written_frames_sound(1) [OF e(1) N(2) fe ok] l lost(2) ks]
    unfolding bf append_assoc sets an by (simp add: restrict_overlay_def)
qed

theorem rs_beyond_parity_witness:
  "\<exists>blob. SerializeRS replica_rs 4 [] [] sample_device 0 0 = Some (Inr blob)
    \<and> Deserialize replica_rs (take shardSectionOff blob @ replicate 4000 0) sample_base
      = Some (Inr (\<lparr>base = sample_base, dirty = Mapping.empty\<rparr>, Some \<lparr>BadBlocks = [], Truncated = True\<rparr>))"
proof -
  obtain blob where b: "SerializeRS replica_rs 4 [] [] sample_device 0 0 = Some (Inr blob)"
    using sample_rs_blob by blast
  let ?p = "length (payload_of sample_device)"
  let ?w = "rsShardHdrSize + shard_size 1 ?p"
  let ?fs = "pieces ?w (1 + 2) (drop shardSectionOff blob)"
  let ?sect = "replicate 4000 0 :: bytes"
  let ?lost = "{i. i < 1 + 2 \<and> ?fs ! i \<notin> set ([] :: bytes list)}"
  have S: "shard_size 1 ?p = 4108" "0 < ?p" "?w = 4114"
    by (simp_all add: sample_payload(1,2) shard_size_def rsShardHdrSize_def)
  have gs: "pieces ?w (length ?sect div ?w) ?sect = []" unfolding S(3) by (simp add: pieces_def)
  have lost: "?lost = {..<3}" by auto
  have ks: "sorted_list_of_set (Mapping.keys (dirty sample_device)) = [0]" by simp
  define inside where "inside = (\<lambda>off n. \<forall>q\<in>{off..<off + n}. q div shard_size 1 ?p \<notin> ?lost)"
  have out: "\<not> inside 0 n" if "0 < n" for n
    using that by (auto simp: inside_def lost intro!: bexI [of _ 0])
  have "Deserialize replica_rs (take shardSectionOff blob @ ?sect) (base sample_device) = Some (Inr
    (sample_device\<lparr>dirty := Mapping.filter (\<lambda>i _. i \<in> {[0] ! i |i. i < length [0::int] \<and> inside (i * l1RecordSize) l1RecordSize}) (dirty sample_device)\<rparr>,
     Some \<lparr>BadBlocks = sorted_list_of_set {[0] ! i |i. i < length [0::int] \<and> \<not> inside (i * l1RecordSize) l1RecordSize
        \<and> inside (i * l1RecordSize) 8},
           Truncated = (\<exists>i\<in>{..<length [0::int]}. \<not> inside (i * l1RecordSize) 8)\<rparr>))"
    by (rule rs_beyond_parity [OF sample_device_valid replica_shape sample_geometry(2,2) refl sample_geometry(3,1)
        replica_contract b sample_geometry(4) S(2) refl refl gs [symmetric] _ _ refl _ _ ks [symmetric] inside_def refl refl])
      (unfold lost S, simp_all add: rsMetaSize_def rsShardHdrSize_def)
  moreover have "\<not> inside 0 l1RecordSize" "\<not> inside 0 8"
    using out by simp_all
  moreover have "Mapping.filter (\<lambda>i _. False) (dirty sample_device) = Mapping.empty"
    by (intro mapping_eqI) (simp add: lookup_filter)
  ultimately show ?thesis using b by simp
qed

end
