(* ===== verification/Tiers.thy ===== *)
theory Tiers
  imports RSTheorems
begin

text \<open>
  SerializeTier and Deserialize over all three tiers at once: at L2 with the default geometry,
  which SerializeTier asks for. These are the facts the command line tool relies on.
\<close>

section \<open>The default geometry\<close>

definition default_data :: "device \<Rightarrow> nat" where
  "default_data d = nat (fst (rsDefaultShards (length (payload_of d))))"

lemma default_chosen:
  "chosen_geometry (length (payload_of d)) 0 0 = (int (default_data d), int 2)"
  using rsDefaultShards_range [of "length (payload_of d)"] by (simp add: chosen_geometry_def default_data_def)

lemma default_ok:
  assumes "valid_device d"
  shows "geometry_ok (default_data d) 2 (length (payload_of d))"
  unfolding default_data_def by (rule default_geometry_ok [OF payload_of_length [OF assms]])

lemma dirty_card:
  assumes "valid_device d"
  shows "card (Mapping.keys (dirty d)) \<le> nblocks (base d)"
proof -
  have "Mapping.keys (dirty d) \<subseteq> {0..<int (nblocks (base d))}"
    using assms by (auto simp: valid_device_def valid_overlay_def keys_dom_lookup)
  then have "card (Mapping.keys (dirty d)) \<le> card {0..<int (nblocks (base d))}" by (intro card_mono) simp_all
  then show ?thesis by simp
qed

lemma payload_small:
  assumes "valid_device d" "length (base d) < 2 ^ 62"
  shows "length (payload_of d) < 2 ^ 63"
proof -
  have "length (payload_of d) \<le> nblocks (base d) * l1RecordSize"
    using dirty_card [OF assms(1)] by (simp add: payload_of_length [OF assms(1)])
  also have "\<dots> \<le> nblocks (base d) * (2 * BlockSize)"
    by (intro mult_le_mono2) (simp add: l1RecordSize_def BlockSize_def)
  also have "\<dots> = 2 * length (base d)"
    using valid_base_length [of "base d"] assms(1) by (simp add: valid_device_def)
  finally show ?thesis using assms(2) by simp
qed

section \<open>One blob for every schedule, and back\<close>

definition codec_serves :: "rs_lib \<Rightarrow> device \<Rightarrow> tier \<Rightarrow> bool" where
  "codec_serves rs d t \<longleftrightarrow> t = TierL0 \<or> t = TierL1 \<or> t = TierL2 \<and> rs_shape rs \<and> rs_contract rs (default_data d) 2"

lemma tier_blob:
  assumes "valid_device d" "length (base d) < 2 ^ 62" "codec_serves rs d t"
  shows "\<exists>xs. \<forall>procs sched hsched. SerializeTier rs procs sched hsched d t
      = Some (Inr (header t (card (Mapping.keys (dirty d))) @ xs))"
proof (cases "t = TierL0 \<or> t = TierL1")
  case True
  then obtain c where "t = tier_of c" by (rule tier_cases)
  then show ?thesis
    using SerializeTier_record_blob [OF assms(1)] sorted_keys_facts(4) [OF assms(1)] by (auto simp: record_blob_def)
next
  case False
  then have t: "t = TierL2" "t \<noteq> TierL0" "t \<noteq> TierL1" and rs: "rs_shape rs" "rs_contract rs (default_data d) 2"
    using assms(3) by (auto simp: codec_serves_def)
  let ?p = "length (payload_of d)" and ?N = "default_data d"
  note g = default_ok [OF assms(1)]
  have pN: "?p \<le> ?N * shard_size ?N ?p" if "?p \<noteq> 0"
    using shard_size_facts(2) [of ?N ?p] g that by (simp add: geometry_ok_def)
  note eq = SerializeRS_eq [OF assms(1) rs(1) refl payload_small [OF assms(1,2)] _ _ default_chosen
      nat_int [symmetric] nat_int [symmetric] refl refl]
  have ser: "SerializeTier rs procs sched hsched d t = SerializeRS rs procs sched hsched d 0 0" for procs sched hsched
    using t by (simp add: SerializeTier_def)
  show ?thesis
  proof (cases "?p = 0")
    case True
    then show ?thesis unfolding ser eq [OF zero_i64 zero_i64] using g by (auto simp: rs_blob_def t(1))
  next
    case False
    then have "payload_of d \<noteq> []" by auto
    note e = encoded_facts(1,2) [OF rs(2,1) pN [OF False] this]
    show ?thesis unfolding ser eq [OF zero_i64 zero_i64] using g e False by (auto simp: rs_blob_def t(1))
  qed
qed

lemma record_blob_small:
  assumes "valid_device d" "length (base d) < 2 ^ 62"
    and "SerializeTier rs procs sched hsched d (tier_of c) = Some (Inr blob)"
  shows "length blob < 2 ^ 63"
proof -
  note k = sorted_keys_facts [OF assms(1)]
  have "blob = record_blob c d (sorted_keys d)" using assms(3) SerializeTier_record_blob [OF assms(1)] by simp
  then have "length blob = headerSize + length (sorted_keys d) * enc_size c"
    using length_record_blob [OF assms(1), of "sorted_keys d"] k by simp
  also have "\<dots> \<le> headerSize + nblocks (base d) * l1RecordSize"
    using dirty_card [OF assms(1)] k(4) by (auto simp: enc_size_def l0RecordSize_def l1RecordSize_def intro: mult_le_mono)
  also have "\<dots> \<le> 18 + 2 * length (base d) - nblocks (base d) * 4000"
    using valid_base_length [of "base d"] assms(1) by (simp add: valid_device_def headerSize_def l1RecordSize_def BlockSize_def)
  finally show ?thesis
    using assms(2) valid_base_length [of "base d"] assms(1)
    by (cases "nblocks (base d)") (simp_all add: valid_device_def)
qed

text \<open>At L2 bases of up to 1 GiB stay below the decoder's cap of 8 GiB, whatever was written.\<close>

lemma parity_blob_small:
  assumes "valid_device d" "length (base d) \<le> 2 ^ 30" "codec_serves rs d TierL2"
    and "SerializeTier rs procs sched hsched d TierL2 = Some (Inr blob)"
  shows "length blob \<le> 2 ^ 33"
proof -
  let ?p = "length (payload_of d)" and ?N = "default_data d"
  let ?S = "shard_size ?N ?p"
  have rs: "rs_shape rs" "rs_contract rs ?N 2"
    using assms(3) by (auto simp: codec_serves_def TierL0_def TierL1_def TierL2_def)
  have l62: "length (base d) < 2 ^ 62" using assms(2) by simp
  have ser: "SerializeRS rs procs sched hsched d 0 0 = Some (Inr blob)"
    using assms(4) by (simp add: SerializeTier_def TierL0_def TierL1_def TierL2_def)
  note c = chosen_ok [OF assms(1) rs(1) payload_small [OF assms(1) l62] zero_i64 zero_i64 default_chosen rs(2) ser refl refl]
  have N: "1 \<le> ?N" "?N \<le> 10"
    using rsDefaultShards_range [of ?p] by (simp_all add: default_data_def)
  have "?p \<le> nblocks (base d) * l1RecordSize"
    using dirty_card [OF assms(1)] by (simp add: payload_of_length [OF assms(1)])
  also have "\<dots> \<le> 2 * length (base d)"
    using valid_base_length [of "base d"] assms(1) by (simp add: valid_device_def l1RecordSize_def BlockSize_def)
  finally have p: "?p \<le> 2 ^ 31" using assms(2) by simp
  show ?thesis
  proof (cases "?p = 0")
    case True
    then have "length (concat (frames (replicate (?N + 2) []))) = (?N + 2) * stride 0"
      using length_concat_blocks [of "frames (replicate (?N + 2) [])" "stride 0"] frame_length [of "replicate (?N + 2) []" 0]
      by simp
    then show ?thesis using c(2) True N(2) by (simp add: headerSize_def rsMetaSize_def stride_def rsShardHdrSize_def)
  next
    case False
    then have pN: "?p \<le> ?N * ?S" and ne: "payload_of d \<noteq> []" using shard_size_facts(2) [OF N(1), of ?p] by auto
    have "?N * ?S \<le> ?p + ?N - 1" using False by (simp add: shard_size_def)
    then have "?N * ?S \<le> ?p + 10" using N by linarith
    moreover have "?S \<le> ?N * ?S" using mult_le_mono1 [OF N(1), of ?S] by simp
    moreover have "(?N + 2) * ?S = ?N * ?S + 2 * ?S" by (rule add_mult_distrib)
    moreover have "z \<le> 3 * (p + 10)" if "y \<le> p + 10" "x \<le> y" "z = y + 2 * x" for x y z p :: nat
      using that by simp
    ultimately have "(?N + 2) * ?S \<le> 3 * (?p + 10)" by blast
    moreover have "length blob = headerSize + rsMetaSize + (?N + 2) * stride ?S"
      using c(2) False encoded_frames(2) [OF rs(2,1) pN _ ne] N by simp
    moreover have "(?N + 2) * stride ?S = (?N + 2) * rsShardHdrSize + (?N + 2) * ?S"
      by (simp add: stride_def algebra_simps)
    ultimately show ?thesis using N(2) p by (simp add: headerSize_def rsMetaSize_def rsShardHdrSize_def)
  qed
qed

lemma tier_decodes:
  assumes "valid_device d" "length (base d) < 2 ^ 62" "codec_serves rs d t"
    and ser: "SerializeTier rs procs sched hsched d t = Some (Inr blob)"
    and len: "t = TierL2 \<longrightarrow> length blob \<le> 2 ^ 33"
    and lib: "t = TierL2 \<longrightarrow> rs' = rs"
  shows "Deserialize rs' blob (base d) = Some (Inr (d, None))"
proof (cases "t = TierL0 \<or> t = TierL1")
  case True
  then obtain c where c: "t = tier_of c" by (rule tier_cases)
  have "length blob < 2 ^ 63" by (rule record_blob_small [OF assms(1,2) ser [unfolded c]])
  note b = record_tier_blob [OF assms(1) ser[unfolded c] this]
  show ?thesis unfolding b(1) by (rule record_blob_decodes [OF b(2,4)])
next
  case False
  then have t: "t = TierL2" and rs: "rs_shape rs" "rs_contract rs (default_data d) 2"
    using assms(3) by (auto simp: codec_serves_def)
  let ?p = "length (payload_of d)" and ?N = "default_data d"
  let ?S = "shard_size ?N ?p"
  note p63 = payload_small [OF assms(1,2)]
  have ser': "SerializeRS rs procs sched hsched d 0 0 = Some (Inr blob)"
    using ser False by (simp add: SerializeTier_def t)
  note c = chosen_ok [OF assms(1) rs(1) p63 zero_i64 zero_i64 default_chosen rs(2) ser' refl refl]
  have N: "1 \<le> ?N" "?N + 2 \<le> 64" using c(1) by (simp_all add: geometry_ok_def)
  have cap: "(?N + 2) * ?S \<le> 2 ^ 33"
  proof (cases "?p = 0")
    case True
    then show ?thesis by (simp add: shard_size_def)
  next
    case False
    then have pN: "?p \<le> ?N * ?S" and ne: "payload_of d \<noteq> []" using shard_size_facts(2) [OF N(1), of ?p] by auto
    have "(?N + 2) * stride ?S \<le> length blob"
      using c(2) False encoded_frames(2) [OF rs(2,1) pN N(2) ne] by simp
    moreover have "(?N + 2) * ?S \<le> (?N + 2) * stride ?S" by (intro mult_le_mono2) (simp add: stride_def)
    ultimately show ?thesis using len t by linarith
  qed
  show ?thesis
    using serialized_rs_decodes [OF assms(1) rs(1) zero_i64 zero_i64 refl p63 default_chosen rs(2) ser' cap] lib t by simp
qed

text \<open>Without a codec contract, serializing still returns: a blob or an error, for every geometry.\<close>

lemma SerializeRS_returns:
  assumes "valid_device d" "rs_shape rs" "length (payload_of d) < 2 ^ 63" "in_i64 dn" "in_i64 dk"
  shows "\<exists>s. SerializeRS rs procs sched hsched d dn dk = Some s"
proof -
  obtain n k where nk: "chosen_geometry (length (payload_of d)) dn dk = (n, k)"
    by (cases "chosen_geometry (length (payload_of d)) dn dk")
  show ?thesis
    unfolding SerializeRS_eq [OF assms(1,2) refl assms(3-5) nk refl refl refl refl] by (simp split: option.split)
qed

lemma SerializeTier_returns:
  assumes "valid_device d" "rs_shape rs" "t = TierL2 \<longrightarrow> length (payload_of d) < 2 ^ 63"
  shows "\<exists>s. SerializeTier rs procs sched hsched d t = Some s"
proof (cases "t = TierL0 \<or> t = TierL1")
  case True
  then obtain c where "t = tier_of c" by (rule tier_cases)
  then show ?thesis using SerializeTier_record_blob [OF assms(1)] by blast
next
  case False
  then have l2: "SerializeTier rs procs sched hsched d t
      = (if t = TierL2 then SerializeRS rs procs sched hsched d 0 0 else Some (Inl ErrUnsupportedTier))"
    by (simp add: SerializeTier_def)
  show ?thesis
    unfolding l2 using SerializeRS_returns [OF assms(1,2) _ zero_i64 zero_i64] assms(3) by simp
qed

section \<open>The contract of a delta codec\<close>

text \<open>
  What a user of the tiers relies on: encoding depends on the device alone, not on processors and
  schedules, and decoding over the same base gives the device back, for blobs the decoder admits.
\<close>

locale delta_codec =
  fixes serves :: "device \<Rightarrow> bool"
    and admits :: "bytes \<Rightarrow> bool"
    and enc :: "nat \<Rightarrow> nat list \<Rightarrow> nat list \<Rightarrow> device \<Rightarrow> (format_error + bytes) option"
    and decode :: "bytes \<Rightarrow> bytes \<Rightarrow> (format_error + device \<times> partial_recovery option) option"
  assumes serves_valid: "serves d \<Longrightarrow> valid_device d"
    and enc_once: "serves d \<Longrightarrow> \<exists>blob. \<forall>procs sched hsched. enc procs sched hsched d = Some (Inr blob)"
    and decode_enc: "serves d \<Longrightarrow> enc procs sched hsched d = Some (Inr blob) \<Longrightarrow> admits blob
      \<Longrightarrow> decode blob (base d) = Some (Inr (d, None))"
begin

text \<open>A full read of the decoded device is the image of the encoded one.\<close>

lemma image_back:
  assumes "serves d" "enc procs sched hsched d = Some (Inr blob)" "admits blob"
  shows "decode blob (base d) = Some (Inr (d, None))"
    "ReadAt d (replicate (length (base d)) 0) 0 = Some (disk_image d, length (disk_image d), None)"
proof -
  have v: "valid_device d" by (rule serves_valid [OF assms(1)])
  then have "checkRange d (length (replicate (length (base d)) 0)) 0 = None"
    by (simp add: checkRange_eq valid_device_def valid_base_def)
  from ReadAt_eq [OF v this]
  show "ReadAt d (replicate (length (base d)) 0) 0 = Some (disk_image d, length (disk_image d), None)"
    by (simp add: disk_image_length [OF v])
  show "decode blob (base d) = Some (Inr (d, None))" by (rule decode_enc [OF assms])
qed

text \<open>Equal blobs over one base come from equal devices.\<close>

lemma enc_inj:
  assumes "serves d" "serves d'" "base d = base d'" "admits blob"
    "enc p s h d = Some (Inr blob)" "enc p' s' h' d' = Some (Inr blob)"
  shows "d = d'"
proof -
  have "decode blob (base d') = Some (Inr (d, None))" using decode_enc [OF assms(1,5,4)] by (simp only: assms(3))
  then have "Some (Inr (d, None)) = decode blob (base d')" by (rule sym)
  also have "\<dots> = Some (Inr (d', None))" by (rule decode_enc [OF assms(2,6,4)])
  finally show ?thesis by simp
qed

end

interpretation tiers: delta_codec
  "\<lambda>d. valid_device d \<and> length (base d) < 2 ^ 62 \<and> codec_serves rs d t"
  "\<lambda>blob. t = TierL2 \<longrightarrow> length blob \<le> 2 ^ 33"
  "\<lambda>procs sched hsched d. SerializeTier rs procs sched hsched d t" "Deserialize rs" for rs t
proof (rule delta_codec.intro)
  fix d assume d: "valid_device d \<and> length (base d) < 2 ^ 62 \<and> codec_serves rs d t"
  then have v: "valid_device d" "length (base d) < 2 ^ 62" "codec_serves rs d t" by simp_all
  show "valid_device d" by (rule v(1))
  show "\<exists>blob. \<forall>procs sched hsched. SerializeTier rs procs sched hsched d t = Some (Inr blob)"
    using tier_blob [OF v] by (elim exE) (intro exI, assumption)
  fix procs sched hsched blob
  assume "SerializeTier rs procs sched hsched d t = Some (Inr blob)" "t = TierL2 \<longrightarrow> length blob \<le> 2 ^ 33"
  then show "Deserialize rs blob (base d) = Some (Inr (d, None))"
    using tier_decodes [OF v] by simp
qed

end
