(* ===== verification/Inspect.thy ===== *)
theory Inspect
  imports ReedSolomon
begin

text \<open>
  src/blockdevice/inspect.go: what Inspect reports about a blob without a base. The error result
  of a Go function that returns (Info, error) is an option next to the info.
\<close>

record info =
  Version :: byte
  InfoTier :: tier
  BlockCount :: uint64
  BlobSize :: nat
  InfoBadBlocks :: "int list"
  UnattributedLoss :: nat
  InfoTruncated :: bool

definition no_info :: info where
  "no_info = \<lparr>Version = 0, InfoTier = 0, BlockCount = 0, BlobSize = 0, InfoBadBlocks = [],
     UnattributedLoss = 0, InfoTruncated = False\<rparr>"

text \<open>slices.Sort and slices.Compact, and the flag.\<close>

definition finishInfo :: "info \<Rightarrow> info" where
  "finishInfo i =
     (let i = (if InfoBadBlocks i \<noteq> [] then i\<lparr>InfoBadBlocks := remdups_adj (sort (InfoBadBlocks i))\<rparr> else i)
      in if UnattributedLoss i > 0 then i\<lparr>InfoTruncated := True\<rparr> else i)"

text \<open>The layout check; the number of records may be read from the header, as an int.\<close>

definition inspectBodyLayout :: "info \<Rightarrow> bytes \<Rightarrow> nat \<Rightarrow> (int \<times> info) option" where
  "inspectBodyLayout i body recSize =
     (let n = length body div recSize in
      if BlockCount i \<le> of_nat n then
        (if BlockCount i < of_nat n \<or> length body mod recSize \<noteq> 0
         then Some (sint (BlockCount i), finishInfo (i\<lparr>InfoTruncated := True\<rparr>))
         else Some (int n, finishInfo i))
      else do {
        let i = i\<lparr>InfoTruncated := True\<rparr>;
        tl \<leftarrow> subslice body (n * recSize) (length body);
        if 8 \<le> length tl then do {
          idx \<leftarrow> readIdx tl;
          Some (int n, finishInfo (i\<lparr>InfoBadBlocks := InfoBadBlocks i @ [idx]\<rparr>))
        } else Some (int n, finishInfo (i\<lparr>UnattributedLoss := UnattributedLoss i + 1\<rparr>))
      })"

text \<open>
  One whole record of a scan: the loop state is the list of impossible indices, the map applied
  and the list skipped.
\<close>

type_synonym scan = "int list \<times> (int, bytes) mapping \<times> skippedRec list"

definition scanRecord :: "bytes \<Rightarrow> scan \<Rightarrow> scan option" where
  "scanRecord r st = do {
     let (bad, applied, skipped) = st;
     idx \<leftarrow> readIdx r;
     ok \<leftarrow> readCRCok r;
     dt \<leftarrow> subslice r 8 (8 + BlockSize);
     if \<not> ok then Some (bad, applied, skipped @ [\<lparr>s_idx = idx, s_data = dt\<rparr>])
     else if idx < 0 then Some (bad @ [idx], applied, skipped)
     else Some (bad, Mapping.update idx dt applied, skipped)
   }"

definition countSkipped :: "(int, bytes) mapping \<Rightarrow> skippedRec list \<Rightarrow> nat \<Rightarrow> nat" where
  "countSkipped applied skipped u =
     fold (\<lambda>s u. case Mapping.lookup applied (s_idx s) of
         None \<Rightarrow> u + 1 | Some a \<Rightarrow> if a \<noteq> s_data s then u + 1 else u) skipped u"

definition scanL1Records :: "bytes \<Rightarrow> (int list \<times> nat) option" where
  "scanL1Records body = do {
     (bad, applied, skipped) \<leftarrow> for_list
       (\<lambda>off st. do { r \<leftarrow> subslice body off (off + l1RecordSize); scanRecord r st })
       (range_le 0 (length body) l1RecordSize) ([], Mapping.empty, []);
     Some (bad, countSkipped applied skipped 0)
   }"

definition inspectHeaderless :: "info \<Rightarrow> bytes \<Rightarrow> (info \<times> format_error option) option" where
  "inspectHeaderless i body =
     (if length body = 0 \<or> length body mod l1RecordSize \<noteq> 0 then Some (i, Some ErrCorrupt)
      else do {
        recovered \<leftarrow> for_list
          (\<lambda>off c. do {
             r \<leftarrow> subslice body off (off + l1RecordSize);
             ok \<leftarrow> readCRCok r;
             Some (if ok then c + 1 else c) })
          (range_le 0 (length body) l1RecordSize) (0 :: nat);
        if recovered = 0 then Some (i, Some ErrCorrupt)
        else Some (i\<lparr>InfoTruncated := True,
                     UnattributedLoss := length body div l1RecordSize - recovered\<rparr>, None)
      })"

text \<open>
  The salvage walk of inspectRS. A readable record goes through the same cases as in
  scanL1Records, with the impossible indices appended to the info.
\<close>

definition inspectSalvageRecord ::
    "bytes option list \<Rightarrow> nat \<Rightarrow> nat \<Rightarrow> nat \<Rightarrow> scan \<times> int list \<times> nat \<Rightarrow> (scan \<times> int list \<times> nat) option" where
  "inspectSalvageRecord shards N S lo st = do {
     let (sc, lostNamed, unattr) = st;
     got \<leftarrow> readShardSpan shards N S l1RecordSize lo;
     (case got of
        Some r \<Rightarrow> do { sc \<leftarrow> scanRecord r sc; Some (sc, lostNamed, unattr) }
      | None \<Rightarrow> do {
          got8 \<leftarrow> readShardSpan shards N S 8 lo;
          (case got8 of
             Some h \<Rightarrow> do { w \<leftarrow> get_u64 h; Some (sc, lostNamed @ [sint w], unattr) }
           | None \<Rightarrow> Some (sc, lostNamed, unattr + 1))
        })
   }"

definition inspectSalvage :: "info \<Rightarrow> bytes option list \<Rightarrow> nat \<Rightarrow> nat \<Rightarrow> nat \<Rightarrow> info option" where
  "inspectSalvage i shards N S P = do {
     ((bad, applied, skipped), lostNamed, unattr) \<leftarrow>
       for_list (inspectSalvageRecord shards N S) (range_le 0 P l1RecordSize)
         ((InfoBadBlocks i, Mapping.empty, []), [], UnattributedLoss i);
     let unattr = countSkipped applied skipped unattr;
     let (bad, unattr) = fold (\<lambda>s (bad, u).
         if Mapping.lookup applied s \<noteq> None then (bad, u + 1) else (bad @ [s], u)) lostNamed (bad, unattr);
     Some (i\<lparr>InfoBadBlocks := bad, UnattributedLoss := unattr\<rparr>)
   }"

definition inspectRS :: "rs_lib \<Rightarrow> info \<Rightarrow> bytes \<Rightarrow> (info \<times> format_error option) option" where
  "inspectRS rs i body = do {
     meta \<leftarrow> parseRSMeta body (BlockCount i);
     (case meta of
        Inl e \<Rightarrow> Some (i, Some e)
      | Inr g \<Rightarrow>
          (let N = g_dataShards g; K = g_parityShards g; S = g_shardSize g; P = g_payloadLen g in
           if P = 0 then Some (i, None)
           else do {
             sect \<leftarrow> subslice body rsMetaSize (length body);
             (shards, missing) \<leftarrow> parseShardSection sect (N + K) S;
             let (ok, shards) = (if missing \<le> K \<and> rs_new rs N K then rs_reconstruct rs N K shards
                                 else (False, shards));
             if ok then (if length shards < N then None else do {
               let payload = concat (map (\<lambda>i. case shards ! i of Some x \<Rightarrow> x | None \<Rightarrow> []) [0..<N]);
               p \<leftarrow> subslice payload 0 P;
               (bad, unattr) \<leftarrow> scanL1Records p;
               Some (i\<lparr>InfoBadBlocks := InfoBadBlocks i @ bad,
                       UnattributedLoss := UnattributedLoss i + unattr\<rparr>, None)
             })
             else do { i \<leftarrow> inspectSalvage i shards N S P; Some (i, None) }
           }))
   }"

definition Inspect :: "rs_lib \<Rightarrow> bytes \<Rightarrow> (info \<times> format_error option) option" where
  "Inspect rs blob =
     (if length blob < headerSize then Some (no_info, Some ErrCorrupt)
      else do {
        m \<leftarrow> subslice blob 0 4;
        v \<leftarrow> elem_at blob 4;
        if m \<noteq> magic \<or> v \<noteq> formatVersion then Some (no_info, Some ErrCorrupt)
        else do {
          t \<leftarrow> elem_at blob 5;
          f \<leftarrow> subslice blob 6 14;
          count \<leftarrow> get_u64 f;
          let i = no_info\<lparr>Version := v, InfoTier := t, BlockCount := count, BlobSize := length blob\<rparr>;
          body \<leftarrow> subslice blob headerSize (length blob);
          h \<leftarrow> subslice blob 0 14;
          c \<leftarrow> subslice blob 14 18;
          want \<leftarrow> get_u32 c;
          if ChecksumIEEE h \<noteq> want then
            (if t = TierL1 \<or> t > TierL2 then inspectHeaderless i body else Some (i, Some ErrCorrupt))
          else if t = TierL0 then do {
            (n, i) \<leftarrow> inspectBodyLayout i body l0RecordSize;
            Some (i, None)
          }
          else if t = TierL1 then do {
            (n, i) \<leftarrow> inspectBodyLayout i body l1RecordSize;
            recs \<leftarrow> subslicei body 0 (i64 (n * int l1RecordSize));
            (bad, unattr) \<leftarrow> scanL1Records recs;
            Some (finishInfo (i\<lparr>InfoBadBlocks := InfoBadBlocks i @ bad,
                                UnattributedLoss := UnattributedLoss i + unattr\<rparr>), None)
          }
          else if t = TierL2 then do {
            (i, err) \<leftarrow> inspectRS rs i body;
            (case err of Some e \<Rightarrow> Some (i, Some e) | None \<Rightarrow> Some (finishInfo i, None))
          }
          else Some (i, Some ErrUnsupportedTier)
        }
      })"

end
