(* ===== verification/InspectSpec.thy ===== *)
theory InspectSpec
  imports Inspect Totality
begin

text \<open>
  What the scans of src/blockdevice/inspect.go compute, in the vocabulary of the decoder's
  specification: Inspect reads a blob as Deserialize would over a base that has every block an
  int64 index can name, and the two agree as soon as no verified record lies outside the base.
\<close>

section \<open>The scan over whole records\<close>

definition all_blocks :: nat where
  "all_blocks = 2 ^ 63"

lemma in_all_blocks: "in_base all_blocks (rec_idx r) \<longleftrightarrow> 0 \<le> rec_idx r"
  using rec_idx_range [of r] by (simp add: in_base_def all_blocks_def in_i64_def)

lemma nblocks_int: "valid_base bs \<Longrightarrow> int (nblocks bs) < 2 ^ 63"
proof -
  assume "valid_base bs"
  then have "int (length bs) < 2 ^ 63" by (simp add: valid_base_def)
  moreover have "nblocks bs \<le> length bs" by (simp add: nblocks_def)
  ultimately show ?thesis by linarith
qed

lemma in_base_all: "int k < 2 ^ 63 \<Longrightarrow> in_base k i \<Longrightarrow> in_base all_blocks i"
  by (simp add: in_base_def all_blocks_def)

definition impossible :: "bytes list \<Rightarrow> int list" where
  "impossible rs = map rec_idx (filter (\<lambda>r. crc_ok r \<and> rec_idx r < 0) rs)"

definition unexplained :: "nat \<Rightarrow> bytes list \<Rightarrow> skippedRec list" where
  "unexplained k rs = filter (\<lambda>s. \<not> explained k (overlay_of crc_ok k rs) s) (skipped_of crc_ok rs)"

lemma impossible_stray: "impossible rs = [] \<longleftrightarrow> \<not> stray crc_ok all_blocks rs"
  by (auto simp: impossible_def stray_def filter_empty_conv in_all_blocks)

lemma unexplained_Nil:
  "unexplained k rs = [] \<longleftrightarrow> (\<forall>s\<in>set (skipped_of crc_ok rs). explained k (overlay_of crc_ok k rs) s)"
  by (simp add: unexplained_def filter_empty_conv)

text \<open>A base that contains every verified record decodes as the widest one.\<close>

lemma overlay_of_inside:
  assumes "\<not> stray ok k rs" "int k < 2 ^ 63"
  shows "overlay_of ok k rs = overlay_of ok all_blocks rs"
  using assms(1)
  by (induction rs rule: rev_induct) (auto simp: apply_rec_def dest: in_base_all [OF assms(2)])

lemma stray_all:
  assumes "stray ok all_blocks rs" "int k < 2 ^ 63"
  shows "stray ok k rs"
  using assms(1) in_base_all [OF assms(2)] unfolding stray_def by blast

lemma explained_inside:
  "explained k (overlay_of ok k rs) s \<longleftrightarrow> Mapping.lookup (overlay_of ok k rs) (s_idx s) = Some (s_data s)"
  by (auto simp: explained_def lookup_overlay_of split: if_splits)

lemma unexplained_inside:
  assumes "\<not> stray crc_ok k rs" "int k < 2 ^ 63"
  shows "unexplained k rs = unexplained all_blocks rs"
  by (simp only: unexplained_def explained_inside) (simp only: overlay_of_inside [OF assms])

lemma scanRecord_eq:
  assumes "length r = l1RecordSize"
  shows "scanRecord r (bad, m, sk) = Some (bad @ impossible [r], apply_rec crc_ok all_blocks r m, sk @ skipped_of crc_ok [r])"
proof -
  have l8: "8 \<le> length r" "8 + BlockSize \<le> length r" using assms by (simp_all add: l1RecordSize_def)
  have dt: "subslice r 8 (8 + BlockSize) = Some (rec_data r)" using l8 by (simp add: subslice_Some rec_data_def)
  show ?thesis
    by (simp add: scanRecord_def readIdx_eq [OF l8(1)] readCRCok_eq [OF assms] dt impossible_def
        apply_rec_def skipped_of_def in_all_blocks)
qed

lemma impossible_Nil [simp]: "impossible [] = []"
  by (simp add: impossible_def)

lemma impossible_append: "impossible (xs @ ys) = impossible xs @ impossible ys"
  by (simp add: impossible_def)

lemma skipped_of_append: "skipped_of ok (xs @ ys) = skipped_of ok xs @ skipped_of ok ys"
  by (simp add: skipped_of_def)

lemma countSkipped_eq: "countSkipped m sk u = u + length (filter (\<lambda>s. Mapping.lookup m (s_idx s) \<noteq> Some (s_data s)) sk)"
  by (induction sk arbitrary: u) (auto simp: countSkipped_def split: option.splits)

lemma countSkipped_unexplained:
  "countSkipped (overlay_of crc_ok all_blocks rs) (skipped_of crc_ok rs) u = u + length (unexplained all_blocks rs)"
  by (simp add: countSkipped_eq unexplained_def explained_inside)

lemma record_slice:
  assumes "i < length body div l1RecordSize"
  shows "subslice body (i * l1RecordSize) (i * l1RecordSize + l1RecordSize)
      = Some (take l1RecordSize (drop (i * l1RecordSize) body))"
    "length (take l1RecordSize (drop (i * l1RecordSize) body)) = l1RecordSize"
proof -
  have "length body div l1RecordSize * l1RecordSize \<le> length body" by simp
  from piece_bounds [OF assms this] have "i * l1RecordSize + l1RecordSize \<le> length body" by simp
  then show "subslice body (i * l1RecordSize) (i * l1RecordSize + l1RecordSize)
      = Some (take l1RecordSize (drop (i * l1RecordSize) body))"
    "length (take l1RecordSize (drop (i * l1RecordSize) body)) = l1RecordSize"
    by (simp_all add: subslice_Some)
qed

definition l1_pieces :: "bytes \<Rightarrow> bytes list" where
  "l1_pieces body = pieces l1RecordSize (length body div l1RecordSize) body"

text \<open>The whole-record loop, for any loop body that is a function of the record.\<close>

lemma record_loop:
  assumes "\<And>r s. length r = l1RecordSize \<Longrightarrow> f r s = Some (g r s)"
  shows "for_list (\<lambda>off s. do { r \<leftarrow> subslice body off (off + l1RecordSize); f r s })
      (range_le 0 (length body) l1RecordSize) s = Some (fold g (l1_pieces body) s)"
proof -
  let ?h = "\<lambda>i. take l1RecordSize (drop (i * l1RecordSize) body)"
  have "for_list (\<lambda>off s. do { r \<leftarrow> subslice body off (off + l1RecordSize); f r s })
      (range_le 0 (length body) l1RecordSize) s
    = Some (fold (\<lambda>i. g (?h i)) [0..<length body div l1RecordSize] s)"
    unfolding range_le_from_0 [OF l1RecordSize_pos(1)] for_list_map
  proof (rule for_list_pure)
    fix i t assume "i \<in> set [0..<length body div l1RecordSize]"
    then have "i < length body div l1RecordSize" by simp
    from record_slice [OF this] assms
    show "subslice body (i * l1RecordSize) (i * l1RecordSize + l1RecordSize) \<bind> (\<lambda>r. f r t) = Some (g (?h i) t)"
      by simp
  qed
  then show ?thesis by (simp add: l1_pieces_def pieces_def fold_map o_def)
qed

lemma scan_fold:
  "fold (\<lambda>r (bad, m, sk). (bad @ impossible [r], apply_rec crc_ok all_blocks r m, sk @ skipped_of crc_ok [r])) rs (bad, m, sk)
   = (bad @ impossible rs, fold (apply_rec crc_ok all_blocks) rs m, sk @ skipped_of crc_ok rs)"
  by (induction rs arbitrary: bad m sk)
    (simp_all add: impossible_append [of "[_]", simplified] skipped_of_append [of _ "[_]", simplified] impossible_def skipped_of_def)

lemma scanL1Records_eq:
  "scanL1Records body = Some (impossible (l1_pieces body), length (unexplained all_blocks (l1_pieces body)))"
proof -
  let ?g = "\<lambda>r (bad, m, sk). (bad @ impossible [r], apply_rec crc_ok all_blocks r m, sk @ skipped_of crc_ok [r])"
  have "for_list (\<lambda>off st. do { r \<leftarrow> subslice body off (off + l1RecordSize); scanRecord r st })
      (range_le 0 (length body) l1RecordSize) ([], Mapping.empty, [])
    = Some (fold ?g (l1_pieces body) ([], Mapping.empty, []))"
    by (rule record_loop) (auto simp: scanRecord_eq)
  then show ?thesis
    by (simp add: scanL1Records_def scan_fold countSkipped_unexplained [unfolded overlay_of_def] del: overlay_of_simps)
qed

section \<open>The end of a report\<close>

lemma distinct_compact: "sorted xs \<Longrightarrow> distinct (remdups_adj xs)" for xs :: "int list"
  by (induction xs rule: remdups_adj.induct) auto

lemma sorted_compact: "remdups_adj (sort xs) = sorted_list_of_set (set xs)" for xs :: "int list"
  by (rule sorted_distinct_set_unique) (simp_all add: distinct_compact)

text \<open>The info of a blob with given losses: \<open>bad\<close> the indices met, in any order.\<close>

definition info_of :: "bytes \<Rightarrow> int list \<Rightarrow> nat \<Rightarrow> bool \<Rightarrow> info" where
  "info_of blob bad u tr = \<lparr>Version = blob ! 4, InfoTier = blob ! 5, BlockCount = hdr_count blob,
     BlobSize = length blob, InfoBadBlocks = sorted_list_of_set (set bad),
     UnattributedLoss = u, InfoTruncated = (tr \<or> 0 < u)\<rparr>"

definition raw_info :: "bytes \<Rightarrow> int list \<Rightarrow> nat \<Rightarrow> bool \<Rightarrow> info" where
  "raw_info blob bad u tr = \<lparr>Version = blob ! 4, InfoTier = blob ! 5, BlockCount = hdr_count blob,
     BlobSize = length blob, InfoBadBlocks = bad, UnattributedLoss = u, InfoTruncated = tr\<rparr>"

lemma raw_info_simps [simp]:
  "BlockCount (raw_info blob bad u tr) = hdr_count blob"
  "InfoBadBlocks (raw_info blob bad u tr) = bad"
  "UnattributedLoss (raw_info blob bad u tr) = u"
  "InfoTruncated (raw_info blob bad u tr) = tr"
  "(raw_info blob bad u tr)\<lparr>InfoTruncated := tr'\<rparr> = raw_info blob bad u tr'"
  "(raw_info blob bad u tr)\<lparr>InfoBadBlocks := bad'\<rparr> = raw_info blob bad' u tr"
  "(raw_info blob bad u tr)\<lparr>UnattributedLoss := u'\<rparr> = raw_info blob bad u' tr"
  by (simp_all add: raw_info_def)

lemma raw_info_inject [simp]:
  "raw_info blob bad u tr = raw_info blob bad' u' tr' \<longleftrightarrow> bad = bad' \<and> u = u' \<and> tr = tr'"
  by (auto simp: raw_info_def)

lemma info_of_raw: "info_of blob bad u tr = raw_info blob (sorted_list_of_set (set bad)) u (tr \<or> 0 < u)"
  by (simp add: info_of_def raw_info_def)

lemma finishInfo_raw: "finishInfo (raw_info blob bad u tr) = info_of blob bad u tr"
  by (auto simp: finishInfo_def info_of_raw sorted_compact Let_def)

lemma set_sorted_int [simp]: "set (sorted_list_of_set (set xs)) = set xs" for xs :: "int list"
  by simp

text \<open>The layout check: bytes missing, bytes too many, or an exact body.\<close>

definition layout_bad :: "tier \<Rightarrow> bytes \<Rightarrow> uint64 \<Rightarrow> int list" where
  "layout_bad t body bc =
     (if cut_short t body bc \<and> 8 \<le> length (cut_tail t body) then [rec_idx (cut_tail t body)] else [])"

definition layout_unattr :: "tier \<Rightarrow> bytes \<Rightarrow> uint64 \<Rightarrow> nat" where
  "layout_unattr t body bc = (if cut_short t body bc \<and> length (cut_tail t body) < 8 then 1 else 0)"

lemma exact_not_cut: "exact_body t body bc \<Longrightarrow> \<not> cut_short t body bc"
  by (simp add: exact_body_def cut_short_def)

lemma layout_exact:
  assumes "exact_body t body bc"
  shows "layout_bad t body bc = []" "layout_unattr t body bc = 0"
  using exact_not_cut [OF assms] by (simp_all add: layout_bad_def layout_unattr_def)

lemma inspectBodyLayout_eq:
  assumes "int (length body) < 2 ^ 63" "bc = hdr_count blob"
  shows "inspectBodyLayout (raw_info blob [] 0 False) body (tier_size t) = Some (int (rec_count t body bc),
    info_of blob (layout_bad t body bc) (layout_unattr t body bc) (\<not> exact_body t body bc))"
proof -
  let ?n = "length body div tier_size t"
  have "?n \<le> length body" by simp
  then have un: "unat (of_nat ?n :: uint64) = ?n"
    using assms(1) by (intro unat_of_nat_small) linarith
  show ?thesis
  proof (cases "cut_short t body bc")
    case True
    then have "?n < unat bc" by (simp add: cut_short_def)
    then have lt: "\<not> bc \<le> of_nat ?n" by (simp add: word_le_nat_alt un)
    have sl: "subslice body (?n * tier_size t) (length body) = Some (cut_tail t body)"
      by (simp add: subslice_Some cut_tail_def)
    have rc: "rec_count t body bc = ?n" using True by (simp add: rec_count_def cut_short_def)
    have ex: "\<not> exact_body t body bc" using True exact_not_cut by blast
    show ?thesis
    proof (cases "8 \<le> length (cut_tail t body)")
      case True
      then show ?thesis using \<open>cut_short t body bc\<close> lt ex
        by (simp add: inspectBodyLayout_def Let_def sl readIdx_eq rc finishInfo_raw layout_bad_def layout_unattr_def
            flip: assms(2))
    next
      case False
      then show ?thesis using \<open>cut_short t body bc\<close> lt ex
        by (simp add: inspectBodyLayout_def Let_def sl rc finishInfo_raw layout_bad_def layout_unattr_def
            flip: assms(2))
    qed
  next
    case False
    then have ge: "unat bc \<le> ?n" by (simp add: cut_short_def)
    then have le: "bc \<le> of_nat ?n" by (simp add: word_le_nat_alt un)
    have "length body < 2 ^ 63" using assms(1) by simp
    then have "unat bc < 2 ^ 63" using ge \<open>?n \<le> length body\<close> by linarith
    then have al: "sint bc = int (unat bc)" by (rule sint_small)
    have ex: "(bc < of_nat ?n \<or> length body mod tier_size t \<noteq> 0) = (\<not> exact_body t body bc)"
      using ge by (auto simp: word_less_nat_alt un exact_body_def mod_0_imp_dvd
          dest: dvd_mult_div_cancel)
    have rc: "rec_count t body bc = unat bc" using ge by (simp add: rec_count_def)
    have n: "exact_body t body bc \<Longrightarrow> ?n = unat bc" by (simp add: exact_body_def)
    have lb: "layout_bad t body bc = []" "layout_unattr t body bc = 0"
      using False by (simp_all add: layout_bad_def layout_unattr_def)
    show ?thesis
      unfolding inspectBodyLayout_def Let_def raw_info_simps assms(2) [symmetric] if_P [OF le] ex rc lb al
      by (cases "exact_body t body bc") (simp_all add: finishInfo_raw n)
  qed
qed

section \<open>The fallback scan\<close>

lemma inspectHeaderless_eq:
  "inspectHeaderless i body =
    (let rs = l1_pieces body; good = length (filter crc_ok rs) in
     Some (if body = [] \<or> length body mod l1RecordSize \<noteq> 0 \<or> good = 0 then (i, Some ErrCorrupt)
           else (i\<lparr>InfoTruncated := True, UnattributedLoss := length rs - good\<rparr>, None)))"
proof -
  have "for_list (\<lambda>off c. do {
             r \<leftarrow> subslice body off (off + l1RecordSize);
             ok \<leftarrow> readCRCok r;
             Some (if ok then c + 1 else c) })
          (range_le 0 (length body) l1RecordSize) (0 :: nat)
      = Some (fold (\<lambda>r c. if crc_ok r then c + 1 else c) (l1_pieces body) 0)"
    by (rule record_loop) (simp add: readCRCok_eq)
  moreover have "fold (\<lambda>r c. if crc_ok r then c + 1 else c) rs c = c + length (filter crc_ok rs)" for rs and c :: nat
    by (induction rs arbitrary: c) simp_all
  moreover have "length (l1_pieces body) = length body div l1RecordSize" by (simp add: l1_pieces_def)
  ultimately show ?thesis by (simp add: inspectHeaderless_def Let_def)
qed

section \<open>The salvage walk\<close>

definition lost_idx :: "nat \<Rightarrow> nat \<Rightarrow> bytes option list \<Rightarrow> nat \<Rightarrow> int list" where
  "lost_idx N S sh n = map (\<lambda>i. rec_idx (salv_rec N S sh i))
     (filter (\<lambda>i. \<not> whole S sh i \<and> avail S sh (i * l1RecordSize) 8) [0..<n])"

definition lost_anon :: "nat \<Rightarrow> bytes option list \<Rightarrow> nat \<Rightarrow> nat" where
  "lost_anon S sh n = length (filter (\<lambda>i. \<not> whole S sh i \<and> \<not> avail S sh (i * l1RecordSize) 8) [0..<n])"

lemma lost_snoc:
  "lost_idx N S sh (Suc n) = lost_idx N S sh n
     @ (if \<not> whole S sh n \<and> avail S sh (n * l1RecordSize) 8 then [rec_idx (salv_rec N S sh n)] else [])"
  "lost_anon S sh (Suc n) = lost_anon S sh n
     + (if \<not> whole S sh n \<and> \<not> avail S sh (n * l1RecordSize) 8 then 1 else 0)"
  "lost_idx N S sh 0 = []" "lost_anon S sh 0 = 0"
  by (simp_all add: lost_idx_def lost_anon_def)

lemma inspectSalvageRecord_eq:
  assumes "shard_table N S sh" "(i + 1) * l1RecordSize \<le> N * S"
  shows "inspectSalvageRecord sh N S (i * l1RecordSize) ((bad, m, sk), lost, u) =
    (let r = salv_rec N S sh i in
     Some (if whole S sh i
           then ((bad @ impossible [r], apply_rec crc_ok all_blocks r m, sk @ skipped_of crc_ok [r]), lost, u)
           else if avail S sh (i * l1RecordSize) 8 then ((bad, m, sk), lost @ [rec_idx r], u)
           else ((bad, m, sk), lost, u + 1)))"
proof -
  define r where "r = salv_rec N S sh i"
  have le: "i * l1RecordSize + l1RecordSize \<le> N * S" using assms(2) by simp
  then have le8: "i * l1RecordSize + 8 \<le> N * S" by (simp add: l1RecordSize_def)
  have full: "readShardSpan sh N S l1RecordSize (i * l1RecordSize) = Some (if whole S sh i then Some r else None)"
    using readShardSpan_eq [OF assms(1) le] by (simp add: whole_def r_def salv_rec_def)
  have lr: "length r = l1RecordSize" using le by (simp add: r_def salv_rec_def length_flat [OF assms(1)])
  have t8: "take 8 r = take 8 (drop (i * l1RecordSize) (flat N S sh))" "8 \<le> length r"
    unfolding lr by (simp_all add: r_def salv_rec_def l1RecordSize_def min_def)
  have idx8: "readShardSpan sh N S 8 (i * l1RecordSize)
      = Some (if avail S sh (i * l1RecordSize) 8 then Some (take 8 r) else None)"
    using readShardSpan_eq [OF assms(1) le8] by (simp add: t8(1))
  have g: "get_u64 (take 8 r) = Some (le_get (take 8 r))"
    using t8(2) by (simp add: get_u64_Some)
  show ?thesis
    unfolding inspectSalvageRecord_def full idx8 r_def [symmetric]
    by (cases "whole S sh i"; cases "avail S sh (i * l1RecordSize) 8")
      (simp_all add: scanRecord_eq [OF lr] g rec_idx_def Let_def)
qed

lemma inspectSalvage_loop_eq:
  assumes "shard_table N S sh" "n * l1RecordSize \<le> N * S"
  shows "for_list (inspectSalvageRecord sh N S) (map (\<lambda>i. i * l1RecordSize) [0..<n]) (([], Mapping.empty, []), [], 0)
    = (let rs = whole_recs N S sh n in
       Some ((impossible rs, overlay_of crc_ok all_blocks rs, skipped_of crc_ok rs),
             lost_idx N S sh n, lost_anon S sh n))"
  using assms(2)
proof (induction n)
  case 0
  then show ?case by (simp add: salv_snoc lost_snoc impossible_def)
next
  case (Suc n)
  have "(n + 1) * l1RecordSize \<le> N * S" using Suc.prems by simp
  from inspectSalvageRecord_eq [OF assms(1) this] Suc show ?case
    by (simp add: for_list_append Let_def salv_snoc lost_snoc impossible_append skipped_of_append)
qed

lemma split_lost:
  "fold (\<lambda>s (bad, u). if P s then (bad, u + 1) else (bad @ [s], u)) xs (bad, u)
    = (bad @ filter (\<lambda>s. \<not> P s) xs, u + length (filter P xs))" for u :: nat
  by (induction xs arbitrary: bad u) simp_all

lemma inspectSalvage_eq:
  assumes "shard_table N S sh" "P \<le> N * S"
  shows "inspectSalvage (raw_info blob [] 0 False) sh N S P =
    (let n = P div l1RecordSize; rs = whole_recs N S sh n; m = overlay_of crc_ok all_blocks rs;
         lost = lost_idx N S sh n in
     Some (raw_info blob (impossible rs @ filter (\<lambda>b. Mapping.lookup m b = None) lost)
       (lost_anon S sh n + length (unexplained all_blocks rs) + length (filter (\<lambda>b. Mapping.lookup m b \<noteq> None) lost))
       False))"
proof -
  let ?n = "P div l1RecordSize"
  have "?n * l1RecordSize \<le> P" by simp
  then have le: "?n * l1RecordSize \<le> N * S" using assms(2) by (rule order_trans)
  show ?thesis
    unfolding inspectSalvage_def raw_info_simps range_le_from_0 [OF l1RecordSize_pos(1)]
      inspectSalvage_loop_eq [OF assms(1) le] Let_def bind.bind_lunit prod.case countSkipped_unexplained split_lost
    by simp
qed

section \<open>Inspect over the fields of a blob\<close>

lemma Inspect_eq:
  assumes "headerSize \<le> length blob"
  shows "Inspect rs blob =
    (let i = raw_info blob [] 0 False; body = drop headerSize blob; t = blob ! 5 in
     if \<not> hdr_magic_ok blob then Some (no_info, Some ErrCorrupt)
     else if \<not> hdr_crc_ok blob then
       (if t = TierL1 \<or> t > TierL2 then inspectHeaderless i body else Some (i, Some ErrCorrupt))
     else if t = TierL0 then
       map_option (\<lambda>(n, i). (i, None)) (inspectBodyLayout i body l0RecordSize)
     else if t = TierL1 then do {
            (n, i) \<leftarrow> inspectBodyLayout i body l1RecordSize;
            recs \<leftarrow> subslicei body 0 (i64 (n * int l1RecordSize));
            (bad, unattr) \<leftarrow> scanL1Records recs;
            Some (finishInfo (i\<lparr>InfoBadBlocks := InfoBadBlocks i @ bad,
                                UnattributedLoss := UnattributedLoss i + unattr\<rparr>), None)
          }
     else if t = TierL2 then do {
            (i, err) \<leftarrow> inspectRS rs i body;
            (case err of Some e \<Rightarrow> Some (i, Some e) | None \<Rightarrow> Some (finishInfo i, None))
          }
     else Some (i, Some ErrUnsupportedTier))"
proof -
  have "18 \<le> length blob" using assms by (simp add: headerSize_def)
  then have f: "subslice blob 0 4 = Some (take 4 blob)" "elem_at blob 4 = Some (blob ! 4)"
    "subslice blob 14 18 = Some (take 4 (drop 14 blob))" "subslice blob 0 14 = Some (take 14 blob)"
    "elem_at blob 5 = Some (blob ! 5)" "subslice blob 6 14 = Some (take 8 (drop 6 blob))"
    "subslice blob headerSize (length blob) = Some (drop headerSize blob)"
    "get_u32 (take 4 (drop 14 blob)) = Some (le_get (take 4 (drop 14 blob)))"
    "get_u64 (take 8 (drop 6 blob)) = Some (hdr_count blob)"
    using assms by (simp_all add: subslice_Some elem_at_Some get_u32_Some get_u64_Some hdr_count_def)
  have i: "no_info\<lparr>Version := blob ! 4, InfoTier := blob ! 5, BlockCount := hdr_count blob,
      BlobSize := length blob\<rparr> = raw_info blob [] 0 False"
    by (simp add: no_info_def raw_info_def)
  have mo: "map_option g x = Option.bind x (\<lambda>r. Some (g r))" for g :: "'x \<Rightarrow> 'y" and x
    by (cases x) simp_all
  have lt: "\<not> length blob < headerSize" using assms by simp
  show ?thesis
    unfolding Inspect_def f bind.bind_lunit mo if_not_P [OF lt] i
    by (simp add: hdr_magic_ok_def hdr_crc_ok_def Let_def case_prod_unfold)
qed

end
