(* ===== verification/InspectTheorems.thy ===== *)
theory InspectTheorems
  imports InspectSpec RSTheorems
begin

text \<open>
  Inspect against Deserialize: when the two reject a blob, and what a clean result of one says of
  the other.
\<close>

section \<open>Clean reports\<close>

definition clean_info :: "info \<Rightarrow> bool" where
  "clean_info i \<longleftrightarrow> InfoBadBlocks i = [] \<and> \<not> InfoTruncated i"

lemma clean_info_of [simp]: "clean_info (info_of blob bad u tr) \<longleftrightarrow> bad = [] \<and> u = 0 \<and> \<not> tr"
  by (auto simp: clean_info_def info_of_def)

lemma report_None: "snd (report d bad u) = None \<longleftrightarrow> bad = [] \<and> \<not> u"
  by (simp add: report_def)

lemma report_flag: "snd (report d [] u) \<in> {None, Some \<lparr>BadBlocks = [], Truncated = True\<rparr>}"
  by (simp add: report_def)

text \<open>A body decodes without a report: exact, no stray record, every skipped record explained.\<close>

lemma no_loss_iff:
  "named_loss t k body bc = [] \<and> \<not> unnamed_loss t k body bc \<longleftrightarrow>
     exact_body t body bc \<and> \<not> stray (rec_ok t) k (rec_list t body bc)
     \<and> (\<forall>s\<in>set (skipped_of (rec_ok t) (rec_list t body bc)). explained k (body_overlay t k body bc) s)"
  using exact_not_cut [of t body bc]
  by (cases "cut_short t body bc") (auto simp: named_loss_def unnamed_loss_def tail_named_def)

lemma no_loss_L1:
  assumes "int k < 2 ^ 63"
  shows "named_loss TierL1 k body bc = [] \<and> \<not> unnamed_loss TierL1 k body bc \<longleftrightarrow>
     exact_body TierL1 body bc \<and> impossible (rec_list TierL1 body bc) = []
     \<and> unexplained all_blocks (rec_list TierL1 body bc) = [] \<and> \<not> stray crc_ok k (rec_list TierL1 body bc)"
proof (cases "stray crc_ok k (rec_list TierL1 body bc)")
  case True
  then show ?thesis unfolding no_loss_iff by simp
next
  case False
  then have "\<not> stray crc_ok all_blocks (rec_list TierL1 body bc)" using stray_all assms by blast
  then show ?thesis
    unfolding no_loss_iff unexplained_inside [OF False assms, symmetric] unexplained_Nil impossible_stray
    using False by (simp add: body_overlay_def)
qed

section \<open>The record tiers\<close>

lemma l1_pieces_take:
  assumes "n * l1RecordSize \<le> length body"
  shows "l1_pieces (take (n * l1RecordSize) body) = pieces l1RecordSize n body"
proof -
  have "length (take (n * l1RecordSize) body) = n * l1RecordSize" using assms by simp
  then have "l1_pieces (take (n * l1RecordSize) body) = pieces l1RecordSize n (take (n * l1RecordSize) body)"
    by (simp add: l1_pieces_def)
  also have "\<dots> = pieces l1RecordSize n body"
    unfolding pieces_def
  proof (rule map_cong [OF refl])
    fix i assume "i \<in> set [0..<n]"
    then have "(i + 1) * l1RecordSize \<le> n * l1RecordSize" by (intro mult_le_mono1) simp
    then have "i * l1RecordSize + l1RecordSize \<le> n * l1RecordSize" by simp
    then show "take l1RecordSize (drop (i * l1RecordSize) (take (n * l1RecordSize) body))
        = take l1RecordSize (drop (i * l1RecordSize) body)"
      by (simp add: drop_take min_def)
  qed
  finally show ?thesis .
qed

lemma rec_count_le: "rec_count t body bc * tier_size t \<le> length body"
proof -
  have "rec_count t body bc * tier_size t \<le> length body div tier_size t * tier_size t"
    by (intro mult_le_mono1) (simp add: rec_count_def)
  then show ?thesis using div_times_less_eq_dividend le_trans by blast
qed

lemma finishInfo_info_of:
  "finishInfo ((info_of blob b u tr)\<lparr>InfoBadBlocks := InfoBadBlocks (info_of blob b u tr) @ b',
       UnattributedLoss := UnattributedLoss (info_of blob b u tr) + u'\<rparr>) = info_of blob (b @ b') (u + u') tr"
  unfolding info_of_raw raw_info_simps finishInfo_raw by (auto simp: raw_info_def)

lemma Inspect_record_tier:
  assumes "headerSize \<le> length blob" "hdr_magic_ok blob" "hdr_crc_ok blob" "int (length blob) < 2 ^ 63"
    and "t = blob ! 5" "t = TierL0 \<or> t = TierL1" "body = drop headerSize blob" "bc = hdr_count blob"
  shows "Inspect rs blob = Some (info_of blob
      (layout_bad t body bc @ (if t = TierL1 then impossible (rec_list t body bc) else []))
      (layout_unattr t body bc + (if t = TierL1 then length (unexplained all_blocks (rec_list t body bc)) else 0))
      (\<not> exact_body t body bc), None)"
proof -
  have lb: "int (length body) < 2 ^ 63" using assms(4,7) by simp
  note lay = inspectBodyLayout_eq [OF lb assms(8), of t]
  show ?thesis
  proof (cases "t = TierL1")
    case True
    let ?n = "rec_count TierL1 body bc"
    have nb: "?n * l1RecordSize \<le> length body" using rec_count_le [of TierL1 body bc] by simp
    then have "int ?n * int l1RecordSize \<le> int (length body)" by (metis of_nat_le_iff of_nat_mult)
    then have "i64 (int ?n * int l1RecordSize) = int (?n * l1RecordSize)"
      using lb by (subst i64_id) (auto intro: order_trans [of _ 0])
    then have sub: "subslicei body 0 (i64 (int ?n * int l1RecordSize)) = Some (take (?n * l1RecordSize) body)"
      using nb subslicei_int [of body 0 "?n * l1RecordSize"] by (simp add: subslice_Some)
    have "l1_pieces (take (?n * l1RecordSize) body) = rec_list TierL1 body bc"
      using l1_pieces_take [OF nb] by (simp add: rec_list_def)
    with True lay sub show ?thesis
      unfolding Inspect_eq [OF assms(1)] Let_def
      by (simp add: assms(2,3) flip: assms(5,7) del: of_nat_mult)
        (simp add: scanL1Records_eq finishInfo_info_of TierL0_def TierL1_def)
  next
    case False
    then have t: "t = TierL0" using assms(6) by simp
    then show ?thesis
      unfolding Inspect_eq [OF assms(1)] Let_def
      using lay False by (simp add: assms(2,3) flip: assms(5,7))
  qed
qed

section \<open>The Reed-Solomon tier\<close>

text \<open>
  How a result of Inspect answers a result of Deserialize over \<open>bs\<close> (\<open>mirrors\<close>): the same error, or an info
  that is clean when the decoding is; a clean info leaves at most a stray record to report. Where
  Inspect returns an info (and the codec accepts every geometry the metadata may ask for, \<open>acc\<close>)
  Deserialize fails in one case only: the fallback scan has no record for this base (\<open>lost\<close>).
\<close>

definition new_accepts :: "rs_lib \<Rightarrow> bool" where
  "new_accepts rs \<longleftrightarrow> (\<forall>N K. 1 \<le> N \<and> N + K \<le> 64 \<longrightarrow> rs_new rs N K)"

definition scan_lost :: "bytes \<Rightarrow> bytes \<Rightarrow> bool" where
  "scan_lost blob bs \<longleftrightarrow> \<not> hdr_crc_ok blob \<and> salvageable (nblocks bs) (l1_pieces (drop headerSize blob)) = []"

definition mirrors ::
    "bool \<Rightarrow> bool \<Rightarrow> (info \<times> format_error option) option \<Rightarrow> (format_error + device \<times> partial_recovery option) option \<Rightarrow> bool" where
  "mirrors acc lost ins des \<longleftrightarrow>
     (\<exists>i err r. ins = Some (i, err) \<and> des = Some r
        \<and> (\<forall>e. err = Some e \<longrightarrow> r = Inl e)
        \<and> (acc \<and> err = None \<longrightarrow> r = Inl ErrCorrupt \<and> lost \<and> \<not> clean_info i \<or> (\<exists>x. r = Inr x) \<and> \<not> lost)
        \<and> (\<forall>d rep. r = Inr (d, rep) \<longrightarrow>
             (rep = None \<longrightarrow> clean_info i)
           \<and> (clean_info i \<longrightarrow> rep \<in> {None, Some \<lparr>BadBlocks = [], Truncated = True\<rparr>})))"

lemma mirrorsI:
  assumes "ins = Some (i, None)" "des = Some (Inr x)" "snd x = None \<Longrightarrow> clean_info i"
    and "clean_info i \<Longrightarrow> snd x \<in> {None, Some \<lparr>BadBlocks = [], Truncated = True\<rparr>}" and "\<not> lost"
  shows "mirrors acc lost ins des"
  using assms by (cases x) (auto simp: mirrors_def)

lemma salvage_mirrors:
  assumes "shard_table N S sh" "P \<le> N * S" "valid_base bs"
  shows "\<exists>bad u d rep. inspectSalvage (raw_info blob [] 0 False) sh N S P = Some (raw_info blob bad u False)
    \<and> rsSalvage sh N S P bs = Some (d, rep) \<and> (rep = None \<longrightarrow> bad = [] \<and> u = 0)
    \<and> (bad = [] \<and> u = 0 \<longrightarrow> rep \<in> {None, Some \<lparr>BadBlocks = [], Truncated = True\<rparr>})"
proof -
  let ?n = "P div l1RecordSize" and ?k = "nblocks bs"
  let ?rs = "whole_recs N S sh ?n" and ?lost = "lost_idx N S sh ?n"
  let ?m = "overlay_of crc_ok all_blocks ?rs"
  let ?bad = "impossible ?rs @ filter (\<lambda>b. Mapping.lookup ?m b = None) ?lost"
  let ?u = "lost_anon S sh ?n + length (unexplained all_blocks ?rs) + length (filter (\<lambda>b. Mapping.lookup ?m b \<noteq> None) ?lost)"
  let ?d = "\<lparr>base = bs, dirty = salv_overlay ?k N S sh ?n\<rparr>"
  let ?sb = "salv_bad ?k N S sh ?n" and ?su = "salv_unnamed ?k N S sh ?n"
  have k: "int ?k < 2 ^ 63" using assms(3) by (rule nblocks_int)
  have nl: "named_lost ?k N S sh ?n = []" if "?lost = []"
  proof -
    have "\<not> (\<not> whole S sh i \<and> nameable ?k N S sh i)" if "i < ?n" for i
      using \<open>?lost = []\<close> that by (auto simp: lost_idx_def nameable_def filter_empty_conv)
    then show ?thesis by (auto simp: named_lost_def filter_empty_conv)
  qed
  have fwd: "?bad = [] \<and> ?u = 0" if "?sb = []" "\<not> ?su"
  proof -
    have ns: "\<not> stray crc_ok ?k ?rs" and nu: "\<not> unnamed_lost ?k N S sh ?n"
      and ex: "\<forall>s\<in>set (skipped_of crc_ok ?rs). explained ?k (overlay_of crc_ok ?k ?rs) s"
      and nm: "\<forall>b\<in>set (named_lost ?k N S sh ?n). Mapping.lookup (salv_overlay ?k N S sh ?n) b = None"
      using that(2) by (auto simp: salv_unnamed_def salv_overlay_def)
    have "named_lost ?k N S sh ?n = []"
      using that(1) nm unfolding salv_bad_def by (cases "named_lost ?k N S sh ?n") auto
    then have wh: "whole S sh i" if "i < ?n" for i
      using nu that by (auto simp: named_lost_def unnamed_lost_def filter_empty_conv)
    then have "?lost = []" "lost_anon S sh ?n = 0" by (auto simp: lost_idx_def lost_anon_def)
    moreover have "impossible ?rs = []" using ns stray_all k by (auto simp: impossible_stray)
    moreover have "unexplained all_blocks ?rs = []"
      using ex unfolding unexplained_inside [OF ns k, symmetric] unexplained_Nil .
    ultimately show ?thesis by simp
  qed
  have bwd: "?sb = []" if "?bad = []" "?u = 0"
  proof -
    have "?lost = []" using that by (cases "?lost") (auto split: if_splits)
    then show ?thesis by (simp add: salv_bad_def nl)
  qed
  have "rsSalvage sh N S P bs = Some (report ?d ?sb ?su)" using rsSalvage_eq [OF assms] by (simp add: Let_def)
  moreover have "snd (report ?d ?sb ?su) = None \<longrightarrow> ?bad = [] \<and> ?u = 0" using fwd report_None by blast
  moreover have "?bad = [] \<and> ?u = 0 \<longrightarrow> snd (report ?d ?sb ?su) \<in> {None, Some \<lparr>BadBlocks = [], Truncated = True\<rparr>}"
    using bwd report_flag [of ?d ?su] by metis
  ultimately show ?thesis
    using inspectSalvage_eq [OF assms(1,2), of blob] by (metis (no_types, lifting) prod.collapse)
qed

lemma payload_mirrors:
  assumes "length p = unat bc * l1RecordSize" "int (length p) < 2 ^ 63" "valid_base bs"
  shows "\<exists>bad u d rep. scanL1Records p = Some (bad, u) \<and> applyRecords p TierL1 bc bs = Some (d, rep)
    \<and> (rep = None \<longrightarrow> bad = [] \<and> u = 0)
    \<and> (bad = [] \<and> u = 0 \<longrightarrow> rep \<in> {None, Some \<lparr>BadBlocks = [], Truncated = True\<rparr>})"
proof -
  let ?k = "nblocks bs" and ?d = "\<lparr>base = bs, dirty = body_overlay TierL1 (nblocks bs) p bc\<rparr>"
  let ?nl = "named_loss TierL1 ?k p bc" and ?ul = "unnamed_loss TierL1 ?k p bc"
  have k: "int ?k < 2 ^ 63" using assms(3) by (rule nblocks_int)
  have ex: "exact_body TierL1 p bc" using assms(1) by (simp add: exact_body_def)
  have "?nl = []" using exact_not_cut [OF ex] by (simp add: named_loss_def tail_named_def)
  moreover have rl: "rec_list TierL1 p bc = l1_pieces p" by (simp add: rec_list_def rec_count_def l1_pieces_def assms(1))
  moreover have "?nl = [] \<and> \<not> ?ul \<longrightarrow> impossible (l1_pieces p) = [] \<and> length (unexplained all_blocks (l1_pieces p)) = 0"
    unfolding no_loss_L1 [OF k] rl by simp
  moreover have "applyRecords p TierL1 bc bs = Some (report ?d ?nl ?ul)"
    using applyRecords_eq [OF assms(3,2)] .
  ultimately show ?thesis
    unfolding scanL1Records_eq using report_None [of ?d ?nl ?ul] report_flag [of ?d ?ul]
    by (metis (no_types, lifting) prod.collapse)
qed

lemma table_mirrors:
  assumes "length t = N + K" "\<forall>x. Some x \<in> set t \<longrightarrow> length x = S" "0 < S" "P \<le> N * S" "valid_base bs"
  shows "\<exists>bad u d rep. inspectSalvage (raw_info blob [] 0 False) t N S P = Some (raw_info blob bad u False)
    \<and> rsSalvage t N S P bs = Some (d, rep) \<and> (rep = None \<longrightarrow> bad = [] \<and> u = 0)
    \<and> (bad = [] \<and> u = 0 \<longrightarrow> rep \<in> {None, Some \<lparr>BadBlocks = [], Truncated = True\<rparr>})"
  using assms by (intro salvage_mirrors) (auto simp: shard_table_def)

definition rs_mirrors :: "bool \<Rightarrow> bytes \<Rightarrow> (info \<times> format_error option) option
    \<Rightarrow> (format_error + device \<times> partial_recovery option) option \<Rightarrow> bool" where
  "rs_mirrors acc blob ins des \<longleftrightarrow>
     (\<exists>e. ins = Some (raw_info blob [] 0 False, Some e) \<and> des = Some (Inl e))
     \<or> (\<exists>bad u r. ins = Some (raw_info blob bad u False, None) \<and> des = Some r \<and> (acc \<longrightarrow> (\<exists>x. r = Inr x))
          \<and> (\<forall>d rep. r = Inr (d, rep) \<longrightarrow> (rep = None \<longrightarrow> bad = [] \<and> u = 0)
              \<and> (bad = [] \<and> u = 0 \<longrightarrow> rep \<in> {None, Some \<lparr>BadBlocks = [], Truncated = True\<rparr>})))"

lemma inspectRS_mirrors:
  assumes rs: "rs_shape rs" and len: "int (length body) < 2 ^ 61" and vb: "valid_base bs"
    and bc: "bc = hdr_count blob"
  shows "rs_mirrors (new_accepts rs) blob (inspectRS rs (raw_info blob [] 0 False) body) (deserializeRS rs body bc bs)"
proof (cases "length body < rsMetaSize \<or> \<not> meta_crc_ok body
    \<or> \<not> meta_accepts (length body) bc (meta_N body) (meta_K body) (meta_S body) (meta_P body)")
  case True
  then show ?thesis
    by (simp add: inspectRS_def deserializeRS_def parseRSMeta_eq [OF len] Let_def rs_mirrors_def flip: bc)
next
  case False
  let ?N = "meta_N body" and ?K = "meta_K body" and ?S = "meta_S body" and ?P = "unat (meta_P body)"
  have parse: "parseRSMeta body bc = Some (Inr \<lparr>g_dataShards = ?N, g_parityShards = ?K, g_shardSize = ?S, g_payloadLen = ?P\<rparr>)"
    using False by (simp add: parseRSMeta_eq [OF len] Let_def)
  have "?N + ?K \<le> 64" "1 \<le> ?N" using False by (simp_all add: meta_accepts_def)
  then have nw: "new_accepts rs \<Longrightarrow> rs_new rs ?N ?K" by (simp add: new_accepts_def)
  have acc: "1 \<le> ?N" "?P \<le> ?N * ?S" "(?N + ?K) * ?S \<le> 2 ^ 33" "?P = unat bc * l1RecordSize"
    using False by (simp_all add: meta_accepts_def)
  have "?N * ?S \<le> (?N + ?K) * ?S" by (intro mult_le_mono1) simp
  then have P33: "?P \<le> 2 ^ 33" using acc by linarith
  show ?thesis
  proof (cases "?P = 0")
    case True
    have "int (length ([] :: bytes)) < 2 ^ 63" "length ([] :: bytes) = unat bc * l1RecordSize"
      using acc(4) True by simp_all
    from payload_mirrors [OF this(2,1) vb] obtain d rep where
      "applyRecords [] TierL1 bc bs = Some (d, rep)" "rep \<in> {None, Some \<lparr>BadBlocks = [], Truncated = True\<rparr>}"
      by (auto simp: scanL1Records_eq l1_pieces_def pieces_def impossible_def unexplained_def)
    then show ?thesis
      unfolding inspectRS_def deserializeRS_def raw_info_simps bc [symmetric] parse bind.bind_lunit sum.case Let_def
        rsGeometry.simps rs_mirrors_def
      using True by simp
  next
    case P: False
    then have S: "0 < ?S" using acc(2) by (cases ?S) simp_all
    let ?sect = "drop rsMetaSize body"
    let ?fs = "pieces (stride ?S) (length ?sect div stride ?S) ?sect"
    let ?sl = "slots_of (?N + ?K) ?fs"
    let ?miss = "length (filter (\<lambda>s. s = None) ?sl)"
    have sect: "subslice body rsMetaSize (length body) = Some ?sect" using False by (simp add: subslice_Some)
    have fl: "\<forall>f\<in>set ?fs. length f = stride ?S"
      by (intro ballI pieces_length [OF div_times_less_eq_dividend])
    have sl: "length ?sl = ?N + ?K" "\<forall>x. Some x \<in> set ?sl \<longrightarrow> length x = ?S"
      by (rule length_slots_of, intro allI impI, rule slots_of_lengths [OF fl])
    obtain ok t where t: "rs_reconstruct rs ?N ?K ?sl = (ok, t)" by (cases "rs_reconstruct rs ?N ?K ?sl")
    have tl: "length t = ?N + ?K" "\<forall>x. Some x \<in> set t \<longrightarrow> length x = ?S" "ok \<Longrightarrow> None \<notin> set (take ?N t)"
      using rs t sl unfolding rs_shape_def by blast+
    let ?pay = "concat (map (\<lambda>i. case t ! i of Some x \<Rightarrow> x | None \<Rightarrow> []) [0..<?N])"
    have ln: "\<not> length t < ?N" using tl(1) by simp
    note unf = inspectRS_def deserializeRS_def raw_info_simps bc [symmetric] parse bind.bind_lunit sum.case Let_def
      rsGeometry.simps if_not_P [OF P] sect parseShardSection_eq prod.case
    consider "?miss \<le> ?K" "rs_new rs ?N ?K" ok | "?miss \<le> ?K" "rs_new rs ?N ?K" "\<not> ok"
      | "?miss \<le> ?K" "\<not> rs_new rs ?N ?K" | "\<not> ?miss \<le> ?K" by blast
    then show ?thesis
    proof cases
      case 1
      have pl: "length (take ?P ?pay) = ?P" "subslice ?pay 0 ?P = Some (take ?P ?pay)"
        using reconstructed_payload [OF tl(1,2) tl(3) [OF 1(3)]] acc(2) by (simp_all add: subslice_Some)
      have "length (take ?P ?pay) = unat bc * l1RecordSize" using pl(1) acc(4) by simp
      moreover have "int (length (take ?P ?pay)) < 2 ^ 63" using P33 by (intro int_below_2p63) (simp add: pl(1))
      ultimately obtain bad u d rep where "scanL1Records (take ?P ?pay) = Some (bad, u)"
        "applyRecords (take ?P ?pay) TierL1 bc bs = Some (d, rep)" "rep = None \<longrightarrow> bad = [] \<and> u = 0"
        "bad = [] \<and> u = 0 \<longrightarrow> rep \<in> {None, Some \<lparr>BadBlocks = [], Truncated = True\<rparr>}"
        using payload_mirrors [OF _ _ vb] by blast
      then show ?thesis unfolding unf using 1 t ln pl(2) by (simp add: rs_mirrors_def)
    next
      case 2
      then show ?thesis unfolding unf using table_mirrors [OF tl(1,2) S acc(2) vb, of blob] t by (auto simp: rs_mirrors_def)
    next
      case 3
      then have "\<not> new_accepts rs" using nw by blast
      then show ?thesis unfolding unf using 3 table_mirrors [OF sl S acc(2) vb, of blob] by (auto simp: rs_mirrors_def)
    next
      case 4
      then show ?thesis unfolding unf using table_mirrors [OF sl S acc(2) vb, of blob] by (auto simp: rs_mirrors_def)
    qed
  qed
qed

section \<open>Every blob\<close>

lemma record_tier_mirrors:
  assumes "headerSize \<le> length blob" "hdr_magic_ok blob" "hdr_crc_ok blob" "int (length blob) < 2 ^ 63"
    and "blob ! 5 = TierL0 \<or> blob ! 5 = TierL1" "valid_base bs"
  shows "mirrors (new_accepts rs) (scan_lost blob bs) (Inspect rs blob) (Deserialize rs blob bs)"
proof -
  let ?t = "blob ! 5" and ?body = "drop headerSize blob" and ?bc = "hdr_count blob" and ?k = "nblocks bs"
  let ?d = "\<lparr>base = bs, dirty = body_overlay ?t ?k ?body ?bc\<rparr>"
  let ?nl = "named_loss ?t ?k ?body ?bc" and ?ul = "unnamed_loss ?t ?k ?body ?bc"
  have k: "int ?k < 2 ^ 63" using assms(6) by (rule nblocks_int)
  have al: "length bs mod BlockSize = 0" using assms(6) by (simp add: valid_base_def)
  have lb: "int (length ?body) < 2 ^ 63" using assms(4) by simp
  have des: "Deserialize rs blob bs = Some (Inr (report ?d ?nl ?ul))"
    unfolding Deserialize_eq [OF al assms(1)] using assms(2,3,5) applyRecords_eq [OF assms(6) lb] by auto
  let ?imp = "if ?t = TierL1 then impossible (rec_list ?t ?body ?bc) else []"
  let ?ux = "if ?t = TierL1 then length (unexplained all_blocks (rec_list ?t ?body ?bc)) else 0"
  let ?i = "info_of blob (layout_bad ?t ?body ?bc @ ?imp) (layout_unattr ?t ?body ?bc + ?ux) (\<not> exact_body ?t ?body ?bc)"
  have ins: "Inspect rs blob = Some (?i, None)"
    by (rule Inspect_record_tier [OF assms(1-4) refl assms(5) refl refl])
  have fwd: "clean_info ?i" if "?nl = [] \<and> \<not> ?ul"
  proof -
    have ex: "exact_body ?t ?body ?bc" using that no_loss_iff by blast
    have "?imp = [] \<and> ?ux = 0" using that no_loss_L1 [OF k, of ?body ?bc] by (cases "?t = TierL1") simp_all
    then show ?thesis using ex layout_exact [OF ex] by simp
  qed
  have bwd: "?nl = []" if "clean_info ?i"
    using that exact_not_cut [of ?t ?body ?bc] by (simp add: named_loss_def tail_named_def)
  show ?thesis
  proof (rule mirrorsI [OF ins des])
    assume "snd (report ?d ?nl ?ul) = None"
    then show "clean_info ?i" unfolding report_None by (rule fwd)
  next
    assume "clean_info ?i"
    then show "snd (report ?d ?nl ?ul) \<in> {None, Some \<lparr>BadBlocks = [], Truncated = True\<rparr>}"
      using report_flag [of ?d ?ul] by (simp only: bwd)
  next
    show "\<not> scan_lost blob bs" using assms(3) by (simp add: scan_lost_def)
  qed
qed

lemma headerless_mirrors:
  assumes "headerSize \<le> length blob" "valid_base bs"
    and "\<not> hdr_crc_ok blob"
  shows "mirrors acc (scan_lost blob bs) (inspectHeaderless i (drop headerSize blob)) (deserializeHeaderless blob bs)"
proof -
  let ?body = "drop headerSize blob"
  let ?rs = "l1_pieces ?body"
  have "salvageable (nblocks bs) ?rs = []" if "length (filter crc_ok ?rs) = 0"
    using that by (auto simp: salvageable_def filter_empty_conv)
  then show ?thesis
    unfolding mirrors_def inspectHeaderless_eq deserializeHeaderless_eq [OF assms(2,1)] Let_def l1_pieces_def
    using assms(3) by (auto simp: clean_info_def scan_lost_def l1_pieces_def)
qed

lemma mirrors_finish:
  assumes "rs_mirrors acc blob ins des" "\<not> lost"
  shows "mirrors acc lost (do { (i, err) \<leftarrow> ins;
      (case err of Some e \<Rightarrow> Some (i, Some e) | None \<Rightarrow> Some (finishInfo i, None)) }) des"
  using assms unfolding rs_mirrors_def mirrors_def by (auto simp: finishInfo_raw)

lemma Inspect_mirrors:
  assumes "rs_shape rs" "int (length blob) < 2 ^ 61" "valid_base bs"
  shows "mirrors (new_accepts rs) (scan_lost blob bs) (Inspect rs blob) (Deserialize rs blob bs)"
proof (cases "length blob < headerSize")
  case True
  then show ?thesis using assms(3) by (simp add: Inspect_def Deserialize_def mirrors_def valid_base_def)
next
  case False
  then have hs: "headerSize \<le> length blob" by simp
  have al: "length bs mod BlockSize = 0" using assms(3) by (simp add: valid_base_def)
  have lb: "int (length blob) < 2 ^ 63" "int (length (drop headerSize blob)) < 2 ^ 61" using assms(2) by simp_all
  note eqs = Inspect_eq [OF hs] Deserialize_eq [OF al hs] Let_def
  consider "\<not> hdr_magic_ok blob \<or> \<not> hdr_crc_ok blob"
    | "hdr_magic_ok blob" "hdr_crc_ok blob" "blob ! 5 = TierL0 \<or> blob ! 5 = TierL1"
    | "hdr_magic_ok blob" "hdr_crc_ok blob" "blob ! 5 \<noteq> TierL0" "blob ! 5 \<noteq> TierL1" by blast
  then show ?thesis
  proof cases
    case 1
    then show ?thesis unfolding eqs using headerless_mirrors [OF hs assms(3)] by (auto simp: mirrors_def)
  next
    case 2
    then show ?thesis using record_tier_mirrors [OF hs _ _ lb(1) _ assms(3)] by blast
  next
    case 3
    then show ?thesis
      unfolding eqs using mirrors_finish [OF inspectRS_mirrors [OF assms(1) lb(2) assms(3) refl], of "scan_lost blob bs"]
      by (auto simp: mirrors_def scan_lost_def)
  qed
qed

section \<open>The shape of an info\<close>

definition sound_info :: "bytes \<Rightarrow> info \<Rightarrow> bool" where
  "sound_info blob i \<longleftrightarrow> Version i = blob ! 4 \<and> InfoTier i = blob ! 5 \<and> BlockCount i = hdr_count blob
     \<and> BlobSize i = length blob \<and> sorted (InfoBadBlocks i) \<and> distinct (InfoBadBlocks i)
     \<and> (0 < UnattributedLoss i \<longrightarrow> InfoTruncated i)"

lemma sound_info_of: "sound_info blob (info_of blob bad u tr)"
  by (simp add: sound_info_def info_of_def)

lemma sound_raw_info: "sound_info blob (raw_info blob [] u True)"
  by (simp add: sound_info_def raw_info_def)

lemma Inspect_sound:
  assumes "rs_shape rs" "int (length blob) < 2 ^ 61"
  shows "\<exists>i err. Inspect rs blob = Some (i, err)
    \<and> (err = None \<longrightarrow> headerSize \<le> length blob \<and> hdr_magic_ok blob \<and> sound_info blob i)"
proof (cases "length blob < headerSize")
  case True
  then show ?thesis by (simp add: Inspect_def)
next
  case False
  then have hs: "headerSize \<le> length blob" by simp
  have lb: "int (length blob) < 2 ^ 63" "int (length (drop headerSize blob)) < 2 ^ 61" using assms(2) by simp_all
  have vb: "valid_base []" by (simp add: valid_base_def)
  note eqs = Inspect_eq [OF hs] Let_def
  consider "\<not> hdr_magic_ok blob" | "hdr_magic_ok blob" "\<not> hdr_crc_ok blob"
    | "hdr_magic_ok blob" "hdr_crc_ok blob" "blob ! 5 = TierL0 \<or> blob ! 5 = TierL1"
    | "hdr_magic_ok blob" "hdr_crc_ok blob" "blob ! 5 \<noteq> TierL0" "blob ! 5 \<noteq> TierL1" by blast
  then show ?thesis
  proof cases
    case 1
    then show ?thesis unfolding eqs by simp
  next
    case 2
    then show ?thesis unfolding eqs inspectHeaderless_eq using hs by (auto simp: sound_raw_info)
  next
    case 3
    then show ?thesis using Inspect_record_tier [OF hs 3(1,2) lb(1) refl 3(3) refl refl, of rs] hs
      by (simp add: sound_info_of)
  next
    case 4
    then show ?thesis
      unfolding eqs using inspectRS_mirrors [where blob = blob, OF assms(1) lb(2) vb refl] hs
      by (auto simp: rs_mirrors_def finishInfo_raw sound_info_of)
  qed
qed

text \<open>An undamaged decoding determines the whole info.\<close>

lemma Inspect_of_clean_decode:
  assumes "rs_shape rs" "int (length blob) < 2 ^ 61" "valid_base bs" "Deserialize rs blob bs = Some (Inr (d, None))"
  shows "Inspect rs blob = Some (\<lparr>Version = blob ! 4, InfoTier = blob ! 5, BlockCount = hdr_count blob,
    BlobSize = length blob, InfoBadBlocks = [], UnattributedLoss = 0, InfoTruncated = False\<rparr>, None)"
proof -
  obtain i err where i: "Inspect rs blob = Some (i, err)" "err = None \<longrightarrow> sound_info blob i"
    using Inspect_sound [OF assms(1,2)] by blast
  have "err = None" "clean_info i"
    using Inspect_mirrors [OF assms(1-3)] assms(4) i(1) by (auto simp: mirrors_def)
  then show ?thesis using i by (auto simp: sound_info_def clean_info_def intro!: info.equality)
qed

section \<open>Properties\<close>

text \<open>
  C25: Inspect returns for every blob. An info without an error carries the bytes of the header, lists
  the lost blocks in ascending order without repeats, and counts no anonymous loss without setting
  Truncated.
\<close>

theorem Inspect_total:
  assumes "rs_shape rs" "int (length blob) < 2 ^ 61"
  shows "\<exists>i err. Inspect rs blob = Some (i, err)
    \<and> (err = None \<longrightarrow> take 5 blob = magic @ [formatVersion]
        \<and> Version i = formatVersion \<and> InfoTier i = blob ! 5
        \<and> BlockCount i = le_get (take 8 (drop 6 blob)) \<and> BlobSize i = length blob
        \<and> sorted (InfoBadBlocks i) \<and> distinct (InfoBadBlocks i)
        \<and> (0 < UnattributedLoss i \<longrightarrow> InfoTruncated i))"
proof -
  have "take 5 blob = magic @ [formatVersion]" if "headerSize \<le> length blob" "hdr_magic_ok blob"
  proof -
    have "4 < length blob" using that(1) by (simp add: headerSize_def)
    then have "take (Suc 4) blob = take 4 blob @ [blob ! 4]" by (rule take_Suc_conv_app_nth)
    then show ?thesis using that(2) by (simp add: hdr_magic_ok_def)
  qed
  then show ?thesis
    using Inspect_sound [OF assms] by (auto simp: sound_info_def hdr_count_def hdr_magic_ok_def)
qed

theorem Inspect_total_witness:
  "\<exists>i err. Inspect replica_rs (header TierL2 1 @ [1, 2, 3]) = Some (i, err)
    \<and> (err = None \<longrightarrow> BlobSize i = headerSize + 3)"
proof -
  have "int (length (header TierL2 1 @ [1, 2, 3])) < 2 ^ 61"
    by (simp add: headerSize_def)
  from Inspect_total [OF replica_shape this] show ?thesis by auto
qed

lemma scan_lost_iff:
  "scan_lost blob bs \<longleftrightarrow> ChecksumIEEE (take 14 blob) \<noteq> le_get (take 4 (drop 14 blob))
    \<and> \<not> (\<exists>x\<in>set (pieces l1RecordSize (length (drop headerSize blob) div l1RecordSize) (drop headerSize blob)).
         crc_ok x \<and> 0 \<le> rec_idx x \<and> rec_idx x < int (length bs div BlockSize))"
  by (auto simp: scan_lost_def hdr_crc_ok_def salvageable_def filter_empty_conv l1_pieces_def in_base_def nblocks_def)

text \<open>
  C9: what Inspect, which has no base, says about Deserialize over any base. An error of Inspect is
  the error of Deserialize. Deserialize fails exactly when Inspect does, or when the header CRC
  fails and no record of the fallback scan verifies with an index inside this base. When
  Deserialize succeeds without a report, Inspect reports no loss; when Inspect reports no loss,
  Deserialize succeeds, but over a small base it may still report an anonymous loss.
\<close>

theorem Inspect_agrees:
  assumes "rs_shape rs" "\<forall>N K. 1 \<le> N \<and> N + K \<le> 64 \<longrightarrow> rs_new rs N K"
    and "int (length blob) < 2 ^ 61" "length bs mod BlockSize = 0" "int (length bs) < 2 ^ 63"
    and "body = drop headerSize blob" "recs = pieces l1RecordSize (length body div l1RecordSize) body"
  shows "\<exists>i err r. Inspect rs blob = Some (i, err) \<and> Deserialize rs blob bs = Some r
    \<and> (\<forall>e. err = Some e \<longrightarrow> r = Inl e)
    \<and> ((\<exists>e. r = Inl e) \<longleftrightarrow> err \<noteq> None
         \<or> ChecksumIEEE (take 14 blob) \<noteq> le_get (take 4 (drop 14 blob))
           \<and> \<not> (\<exists>x\<in>set recs. crc_ok x \<and> 0 \<le> rec_idx x \<and> rec_idx x < int (length bs div BlockSize)))
    \<and> (\<forall>d. r = Inr (d, None) \<longrightarrow> InfoBadBlocks i = [] \<and> \<not> InfoTruncated i)
    \<and> (err = None \<and> InfoBadBlocks i = [] \<and> \<not> InfoTruncated i \<longrightarrow>
         (\<exists>d. r = Inr (d, None) \<or> r = Inr (d, Some \<lparr>BadBlocks = [], Truncated = True\<rparr>)))"
proof -
  have vb: "valid_base bs" using assms(4,5) by (simp add: valid_base_def)
  have acc: "new_accepts rs" using assms(2) by (simp add: new_accepts_def)
  note lost = scan_lost_iff [of blob bs, folded assms(6), folded assms(7), symmetric]
  obtain i err r where m: "Inspect rs blob = Some (i, err)" "Deserialize rs blob bs = Some r"
    "\<forall>e. err = Some e \<longrightarrow> r = Inl e"
    "err = None \<longrightarrow> r = Inl ErrCorrupt \<and> scan_lost blob bs \<and> \<not> clean_info i \<or> (\<exists>x. r = Inr x) \<and> \<not> scan_lost blob bs"
    "\<forall>d rep. r = Inr (d, rep) \<longrightarrow> (rep = None \<longrightarrow> clean_info i)
        \<and> (clean_info i \<longrightarrow> rep \<in> {None, Some \<lparr>BadBlocks = [], Truncated = True\<rparr>})"
    using Inspect_mirrors [OF assms(1,3) vb] acc unfolding mirrors_def by blast
  have cl: "clean_info i \<longleftrightarrow> InfoBadBlocks i = [] \<and> \<not> InfoTruncated i" by (auto simp: clean_info_def)
  have rej: "(\<exists>e. r = Inl e) \<longleftrightarrow> err \<noteq> None \<or> scan_lost blob bs" using m(3,4) by (cases err) auto
  have keep: "\<exists>d. r = Inr (d, None) \<or> r = Inr (d, Some \<lparr>BadBlocks = [], Truncated = True\<rparr>)"
    if "err = None" "clean_info i"
  proof -
    have "\<exists>x. r = Inr x" using m(4) that by blast
    then obtain d rep where "r = Inr (d, rep)" by auto
    then show ?thesis using m(5) that(2) by auto
  qed
  show ?thesis unfolding lost
  proof (intro exI conjI, rule m(1), rule m(2), rule m(3), rule rej)
    show "\<forall>d. r = Inr (d, None) \<longrightarrow> InfoBadBlocks i = [] \<and> \<not> InfoTruncated i" using m(5) by (simp add: cl)
    show "err = None \<and> InfoBadBlocks i = [] \<and> \<not> InfoTruncated i \<longrightarrow>
      (\<exists>d. r = Inr (d, None) \<or> r = Inr (d, Some \<lparr>BadBlocks = [], Truncated = True\<rparr>))"
      using keep by (simp add: cl)
  qed
qed

theorem Inspect_agrees_witness:
  "\<exists>i err r. Inspect replica_rs (header TierL1 1 @ enc_record True 0 sample_block) = Some (i, err)
    \<and> Deserialize replica_rs (header TierL1 1 @ enc_record True 0 sample_block) sample_base = Some r
    \<and> (\<forall>e. err = Some e \<longrightarrow> r = Inl e) \<and> (\<forall>d. r = Inr (d, None) \<longrightarrow> InfoBadBlocks i = [])"
proof -
  let ?b = "header TierL1 1 @ enc_record True 0 sample_block"
  have l: "int (length ?b) < 2 ^ 61"
    by (simp add: headerSize_def length_enc_record enc_size_def l1RecordSize_def BlockSize_def)
  have bs: "length sample_base mod BlockSize = 0" "int (length sample_base) < 2 ^ 63"
    using sample_base_valid by (simp_all add: valid_base_def)
  have acc: "\<forall>N K. 1 \<le> N \<and> N + K \<le> 64 \<longrightarrow> rs_new replica_rs N K" by (simp add: replica_rs_def)
  from Inspect_agrees [OF replica_shape acc l bs refl refl] show ?thesis by (elim exE conjE) (intro exI conjI, assumption+, blast)
qed

end
