(* ===== verification/TierTheorems.thy ===== *)
theory TierTheorems
  imports Tiers InspectTheorems
begin

text \<open>
  Properties over all tiers: one blob for every schedule and back to the device, what Inspect says
  about an undamaged blob, and when Inspect and Deserialize agree that a blob is undamaged.
\<close>

text \<open>
  C1: at every tier the blob SerializeTier writes does not depend on the number of processors
  or the schedules, and it deserializes to the device it was written from; at L2, up to a size of 8 GiB.
\<close>

theorem every_tier_roundtrip:
  assumes "valid_device d" "length (base d) < 2 ^ 62" "t = TierL0 \<or> t = TierL1 \<or> t = TierL2"
    and "rs_shape rs"
    and "t = TierL2 \<longrightarrow> rs_contract rs (nat (fst (rsDefaultShards (length (payload_of d))))) 2"
  shows "\<exists>blob. (\<forall>procs sched hsched. SerializeTier rs procs sched hsched d t = Some (Inr blob))
    \<and> ((t = TierL2 \<longrightarrow> length blob \<le> 2 ^ 33) \<longrightarrow> Deserialize rs blob (base d) = Some (Inr (d, None)))"
proof -
  have c: "codec_serves rs d t" using assms(3-5) by (auto simp: codec_serves_def default_data_def)
  obtain xs where b: "\<forall>procs sched hsched. SerializeTier rs procs sched hsched d t
      = Some (Inr (header t (card (Mapping.keys (dirty d))) @ xs))"
    using tier_blob [OF assms(1,2) c] by blast
  then show ?thesis using tier_decodes [OF assms(1,2) c] by blast
qed

lemma sample_serves:
  "length (base sample_device) < 2 ^ 62"
  "rs_contract replica_rs (nat (fst (rsDefaultShards (length (payload_of sample_device))))) 2"
proof -
  show "length (base sample_device) < 2 ^ 62" by (simp add: sample_base_def BlockSize_def)
  have "nat (fst (rsDefaultShards (length (payload_of sample_device)))) = 1"
    by (simp add: sample_payload(1,2) rsDefaultShards_def rs_consts Let_def)
  then show "rs_contract replica_rs (nat (fst (rsDefaultShards (length (payload_of sample_device))))) 2"
    using replica_contract [of 2] by simp
qed

theorem every_tier_roundtrip_witness:
  "\<exists>blob. (\<forall>procs sched hsched. SerializeTier replica_rs procs sched hsched sample_device TierL2 = Some (Inr blob))
    \<and> (length blob \<le> 2 ^ 33 \<longrightarrow> Deserialize replica_rs blob sample_base = Some (Inr (sample_device, None)))"
proof -
  have "TierL2 = TierL0 \<or> TierL2 = TierL1 \<or> TierL2 = TierL2" by simp
  from every_tier_roundtrip [OF sample_device_valid sample_serves(1) this replica_shape] sample_serves(2)
  show ?thesis by simp
qed

text \<open>
  C26: Inspect reads back what SerializeTier wrote, at every tier: the version, the tier, the number of
  dirty blocks and the size, and no loss; at L2, for blobs of up to 8 GiB (larger ones the decoder
  refuses).
\<close>

theorem Inspect_serialized:
  assumes "valid_device d" "length (base d) < 2 ^ 62" "t = TierL0 \<or> t = TierL1 \<or> t = TierL2"
    and "rs_shape rs"
    and "t = TierL2 \<longrightarrow> rs_contract rs (nat (fst (rsDefaultShards (length (payload_of d))))) 2"
    and "SerializeTier rs procs sched hsched d t = Some (Inr blob)"
    and "length blob < 2 ^ 61" "t = TierL2 \<longrightarrow> length blob \<le> 2 ^ 33"
  shows "Inspect rs blob = Some (\<lparr>Version = formatVersion, InfoTier = t,
    BlockCount = of_nat (card (Mapping.keys (dirty d))), BlobSize = length blob,
    InfoBadBlocks = [], UnattributedLoss = 0, InfoTruncated = False\<rparr>, None)"
proof -
  have c: "codec_serves rs d t" using assms(3-5) by (auto simp: codec_serves_def default_data_def)
  obtain xs where b: "blob = header t (card (Mapping.keys (dirty d))) @ xs"
    using tier_blob [OF assms(1,2) c] assms(6) by fastforce
  have l: "int (length blob) < 2 ^ 61" using assms(7) by (metis of_nat_less_iff of_nat_numeral of_nat_power)
  have "valid_base (base d)" using assms(1) by (simp add: valid_device_def)
  from Inspect_of_clean_decode [OF assms(4) l this tier_decodes [OF assms(1,2) c assms(6) assms(8)]]
  have "Inspect rs blob = Some (\<lparr>Version = blob ! 4, InfoTier = blob ! 5, BlockCount = hdr_count blob,
    BlobSize = length blob, InfoBadBlocks = [], UnattributedLoss = 0, InfoTruncated = False\<rparr>, None)" by simp
  moreover have "blob ! 4 = formatVersion" "blob ! 5 = t" "hdr_count blob = of_nat (card (Mapping.keys (dirty d)))"
    using header_fields(1,3,4) [of t "card (Mapping.keys (dirty d))" xs] by (simp_all add: b hdr_magic_ok_def)
  ultimately show ?thesis by simp
qed

theorem Inspect_serialized_witness:
  "\<exists>blob. SerializeTier replica_rs 4 [1, 0] [] sample_device TierL1 = Some (Inr blob)
    \<and> Inspect replica_rs blob = Some (\<lparr>Version = formatVersion, InfoTier = TierL1, BlockCount = 1,
         BlobSize = headerSize + l1RecordSize, InfoBadBlocks = [], UnattributedLoss = 0, InfoTruncated = False\<rparr>, None)"
proof -
  let ?blob = "record_blob True sample_device [0]"
  have t: "tier_of True = TierL1" "enc_size True = l1RecordSize" by (simp_all add: tier_of_def enc_size_def)
  note s = sample_blob(1) [of replica_rs 4 "[1, 0]" "[]" True, unfolded t] sample_blob(2) [of True, unfolded t]
  have "TierL1 = TierL0 \<or> TierL1 = TierL1 \<or> TierL1 = TierL2" by simp
  moreover have "TierL1 = TierL2 \<longrightarrow> rs_contract replica_rs (nat (fst (rsDefaultShards (length (payload_of sample_device))))) 2"
    using sample_serves(2) by simp
  moreover have "length ?blob < 2 ^ 61" "TierL1 = TierL2 \<longrightarrow> length ?blob \<le> 2 ^ 33"
    using s(2) by (simp_all add: headerSize_def sample_payload(2))
  ultimately show ?thesis
    using s Inspect_serialized [OF sample_device_valid sample_serves(1) _ replica_shape _ s(1)] by auto
qed

text \<open>
  C27: at L0 and L1, Deserialize over a base succeeds without a report exactly when Inspect reports
  no loss and every record that is not refused by its CRC carries the index of a block of that base.
\<close>

theorem Inspect_clean_iff:
  assumes "length bs mod BlockSize = 0" "int (length bs) < 2 ^ 63" "int (length blob) < 2 ^ 61"
    and "headerSize \<le> length blob" "t = blob ! 5" "t = TierL0 \<or> t = TierL1"
    and "sz = (if t = TierL1 then l1RecordSize else l0RecordSize)"
    and "recs = pieces sz (unat (le_get (take 8 (drop 6 blob)) :: uint64)) (drop headerSize blob)"
  shows "(\<exists>d. Deserialize rs blob bs = Some (Inr (d, None))) \<longleftrightarrow>
    (\<exists>i. Inspect rs blob = Some (i, None) \<and> InfoBadBlocks i = [] \<and> \<not> InfoTruncated i)
    \<and> (\<forall>r\<in>set recs. t = TierL0 \<or> crc_ok r \<longrightarrow> 0 \<le> rec_idx r \<and> rec_idx r < int (length bs div BlockSize))"
proof -
  have vb: "valid_base bs" using assms(1,2) by (simp add: valid_base_def)
  have k: "int (nblocks bs) < 2 ^ 63" using vb by (rule nblocks_int)
  let ?body = "drop headerSize blob" and ?bc = "hdr_count blob" and ?k = "nblocks bs"
  have lb: "int (length blob) < 2 ^ 63" "int (length ?body) < 2 ^ 63" using assms(3) by simp_all
  have t01: "t = TierL0 \<longleftrightarrow> t \<noteq> TierL1" using assms(6) by (auto simp: TierL0_def TierL1_def)
  show ?thesis
  proof (cases "hdr_magic_ok blob \<and> hdr_crc_ok blob")
    case True
    have des: "Deserialize rs blob bs = Some (Inr (report \<lparr>base = bs, dirty = body_overlay t ?k ?body ?bc\<rparr>
        (named_loss t ?k ?body ?bc) (unnamed_loss t ?k ?body ?bc)))"
      unfolding Deserialize_eq [OF assms(1,4)] using True assms(5,6) applyRecords_eq [OF vb lb(2)] by auto
    have st: "\<not> stray (rec_ok t) ?k (rec_list t ?body ?bc) \<longleftrightarrow>
        (\<forall>r\<in>set recs. t = TierL0 \<or> crc_ok r \<longrightarrow> 0 \<le> rec_idx r \<and> rec_idx r < int (length bs div BlockSize))"
      if "exact_body t ?body ?bc"
    proof -
      have "rec_list t ?body ?bc = recs"
        unfolding assms(8,7) using that tier_size_pos(1) [of t]
        by (auto simp: rec_list_def rec_count_def exact_body_def tier_size_def hdr_count_def split: if_splits)
      then show ?thesis using t01 by (auto simp: stray_def rec_ok_def in_base_def nblocks_def)
    qed
    have "(\<exists>d. Deserialize rs blob bs = Some (Inr (d, None))) \<longleftrightarrow>
        named_loss t ?k ?body ?bc = [] \<and> \<not> unnamed_loss t ?k ?body ?bc"
      unfolding des by (simp add: report_def)
    also have "\<dots> \<longleftrightarrow> exact_body t ?body ?bc \<and> \<not> stray (rec_ok t) ?k (rec_list t ?body ?bc)
        \<and> (t = TierL1 \<longrightarrow> impossible (rec_list t ?body ?bc) = [] \<and> unexplained all_blocks (rec_list t ?body ?bc) = [])"
    proof (cases "t = TierL1")
      case True
      then show ?thesis unfolding True using no_loss_L1 [OF k, of ?body ?bc] by auto
    next
      case False
      then have "skipped_of (rec_ok t) (rec_list t ?body ?bc) = []" by (simp add: skipped_of_def rec_ok_def filter_empty_conv)
      then show ?thesis unfolding no_loss_iff using False by simp
    qed
    finally have des_iff: "(\<exists>d. Deserialize rs blob bs = Some (Inr (d, None))) \<longleftrightarrow> exact_body t ?body ?bc
        \<and> \<not> stray (rec_ok t) ?k (rec_list t ?body ?bc)
        \<and> (t = TierL1 \<longrightarrow> impossible (rec_list t ?body ?bc) = [] \<and> unexplained all_blocks (rec_list t ?body ?bc) = [])" .
    have "Inspect rs blob = Some (info_of blob
      (layout_bad t ?body ?bc @ (if t = TierL1 then impossible (rec_list t ?body ?bc) else []))
      (layout_unattr t ?body ?bc + (if t = TierL1 then length (unexplained all_blocks (rec_list t ?body ?bc)) else 0))
      (\<not> exact_body t ?body ?bc), None)"
      using Inspect_record_tier [OF assms(4) _ _ lb(1) assms(5,6) refl refl] True by blast
    then have "(\<exists>i. Inspect rs blob = Some (i, None) \<and> InfoBadBlocks i = [] \<and> \<not> InfoTruncated i) \<longleftrightarrow>
        exact_body t ?body ?bc
        \<and> (t = TierL1 \<longrightarrow> impossible (rec_list t ?body ?bc) = [] \<and> unexplained all_blocks (rec_list t ?body ?bc) = [])"
      using layout_exact [of t ?body ?bc] by (cases "t = TierL1") (auto simp: clean_info_of [unfolded clean_info_def])
    then show ?thesis using des_iff st by blast
  next
    case False
    have "\<not> (\<exists>d. Deserialize rs blob bs = Some (Inr (d, None)))"
      unfolding Deserialize_eq [OF assms(1,4)]
      using False by (simp add: deserializeHeaderless_eq [OF vb assms(4)] Let_def)
    moreover have "\<not> (\<exists>i. Inspect rs blob = Some (i, None) \<and> InfoBadBlocks i = [] \<and> \<not> InfoTruncated i)"
      unfolding Inspect_eq [OF assms(4)] Let_def
      using False by (auto simp: inspectHeaderless_eq Let_def)
    ultimately show ?thesis by blast
  qed
qed

theorem Inspect_clean_iff_witness:
  "(\<exists>d. Deserialize replica_rs (record_blob True sample_device [0]) sample_base = Some (Inr (d, None))) \<longleftrightarrow>
    (\<exists>i. Inspect replica_rs (record_blob True sample_device [0]) = Some (i, None)
       \<and> InfoBadBlocks i = [] \<and> \<not> InfoTruncated i)
    \<and> (\<forall>r\<in>set (pieces l1RecordSize (unat (le_get (take 8 (drop 6 (record_blob True sample_device [0]))) :: uint64))
           (drop headerSize (record_blob True sample_device [0]))).
         crc_ok r \<longrightarrow> 0 \<le> rec_idx r \<and> rec_idx r < 2)"
proof -
  let ?blob = "record_blob True sample_device [0]"
  have t: "tier_of True = TierL1" "enc_size True = l1RecordSize" by (simp_all add: tier_of_def enc_size_def)
  have l: "headerSize \<le> length ?blob" "int (length ?blob) < 2 ^ 61" "TierL1 = ?blob ! 5"
    using sample_blob(2) [of True, unfolded t]
    by (simp_all add: record_blob_def t header_fields headerSize_def l1RecordSize_def BlockSize_def)
  have b: "length sample_base mod BlockSize = 0" "int (length sample_base) < 2 ^ 63" "int (length sample_base div BlockSize) = 2"
    using sample_base_valid by (simp_all add: valid_base_def nblocks_def)
  have "TierL1 = TierL0 \<or> TierL1 = TierL1" by simp
  from Inspect_clean_iff [OF b(1,2) l(2,1,3) this refl refl, of replica_rs, unfolded b(3)]
  show ?thesis by (simp add: TierL0_def TierL1_def)
qed

end
