(* ===== verification/LossGaps.thy ===== *)
theory LossGaps
  imports TierTheorems
begin

text \<open>
  Losses the report of Deserialize does not show. A blob cut inside a record whose index is
  still readable names that record only; the records behind it are gone as well, their indices
  are unknown, and Truncated stays unset.
\<close>

lemma cut_inside_record:
  assumes "headerSize + q * sz + 8 \<le> n" "n < headerSize + Suc q * sz"
  shows "(n - headerSize) div sz = q" "8 \<le> (n - headerSize) mod sz"
proof -
  let ?m = "n - headerSize"
  have m: "q * sz + 8 \<le> ?m" "?m < sz * Suc q" using assms by (simp_all add: mult.commute)
  show "?m div sz = q" using m by (intro div_nat_eqI) (simp_all add: mult.commute)
  then have "?m = q * sz + ?m mod sz" by (metis div_mult_mod_eq)
  then show "8 \<le> ?m mod sz" using m(1) by linarith
qed

lemma later_keys:
  assumes "distinct ks" "q < length ks" "b \<in> set (drop (Suc q) ks)"
  shows "b \<notin> set (take q ks)"
proof -
  have "distinct (take (Suc q) ks @ drop (Suc q) ks)" using assms(1) by simp
  then have "b \<notin> set (take (Suc q) ks)" using assms(3) unfolding distinct_append by blast
  then show ?thesis by (metis in_set_takeD le_SucI min.absorb1 order_refl take_take)
qed

text \<open>
  C24: a blob cut inside record \<open>q\<close>, behind its index bytes: the report names the block of that
  record and leaves Truncated unset, although every later block of the overlay is lost too.
\<close>

theorem truncation_hides_records:
  assumes "valid_device d" "t = TierL0 \<or> t = TierL1"
    and "SerializeTier rs procs sched hsched d t = Some (Inr blob)" "length blob < 2 ^ 63"
    and sz: "sz = (if t = TierL1 then l1RecordSize else l0RecordSize)"
    and ks: "ks = sorted_list_of_set (Mapping.keys (dirty d))" "Suc q < length ks"
    and n: "headerSize + q * sz + 8 \<le> n" "n < headerSize + Suc q * sz"
  shows "\<exists>d'. Deserialize rs' (take n blob) (base d)
      = Some (Inr (d', Some \<lparr>BadBlocks = [ks ! q], Truncated = False\<rparr>))
    \<and> (\<forall>b\<in>set (drop (Suc q) ks). Mapping.lookup (dirty d) b \<noteq> None \<and> Mapping.lookup (dirty d') b = None)"
proof -
  obtain c where c: "t = tier_of c" "(t = TierL1) = c" using assms(2) by (rule tier_cases)
  note b = record_tier_blob [OF assms(1) assms(3)[unfolded c(1)] assms(4)]
  have sz': "sz = enc_size c" using sz c(2) by (simp add: enc_size_def)
  have k: "ks = sorted_keys d" by (simp add: ks sorted_keys_def)
  note cut = cut_inside_record [OF n]
  have "Suc q * sz \<le> length ks * sz" using ks(2) by (intro mult_le_mono1) simp
  then have len: "headerSize \<le> n" "n < length blob"
    using n length_record_blob [OF assms(1), of "sorted_keys d" c] b(1,4) by (simp_all add: sz' k)
  have "Deserialize rs' (take n blob) (base d) = Some (Inr (d\<lparr>dirty := restrict_overlay (dirty d) (set (take q ks))\<rparr>,
      Some \<lparr>BadBlocks = [ks ! q], Truncated = False\<rparr>))"
    using truncated_blob_decodes [OF b(2,3) len(1) _ cut(1)[symmetric, unfolded sz'] refl, of rs'] len(2) cut(2)
    by (simp add: b(1) k sz')
  moreover have "Mapping.lookup (dirty d) x \<noteq> None \<and> Mapping.lookup (restrict_overlay (dirty d) (set (take q ks))) x = None"
    if "x \<in> set (drop (Suc q) ks)" for x
    using later_keys [OF b(3) _ that[unfolded k]] ks(2) in_set_dropD [OF that] b(4)
    by (simp add: k lookup_restrict_overlay keys_dom_lookup domIff)
  ultimately show ?thesis by (intro exI conjI) auto
qed

definition two_blocks :: device where
  "two_blocks = sample_device\<lparr>dirty := Mapping.update 1 sample_block (dirty sample_device)\<rparr>"

lemma two_blocks_facts:
  "valid_device two_blocks" "Mapping.keys (dirty two_blocks) = {0, 1}" "base two_blocks = sample_base"
proof -
  show "valid_device two_blocks"
    using sample_device_valid sample_base_valid(2)
    by (auto simp: two_blocks_def valid_device_def intro!: valid_overlay_update)
  show "Mapping.keys (dirty two_blocks) = {0, 1}" "base two_blocks = sample_base"
    by (auto simp: two_blocks_def)
qed

theorem truncation_hides_records_witness:
  "\<exists>blob d'. SerializeTier replica_rs 4 [] [] two_blocks TierL1 = Some (Inr blob)
    \<and> Deserialize replica_rs (take (headerSize + 8) blob) sample_base
        = Some (Inr (d', Some \<lparr>BadBlocks = [0], Truncated = False\<rparr>))
    \<and> Mapping.lookup (dirty two_blocks) 1 \<noteq> None \<and> Mapping.lookup (dirty d') 1 = None"
proof -
  have ks: "[0, 1] = sorted_list_of_set (Mapping.keys (dirty two_blocks))" by (simp add: two_blocks_facts)
  have t: "tier_of True = TierL1" by (simp add: tier_of_def)
  note s = SerializeTier_record_blob [OF two_blocks_facts(1), of replica_rs 4 "[]" "[]" True, unfolded t]
  have "length (record_blob True two_blocks (sorted_keys two_blocks)) = headerSize + 2 * l1RecordSize"
    using length_record_blob [OF two_blocks_facts(1), of "sorted_keys two_blocks" True] two_blocks_facts(2)
      sorted_keys_facts(1,4) [OF two_blocks_facts(1)] by (simp add: enc_size_True)
  then have len: "length (record_blob True two_blocks (sorted_keys two_blocks)) < 2 ^ 63"
    by (simp add: headerSize_def l1RecordSize_def BlockSize_def)
  have "TierL1 = TierL0 \<or> TierL1 = TierL1" "Suc 0 < length [0, 1 :: int]"
    "headerSize + 0 * l1RecordSize + 8 \<le> headerSize + 8" "headerSize + 8 < headerSize + Suc 0 * l1RecordSize"
    by (simp_all add: l1RecordSize_def)
  from truncation_hides_records [OF two_blocks_facts(1) this(1) s len refl ks this(2), of "headerSize + 8" replica_rs] this(3,4)
  show ?thesis using s by (auto simp: two_blocks_facts(3))
qed

end
