(* ===== verification/Lifecycle.thy ===== *)
theory Lifecycle
  imports Tiers Totality
begin

text \<open>
  The states of a Device that clients of the package can reach: through New and Deserialize, and
  from there by any sequence of WriteAt. Every one is well-formed, so no later call panics.
\<close>

inductive reachable :: "rs_lib \<Rightarrow> device \<Rightarrow> bool" for rs where
  fresh: "New bs = Some d \<Longrightarrow> int (length bs) < 2 ^ 63 \<Longrightarrow> reachable rs d"
| decoded: "Deserialize rs blob bs = Some (Inr (d, rep)) \<Longrightarrow> int (length blob) < 2 ^ 61 \<Longrightarrow> int (length bs) < 2 ^ 63
    \<Longrightarrow> reachable rs d"
| written: "reachable rs d \<Longrightarrow> WriteAt d p off = Some (d', n, e) \<Longrightarrow> reachable rs d'"

lemma WriteAt_returns:
  assumes "valid_device d"
  shows "\<exists>d' n e. WriteAt d p off = Some (d', n, e) \<and> valid_device d'"
  using cow.wr_total [OF assms] by blast

lemma reachable_valid:
  assumes "reachable rs d" "rs_shape rs"
  shows "valid_device d"
  using assms(1)
proof induction
  case (fresh bs d)
  then have "length bs mod BlockSize = 0" "d = \<lparr>base = bs, dirty = Mapping.empty\<rparr>"
    by (auto simp: New_def split: if_splits)
  then show ?case using fresh by (simp add: valid_device_fresh valid_base_def)
next
  case (decoded blob bs d rep)
  then show ?case using Deserialize_sound [OF assms(2) decoded(2,3)] decoded(1) by (simp add: sound_result_def)
next
  case (written d p off d' n e)
  then show ?case using WriteAt_returns [OF written.IH, of p off] written.hyps(2) by simp
qed

text \<open>
  C5: type safety of the API. Every device a client can reach has an overlay of whole blocks inside an
  aligned base and presents an image of the base's length. On it no method panics: WriteAt returns
  a device of the same kind over the same base, ReadAt and the record tiers return, and so do
  SerializeRS, for every two int64 arguments, and SerializeTier at L2, as long as the size of the
  payload is an int64. Any blob put on its base decodes or is refused.
\<close>

theorem reachable_safe:
  assumes "reachable rs d" "rs_shape rs"
  shows "length (base d) mod BlockSize = 0
    \<and> (\<forall>i b. Mapping.lookup (dirty d) i = Some b \<longrightarrow>
         0 \<le> i \<and> i < int (length (base d) div BlockSize) \<and> length b = BlockSize)
    \<and> length (disk_image d) = length (base d)
    \<and> (\<forall>p off. ReadAt d p off \<noteq> None)
    \<and> (\<forall>p off. \<exists>d' n e. WriteAt d p off = Some (d', n, e) \<and> reachable rs d' \<and> base d' = base d)
    \<and> (\<forall>procs sched hsched t. t \<noteq> TierL2 \<longrightarrow> SerializeTier rs procs sched hsched d t \<noteq> None)
    \<and> (card (Mapping.keys (dirty d)) * l1RecordSize < 2 ^ 63 \<longrightarrow> (\<forall>procs sched hsched.
         SerializeTier rs procs sched hsched d TierL2 \<noteq> None
         \<and> (\<forall>dn dk. in_i64 dn \<and> in_i64 dk \<longrightarrow> SerializeRS rs procs sched hsched d dn dk \<noteq> None)))
    \<and> (\<forall>blob. int (length blob) < 2 ^ 61 \<longrightarrow> Deserialize rs blob (base d) \<noteq> None)"
proof -
  have v: "valid_device d" by (rule reachable_valid [OF assms])
  have w: "\<exists>d' n e. WriteAt d p off = Some (d', n, e) \<and> reachable rs d' \<and> base d' = base d" for p off
    using WriteAt_returns [OF v, of p off] WriteAt_base [OF v] reachable.written [OF assms(1)] by blast
  have s: "SerializeTier rs procs sched hsched d t \<noteq> None"
    if "t = TierL2 \<longrightarrow> length (payload_of d) < 2 ^ 63" for procs sched hsched t
    using SerializeTier_returns [OF v assms(2) that] by (metis option.distinct(1))
  have r: "SerializeRS rs procs sched hsched d dn dk \<noteq> None"
    if "length (payload_of d) < 2 ^ 63" "in_i64 dn \<and> in_i64 dk" for procs sched hsched dn dk
    using SerializeRS_returns [OF v assms(2) that(1)] that(2) by (metis option.distinct(1))
  have b: "int (length (base d)) < 2 ^ 63" using v by (simp add: valid_device_def valid_base_def)
  have des: "Deserialize rs blob (base d) \<noteq> None" if "int (length blob) < 2 ^ 61" for blob
    using Deserialize_sound [OF assms(2) that b] by auto
  show ?thesis
    using v disk_image_length [OF v] cow.rd_total [OF v] w s r des payload_of_length [OF v]
    by (simp add: valid_device_def valid_base_def valid_overlay_def nblocks_def)
qed

theorem reachable_safe_witness:
  "\<exists>d' n e. WriteAt \<lparr>base = sample_base, dirty = Mapping.empty\<rparr> sample_block 0 = Some (d', n, e)
    \<and> reachable replica_rs d'"
proof -
  have "New sample_base = Some \<lparr>base = sample_base, dirty = Mapping.empty\<rparr>" "int (length sample_base) < 2 ^ 63"
    using sample_base_valid(1) by (simp_all add: New_valid valid_base_def)
  from reachable_safe [OF reachable.fresh [OF this] replica_shape] show ?thesis by blast
qed

end
