(* ===== verification/Args.thy ===== *)
theory Args
  imports Prelude "HOL-Library.Multiset"
begin

text \<open>
  The command line of src/cmd/bdev: parseArgs of io.go, over the parts of Go's flag and strconv
  packages it relies on. A FlagSet is the association list of its flags and their current
  values; the flag sets of the program have string and integer flags and no boolean ones.
\<close>

section \<open>Integers as flag values: strconv.ParseInt(s, 0, 64)\<close>

definition digit_val :: "char \<Rightarrow> nat option" where
  "digit_val c =
     (let n = of_char c :: nat in
      if 48 \<le> n \<and> n \<le> 57 then Some (n - 48)
      else if 97 \<le> n \<and> n \<le> 122 then Some (n - 87)
      else if 65 \<le> n \<and> n \<le> 90 then Some (n - 55)
      else None)"

text \<open>\<open>ok\<close>: an underscore is allowed here, and the number may end here.\<close>

fun digits :: "nat \<Rightarrow> bool \<Rightarrow> nat \<Rightarrow> string \<Rightarrow> nat option" where
  "digits b ok acc [] = (if ok then Some acc else None)"
| "digits b ok acc (c # cs) =
     (if c = CHR ''_'' then (if ok then digits b False acc cs else None)
      else case digit_val c of
          None \<Rightarrow> None
        | Some v \<Rightarrow> if b \<le> v then None else digits b True (acc * b + v) cs)"

definition parseUint0 :: "string \<Rightarrow> nat option" where
  "parseUint0 s =
     (case s of
        [] \<Rightarrow> None
      | c # cs \<Rightarrow>
          if c \<noteq> CHR ''0'' then digits 10 False 0 s
          else if 3 \<le> length s \<and> hd cs \<in> set ''bB'' then digits 2 True 0 (tl cs)
          else if 3 \<le> length s \<and> hd cs \<in> set ''oO'' then digits 8 True 0 (tl cs)
          else if 3 \<le> length s \<and> hd cs \<in> set ''xX'' then digits 16 True 0 (tl cs)
          else digits 8 True 0 cs)"

definition parseInt :: "string \<Rightarrow> int option" where
  "parseInt s =
     (let neg = (s \<noteq> [] \<and> hd s = CHR ''-'');
          s = (if s \<noteq> [] \<and> (hd s = CHR ''-'' \<or> hd s = CHR ''+'') then tl s else s)
      in case parseUint0 s of
          None \<Rightarrow> None
        | Some n \<Rightarrow>
            if neg then (if int n \<le> 2 ^ 63 then Some (- int n) else None)
            else (if int n < 2 ^ 63 then Some (int n) else None))"

section \<open>Flag sets\<close>

datatype fval = StrV string | IntV int

type_synonym flag_set = "(string \<times> fval) list"

datatype flag_error =
    ErrHelp
  | BadSyntax string
  | NotDefined string
  | NeedsArgument string
  | InvalidValue string string

definition setFlag :: "flag_set \<Rightarrow> string \<Rightarrow> fval \<Rightarrow> flag_set" where
  "setFlag fs name v = map (\<lambda>(n, x). if n = name then (n, v) else (n, x)) fs"

text \<open>Value.Set for the two kinds of flags.\<close>

definition parseValue :: "fval \<Rightarrow> string \<Rightarrow> fval option" where
  "parseValue k s = (case k of StrV _ \<Rightarrow> Some (StrV s) | IntV _ \<Rightarrow> map_option IntV (parseInt s))"

text \<open>
  FlagSet.Parse: one flag per pass, until the tokens end, the first token that is not a flag, or
  the terminator; the tokens left over are FlagSet.Args(). With \<open>ContinueOnError\<close> the first
  error is returned.
\<close>

definition dashes :: "string \<Rightarrow> nat" where
  "dashes s = (if s ! 1 = CHR ''-'' then 2 else 1)"

definition splitEq :: "string \<Rightarrow> string \<times> string option" where
  "splitEq s =
     (let n = takeWhile (\<lambda>c. c \<noteq> CHR ''='') s in
      (n, if n = s then None else Some (drop (Suc (length n)) s)))"

fun flagParse :: "flag_set \<Rightarrow> string list \<Rightarrow> flag_error + flag_set \<times> string list" where
  "flagParse fs [] = Inr (fs, [])"
| "flagParse fs (s # rest) =
     (if length s < 2 \<or> hd s \<noteq> CHR ''-'' then Inr (fs, s # rest)
      else if s = ''--'' then Inr (fs, rest)
      else (let body = drop (dashes s) s in
        if body = [] \<or> hd body = CHR ''-'' \<or> hd body = CHR ''='' then Inl (BadSyntax s)
        else (case splitEq body of (name, attached) \<Rightarrow>
          (case map_of fs name of
             None \<Rightarrow> if name = ''help'' \<or> name = ''h'' then Inl ErrHelp else Inl (NotDefined name)
           | Some k \<Rightarrow>
               (case attached of
                  Some v \<Rightarrow> (case parseValue k v of
                      None \<Rightarrow> Inl (InvalidValue v name)
                    | Some x \<Rightarrow> flagParse (setFlag fs name x) rest)
                | None \<Rightarrow> (case rest of
                      [] \<Rightarrow> Inl (NeedsArgument name)
                    | v # rest' \<Rightarrow> (case parseValue k v of
                        None \<Rightarrow> Inl (InvalidValue v name)
                      | Some x \<Rightarrow> flagParse (setFlag fs name x) rest')))))))"

section \<open>parseArgs\<close>

text \<open>
  The loop over the arguments: flag tokens with their values, and positionals. A flag that is
  looked up here takes a value (no flag of the program is boolean).
\<close>

fun partitionArgs :: "flag_set \<Rightarrow> string list \<Rightarrow> string list \<times> string list" where
  "partitionArgs fs [] = ([], [])"
| "partitionArgs fs (a # rest) =
     (if a = ''--'' then ([], rest)
      else if length a < 2 \<or> hd a \<noteq> CHR ''-'' then
        (let (flags, pos) = partitionArgs fs rest in (flags, a # pos))
      else (let name = dropWhile (\<lambda>c. c = CHR ''-'') a in
        if CHR ''='' \<in> set name \<or> map_of fs name = None then
          (let (flags, pos) = partitionArgs fs rest in (a # flags, pos))
        else (case rest of
            [] \<Rightarrow> ([a], [])
          | v # rest' \<Rightarrow> (let (flags, pos) = partitionArgs fs rest' in (a # v # flags, pos)))))"

datatype args_result =
    Parsed flag_set "string list"
  | Help
  | Usage flag_error
  | Surplus "string list"
  | Missing

definition parseArgs :: "flag_set \<Rightarrow> string list \<Rightarrow> nat \<Rightarrow> args_result" where
  "parseArgs fs args want =
     (case partitionArgs fs args of (flags, pos) \<Rightarrow>
        (case flagParse fs flags of
           Inl e \<Rightarrow> if e = ErrHelp then Help else Usage e
         | Inr (fs', _) \<Rightarrow>
             if want < length pos then Surplus (drop want pos)
             else if length pos \<noteq> want then Missing
             else Parsed fs' pos))"

section \<open>Every token is used once\<close>

lemma partition_append_plain:
  assumes "\<forall>a\<in>set pos. length a < 2 \<or> hd a \<noteq> CHR ''-''"
  shows "partitionArgs fs (pos @ rest) = (fst (partitionArgs fs rest), pos @ snd (partitionArgs fs rest))"
  using assms
proof (induction pos)
  case (Cons a pos)
  then have "a \<noteq> ''--''" by auto
  then show ?case using Cons by (auto simp: case_prod_unfold Let_def)
qed simp

text \<open>Value flags in their two-token form.\<close>

fun pair_tokens :: "(string \<times> string) list \<Rightarrow> string list" where
  "pair_tokens [] = []"
| "pair_tokens ((n, v) # ps) = (CHR ''-'' # n) # v # pair_tokens ps"

definition flag_name :: "flag_set \<Rightarrow> string \<Rightarrow> bool" where
  "flag_name fs n \<longleftrightarrow> n \<noteq> [] \<and> hd n \<noteq> CHR ''-'' \<and> CHR ''='' \<notin> set n \<and> map_of fs n \<noteq> None"

lemma flag_name_dash:
  assumes "flag_name fs n"
  shows "dropWhile (\<lambda>c. c = CHR ''-'') (CHR ''-'' # n) = n" "2 \<le> length (CHR ''-'' # n)" "CHR ''-'' # n \<noteq> ''--''"
proof -
  obtain c cs where n: "n = c # cs" "c \<noteq> CHR ''-''" using assms by (cases n) (auto simp: flag_name_def)
  show "dropWhile (\<lambda>c. c = CHR ''-'') (CHR ''-'' # n) = n" "2 \<le> length (CHR ''-'' # n)" "CHR ''-'' # n \<noteq> ''--''"
    using n by simp_all
qed

lemma partition_flag:
  assumes "flag_name fs n"
  shows "partitionArgs fs ((CHR ''-'' # n) # v # rest)
    = ((CHR ''-'' # n) # v # fst (partitionArgs fs rest), snd (partitionArgs fs rest))"
proof -
  note d = flag_name_dash [OF assms]
  have l: "\<not> (length (CHR ''-'' # n) < 2 \<or> hd (CHR ''-'' # n) \<noteq> CHR ''-'')"
    using assms by (cases n) (simp_all add: flag_name_def)
  have m: "\<not> (CHR ''='' \<in> set n \<or> map_of fs n = None)" using assms by (simp add: flag_name_def)
  show ?thesis
    unfolding partitionArgs.simps(2) [of fs "CHR ''-'' # n"] if_not_P [OF d(3)] if_not_P [OF l] Let_def d(1) if_not_P [OF m]
    by (simp add: case_prod_unfold)
qed

lemma partition_pairs:
  assumes "\<forall>(n, v)\<in>set ps. flag_name fs n"
  shows "partitionArgs fs (pair_tokens ps @ rest)
    = (pair_tokens ps @ fst (partitionArgs fs rest), snd (partitionArgs fs rest))"
  using assms
proof (induction ps)
  case (Cons p ps)
  obtain n v where p: "p = (n, v)" by (cases p)
  then have n: "flag_name fs n" using Cons.prems by simp
  have "partitionArgs fs (pair_tokens ps @ rest)
    = (pair_tokens ps @ fst (partitionArgs fs rest), snd (partitionArgs fs rest))"
    using Cons by simp
  then show ?case by (simp only: p pair_tokens.simps append_Cons partition_flag [OF n] fst_conv snd_conv)
qed simp

text \<open>
  Flags before, after or around the positionals, and a terminator in front of positionals, give
  the same partition.
\<close>

definition plain :: "string \<Rightarrow> bool" where
  "plain a \<longleftrightarrow> length a < 2 \<or> hd a \<noteq> CHR ''-''"

lemma partition_plain:
  assumes "list_all plain pos"
  shows "partitionArgs fs (pos @ rest) = (fst (partitionArgs fs rest), pos @ snd (partitionArgs fs rest))"
  using assms by (intro partition_append_plain) (auto simp: list_all_iff plain_def)

text \<open>FlagSet.Parse reads all of a list of well-formed pairs: the last value of a flag wins.\<close>

fun set_all :: "flag_set \<Rightarrow> (string \<times> string) list \<Rightarrow> flag_set option" where
  "set_all fs [] = Some fs"
| "set_all fs ((n, v) # ps) =
     (case parseValue (the (map_of fs n)) v of None \<Rightarrow> None | Some x \<Rightarrow> set_all (setFlag fs n x) ps)"

lemma map_of_setFlag: "map_of (setFlag fs n x) m = (if m = n then map_option (\<lambda>_. x) (map_of fs n) else map_of fs m)"
  by (induction fs) (auto simp: setFlag_def)

lemma flag_name_setFlag: "flag_name fs m \<Longrightarrow> flag_name (setFlag fs n x) m"
  by (auto simp: flag_name_def map_of_setFlag)

lemma flagParse_pair:
  assumes "flag_name fs n"
  shows "flagParse fs ((CHR ''-'' # n) # v # rest) =
    (case parseValue (the (map_of fs n)) v of
       None \<Rightarrow> Inl (InvalidValue v n) | Some x \<Rightarrow> flagParse (setFlag fs n x) rest)"
proof -
  obtain c cs where n: "n = c # cs" "c \<noteq> CHR ''-''" using assms by (cases n) (auto simp: flag_name_def)
  obtain k where k: "map_of fs n = Some k" using assms by (auto simp: flag_name_def)
  have eq: "CHR ''='' \<notin> set n" using assms by (simp add: flag_name_def)
  then have sp: "splitEq n = (n, None)" by (auto simp: splitEq_def Let_def takeWhile_eq_all_conv)
  have dr: "drop (dashes (CHR ''-'' # n)) (CHR ''-'' # n) = n" using n by (simp add: dashes_def)
  have c: "\<not> (length (CHR ''-'' # n) < 2 \<or> hd (CHR ''-'' # n) \<noteq> CHR ''-'')" "CHR ''-'' # n \<noteq> ''--''"
    "\<not> (n = [] \<or> hd n = CHR ''-'' \<or> hd n = CHR ''='')"
    using n eq by auto
  show ?thesis
    unfolding flagParse.simps(2) [of fs "CHR ''-'' # n"] if_not_P [OF c(1)] if_not_P [OF c(2)] Let_def dr
      if_not_P [OF c(3)] sp prod.case k
    by simp
qed

lemma flagParse_pairs:
  "\<forall>(n, v)\<in>set ps. flag_name fs n \<Longrightarrow> set_all fs ps = Some fs' \<Longrightarrow> flagParse fs (pair_tokens ps) = Inr (fs', [])"
proof (induction ps arbitrary: fs)
  case (Cons p ps)
  obtain n v where p: "p = (n, v)" by (cases p)
  then have n: "flag_name fs n" using Cons.prems(1) by simp
  from Cons.prems(2) obtain x where x: "parseValue (the (map_of fs n)) v = Some x" "set_all (setFlag fs n x) ps = Some fs'"
    by (auto simp: p split: option.splits)
  have "flagParse (setFlag fs n x) (pair_tokens ps) = Inr (fs', [])"
    using Cons.prems(1) by (intro Cons.IH x(2)) (auto intro: flag_name_setFlag)
  then show ?case by (simp only: p pair_tokens.simps flagParse_pair [OF n] x option.case)
qed simp

section \<open>No token is dropped\<close>

text \<open>
  What FlagSet.Parse is handed never makes it stop early: it reads every flag token or fails, so
  a flag is never silently ignored. Setting a flag does not change which names are known.
\<close>

lemma trimmed_body:
  assumes "2 \<le> length a" "hd a = CHR ''-''" "a \<noteq> ''--''"
    and "drop (dashes a) a \<noteq> []" "hd (drop (dashes a) a) \<noteq> CHR ''-''"
  shows "dropWhile (\<lambda>c. c = CHR ''-'') a = drop (dashes a) a"
proof -
  obtain c d cs where a: "a = c # d # cs" using assms(1) by (cases a rule: remdups_adj.cases) auto
  then have c: "c = CHR ''-''" using assms(2) by simp
  show ?thesis
  proof (cases "d = CHR ''-''")
    case True
    then obtain e es where "cs = e # es" "e \<noteq> CHR ''-''"
      using assms(4,5) a c by (cases cs) (auto simp: dashes_def)
    then show ?thesis using a c True by (simp add: dashes_def)
  next
    case False
    then show ?thesis using a c by (simp add: dashes_def)
  qed
qed

lemma splitEq_eq:
  "splitEq s = (if CHR ''='' \<in> set s
     then (takeWhile (\<lambda>c. c \<noteq> CHR ''='') s, Some (drop (Suc (length (takeWhile (\<lambda>c. c \<noteq> CHR ''='') s))) s))
     else (s, None))"
proof -
  have "takeWhile (\<lambda>c. c \<noteq> CHR ''='') s = s \<longleftrightarrow> CHR ''='' \<notin> set s"
    unfolding takeWhile_eq_all_conv by blast
  note tw = this
  show ?thesis
  proof (cases "CHR ''='' \<in> set s")
    case True
    then have "takeWhile (\<lambda>c. c \<noteq> CHR ''='') s \<noteq> s" using tw by blast
    then show ?thesis unfolding splitEq_def Let_def if_P [OF True] by (simp only: if_False)
  next
    case False
    then have "takeWhile (\<lambda>c. c \<noteq> CHR ''='') s = s" using tw by blast
    then show ?thesis unfolding splitEq_def Let_def if_not_P [OF False] by (simp only: refl if_True)
  qed
qed

lemma splitEq_None: "splitEq s = (n, None) \<Longrightarrow> n = s \<and> CHR ''='' \<notin> set s"
  unfolding splitEq_eq by (cases "CHR ''='' \<in> set s") simp_all

lemma splitEq_Some: "splitEq s = (n, Some v) \<Longrightarrow> CHR ''='' \<in> set s"
  unfolding splitEq_eq by (cases "CHR ''='' \<in> set s") simp_all

definition same_names :: "flag_set \<Rightarrow> flag_set \<Rightarrow> bool" where
  "same_names fs gs \<longleftrightarrow> (\<forall>n. map_of fs n = None \<longleftrightarrow> map_of gs n = None)"

lemma same_names_setFlag: "same_names fs gs \<Longrightarrow> same_names fs (setFlag gs n x)"
  by (auto simp: same_names_def map_of_setFlag)

lemma partition_steps:
  "partitionArgs fs (''--'' # rest) = ([], rest)"
  "plain a \<Longrightarrow> a \<noteq> ''--'' \<Longrightarrow> partitionArgs fs (a # rest) = (fst (partitionArgs fs rest), a # snd (partitionArgs fs rest))"
  "\<not> plain a \<Longrightarrow> a \<noteq> ''--'' \<Longrightarrow> CHR ''='' \<in> set (dropWhile (\<lambda>c. c = CHR ''-'') a) \<or> map_of fs (dropWhile (\<lambda>c. c = CHR ''-'') a) = None
     \<Longrightarrow> partitionArgs fs (a # rest) = (a # fst (partitionArgs fs rest), snd (partitionArgs fs rest))"
  "\<not> plain a \<Longrightarrow> a \<noteq> ''--'' \<Longrightarrow> \<not> (CHR ''='' \<in> set (dropWhile (\<lambda>c. c = CHR ''-'') a) \<or> map_of fs (dropWhile (\<lambda>c. c = CHR ''-'') a) = None)
     \<Longrightarrow> partitionArgs fs (a # v # rest) = (a # v # fst (partitionArgs fs rest), snd (partitionArgs fs rest))"
  "\<not> plain a \<Longrightarrow> a \<noteq> ''--'' \<Longrightarrow> \<not> (CHR ''='' \<in> set (dropWhile (\<lambda>c. c = CHR ''-'') a) \<or> map_of fs (dropWhile (\<lambda>c. c = CHR ''-'') a) = None)
     \<Longrightarrow> partitionArgs fs [a] = ([a], [])"
  unfolding partitionArgs.simps(2) plain_def by (simp_all only: refl if_True if_False Let_def list.case case_prod_unfold)

declare partitionArgs.simps(2) [simp del] flagParse.simps(2) [simp del]

text \<open>One pass of FlagSet.Parse on a flag token: it fails, or goes on behind the flag and its value.\<close>

lemma flagParse_step:
  assumes "\<not> plain a" "a \<noteq> ''--''" "flagParse gs (a # toks) = Inr (gs', left)"
  shows "drop (dashes a) a = dropWhile (\<lambda>c. c = CHR ''-'') a
    \<and> map_of gs (fst (splitEq (drop (dashes a) a))) \<noteq> None
    \<and> (\<exists>x. CHR ''='' \<in> set (drop (dashes a) a) \<and> flagParse (setFlag gs (fst (splitEq (drop (dashes a) a))) x) toks = Inr (gs', left)
       \<or> CHR ''='' \<notin> set (drop (dashes a) a) \<and> fst (splitEq (drop (dashes a) a)) = drop (dashes a) a
          \<and> (\<exists>v rest. toks = v # rest \<and> flagParse (setFlag gs (drop (dashes a) a) x) rest = Inr (gs', left)))"
proof -
  let ?body = "drop (dashes a) a"
  have np: "\<not> (length a < 2 \<or> hd a \<noteq> CHR ''-'')" using assms(1) by (simp add: plain_def)
  have ok: "\<not> (?body = [] \<or> hd ?body = CHR ''-'' \<or> hd ?body = CHR ''='')"
  proof
    assume "?body = [] \<or> hd ?body = CHR ''-'' \<or> hd ?body = CHR ''=''"
    then have "flagParse gs (a # toks) = Inl (BadSyntax a)"
      unfolding flagParse.simps(2) if_not_P [OF np] if_not_P [OF assms(2)] Let_def by (rule if_P)
    then show False using assms(3) by simp
  qed
  have body: "?body = dropWhile (\<lambda>c. c = CHR ''-'') a"
    using trimmed_body [of a] np ok assms(2) by simp
  obtain n att where sp: "splitEq ?body = (n, att)" by (cases "splitEq ?body")
  note eq = assms(3)[unfolded flagParse.simps(2) if_not_P [OF np] if_not_P [OF assms(2)] Let_def if_not_P [OF ok] sp prod.case]
  obtain k where k: "map_of gs n = Some k" using eq by (cases "map_of gs n") (auto split: if_splits)
  show ?thesis
  proof (cases att)
    case (Some v)
    then have "CHR ''='' \<in> set ?body" using splitEq_Some sp by blast
    moreover obtain x where "flagParse (setFlag gs n x) toks = Inr (gs', left)"
      using eq k Some by (auto split: option.splits)
    ultimately show ?thesis using body k sp by auto
  next
    case None
    then have n: "n = ?body" "CHR ''='' \<notin> set ?body" using splitEq_None sp by blast+
    moreover obtain v rest x where "toks = v # rest" "flagParse (setFlag gs n x) rest = Inr (gs', left)"
      using eq k None by (auto split: option.splits list.splits)
    ultimately show ?thesis using body k sp by auto
  qed
qed

lemma flagParse_reads_all:
  "same_names fs gs \<Longrightarrow> flagParse gs (fst (partitionArgs fs args)) = Inr (gs', left) \<Longrightarrow> left = []"
proof (induction args arbitrary: gs rule: length_induct)
  case (1 args)
  show ?case
  proof (cases args)
    case Nil
    then show ?thesis using 1(3) by simp
  next
    case (Cons a rest)
    have IH: "left = []" if "length r < length args" "same_names fs hs" "flagParse hs (fst (partitionArgs fs r)) = Inr (gs', left)" for r hs
      using 1(1) that by blast
    consider "a = ''--''" | "a \<noteq> ''--''" "plain a" | "a \<noteq> ''--''" "\<not> plain a" by blast
    then show ?thesis
    proof cases
      case 1
      then show ?thesis using \<open>flagParse gs _ = _\<close> Cons by (simp add: partition_steps)
    next
      case 2
      then show ?thesis using IH [of rest gs] 1(2,3) Cons by (simp add: partition_steps)
    next
      case 3
      let ?name = "dropWhile (\<lambda>c. c = CHR ''-'') a"
      show ?thesis
      proof (cases "CHR ''='' \<in> set ?name \<or> map_of fs ?name = None")
        case True
        have p: "flagParse gs (a # fst (partitionArgs fs rest)) = Inr (gs', left)"
          using 1(3) Cons partition_steps(3) [OF 3(2,1) True] by simp
        note st = flagParse_step [OF 3(2,1) p]
        have "CHR ''='' \<in> set ?name"
        proof (rule ccontr)
          assume "CHR ''='' \<notin> set ?name"
          then have "map_of fs ?name = None" "map_of gs ?name \<noteq> None" using True st by auto
          then show False using 1(2) by (simp add: same_names_def)
        qed
        then obtain x where "flagParse (setFlag gs (fst (splitEq ?name)) x) (fst (partitionArgs fs rest)) = Inr (gs', left)"
          using st by auto
        then show ?thesis using IH [of rest, OF _ same_names_setFlag [OF 1(2)]] Cons by simp
      next
        case False
        show ?thesis
        proof (cases rest)
          case Nil
          have p: "flagParse gs [a] = Inr (gs', left)"
            using 1(3) Cons Nil partition_steps(5) [OF 3(2,1) False] by simp
          show ?thesis using flagParse_step [OF 3(2,1) p] False by auto
        next
          case (Cons v rest')
          have p: "flagParse gs (a # v # fst (partitionArgs fs rest')) = Inr (gs', left)"
            using 1(3) \<open>args = a # rest\<close> Cons partition_steps(4) [OF 3(2,1) False] by simp
          then obtain x where "flagParse (setFlag gs ?name x) (fst (partitionArgs fs rest')) = Inr (gs', left)"
            using flagParse_step [OF 3(2,1) p] False by auto
          then show ?thesis using IH [of rest', OF _ same_names_setFlag [OF 1(2)]] \<open>args = a # rest\<close> Cons by simp
        qed
      qed
    qed
  qed
qed

lemma partition_tokens:
  "\<exists>t. mset (fst (partitionArgs fs args)) + mset (snd (partitionArgs fs args)) + t = mset args \<and> (t = {#} \<or> t = {#''--''#})"
proof (induction args rule: length_induct)
  case (1 args)
  show ?case
  proof (cases args)
    case Nil
    then show ?thesis by simp
  next
    case (Cons a rest)
    have IH: "\<exists>t. mset (fst (partitionArgs fs r)) + mset (snd (partitionArgs fs r)) + t = mset r \<and> (t = {#} \<or> t = {#''--''#})"
      if "length r < length args" for r
      using 1 that by blast
    consider "a = ''--''" | "a \<noteq> ''--''" "plain a" | "a \<noteq> ''--''" "\<not> plain a" by blast
    then show ?thesis
    proof cases
      case 1
      then show ?thesis using Cons by (simp add: partition_steps)
    next
      case 2
      then show ?thesis using IH [of rest] Cons by (auto simp: partition_steps)
    next
      case 3
      let ?name = "dropWhile (\<lambda>c. c = CHR ''-'') a"
      show ?thesis
      proof (cases "CHR ''='' \<in> set ?name \<or> map_of fs ?name = None")
        case True
        then show ?thesis using IH [of rest] Cons by (auto simp: partition_steps(3) [OF 3(2,1)])
      next
        case False
        show ?thesis
        proof (cases rest)
          case Nil
          then show ?thesis using Cons by (simp add: partition_steps(5) [OF 3(2,1) False])
        next
          case (Cons v rest')
          then show ?thesis using IH [of rest'] \<open>args = a # rest\<close> by (auto simp: partition_steps(4) [OF 3(2,1) False])
        qed
      qed
    qed
  qed
qed

section \<open>Properties\<close>

text \<open>
  C34: flags may stand before, between or after the positionals, with the same result; behind the
  terminator everything is positional, flag-looking or not.
\<close>

theorem flags_anywhere:
  assumes "\<forall>(n, v)\<in>set (ps1 @ ps2). n \<noteq> [] \<and> hd n \<noteq> CHR ''-'' \<and> CHR ''='' \<notin> set n \<and> map_of fs n \<noteq> None"
    and "set_all fs (ps1 @ ps2) = Some fs'"
    and "\<forall>a\<in>set (pos1 @ pos2 @ pos3). length a < 2 \<or> hd a \<noteq> CHR ''-''"
    and "tail = [] \<or> tail = ''--'' # pos4"
    and "pos = pos1 @ pos2 @ pos3 @ (if tail = [] then [] else pos4)"
  shows "parseArgs fs (pos1 @ pair_tokens ps1 @ pos2 @ pair_tokens ps2 @ pos3 @ tail) want =
    (if want < length pos then Surplus (drop want pos) else if length pos \<noteq> want then Missing else Parsed fs' pos)"
proof -
  have pl: "\<forall>a\<in>set pos1. length a < 2 \<or> hd a \<noteq> CHR ''-''" "\<forall>a\<in>set pos2. length a < 2 \<or> hd a \<noteq> CHR ''-''"
    "\<forall>a\<in>set pos3. length a < 2 \<or> hd a \<noteq> CHR ''-''"
    using assms(3) by simp_all
  have fl: "\<forall>(n, v)\<in>set (ps1 @ ps2). flag_name fs n" "\<forall>(n, v)\<in>set ps1. flag_name fs n" "\<forall>(n, v)\<in>set ps2. flag_name fs n"
    using assms(1) by (auto simp: flag_name_def)
  have tl: "partitionArgs fs tail = ([], if tail = [] then [] else pos4)"
    using assms(4) by (auto simp: partition_steps)
  have pt: "pair_tokens ps1 @ pair_tokens ps2 = pair_tokens (ps1 @ ps2)"
    by (induction ps1 rule: pair_tokens.induct) simp_all
  have "partitionArgs fs (pos1 @ pair_tokens ps1 @ pos2 @ pair_tokens ps2 @ pos3 @ tail) = (pair_tokens (ps1 @ ps2), pos)"
    by (simp only: partition_append_plain [OF pl(1)] partition_append_plain [OF pl(2)] partition_append_plain [OF pl(3)]
        partition_pairs [OF fl(2)] partition_pairs [OF fl(3)] tl fst_conv snd_conv append_Nil2 pt assms(5))
  then show ?thesis
    by (simp add: parseArgs_def flagParse_pairs [OF fl(1) assms(2)])
qed

theorem flags_anywhere_witness:
  "parseArgs [(''o'', StrV ''''), (''tier'', IntV 0)]
     ([''base.img''] @ pair_tokens [(''tier'', ''0x2'')] @ [] @ pair_tokens [(''o'', ''d'')] @ [] @ [''--'', ''-o'']) 2
   = Parsed [(''o'', StrV ''d''), (''tier'', IntV 2)] [''base.img'', ''-o'']"
proof -
  have "set_all [(''o'', StrV ''''), (''tier'', IntV 0)] ([(''tier'', ''0x2'')] @ [(''o'', ''d'')])
      = Some [(''o'', StrV ''d''), (''tier'', IntV 2)]"
    by code_simp
  from flags_anywhere [OF _ this, of "[''base.img'']" "[]" "[]" "[''--'', ''-o'']" "[''-o'']" "[''base.img'', ''-o'']" 2]
  show ?thesis by simp
qed

text \<open>
  C35: a successful parse uses every token: FlagSet.Parse reads all flag tokens (it leaves nothing
  in FlagSet.Args()), the positionals are exactly as many as wanted, and flags and positionals
  together are the arguments, less one terminator at most.
\<close>

theorem no_token_ignored:
  assumes "parseArgs fs args want = Parsed fs' pos"
  shows "length pos = want \<and> flagParse fs (fst (partitionArgs fs args)) = Inr (fs', [])
    \<and> (mset (fst (partitionArgs fs args)) + mset pos = mset args
       \<or> add_mset ''--'' (mset (fst (partitionArgs fs args)) + mset pos) = mset args)"
proof -
  obtain left where p: "snd (partitionArgs fs args) = pos" "length pos = want"
    "flagParse fs (fst (partitionArgs fs args)) = Inr (fs', left)"
    using assms by (auto simp: parseArgs_def split: prod.splits sum.splits if_splits)
  have "left = []" using flagParse_reads_all [OF _ p(3)] by (simp add: same_names_def)
  moreover have "mset (fst (partitionArgs fs args)) + mset pos = mset args
       \<or> add_mset ''--'' (mset (fst (partitionArgs fs args)) + mset pos) = mset args"
    using partition_tokens [of fs args] p(1) by auto
  ultimately show ?thesis using p by simp
qed

theorem no_token_ignored_witness:
  "flagParse [(''o'', StrV '''')] (fst (partitionArgs [(''o'', StrV '''')] [''a'', ''-o=x'', ''b''])) = Inr ([(''o'', StrV ''x'')], [])"
proof -
  have "parseArgs [(''o'', StrV '''')] [''a'', ''-o=x'', ''b''] 2 = Parsed [(''o'', StrV ''x'')] [''a'', ''b'']" by code_simp
  from no_token_ignored [OF this] show ?thesis by blast
qed

end
