(* ===== verification/Host.thy ===== *)
theory Host
  imports Prelude
begin

text \<open>
  The file operations of src/cmd/bdev/io.go: loadImage, loadBlob and the atomic writeFile. The file
  system is a map from real paths to contents and a map of symbolic links; a link leads to the
  path one step of its resolution gives, so a path that traverses a linked directory is a link
  too. Failures of system calls are chosen by the record \<open>host\<close>.
\<close>

section \<open>The file system\<close>

record world =
  files :: "string \<Rightarrow> bytes option"
  links :: "string \<Rightarrow> string option"

definition setFile :: "string \<Rightarrow> bytes \<Rightarrow> world \<Rightarrow> world" where
  "setFile p b w = w\<lparr>files := (files w)(p := Some b)\<rparr>"

definition removeFile :: "string \<Rightarrow> world \<Rightarrow> world" where
  "removeFile p w = w\<lparr>files := (files w)(p := None)\<rparr>"

text \<open>rename(2): the target name now is the file, whatever it was before.\<close>

definition renameFile :: "string \<Rightarrow> string \<Rightarrow> world \<Rightarrow> world" where
  "renameFile old new w =
     w\<lparr>files := (files w)(new := files w old, old := None), links := (links w)(new := None)\<rparr>"

text \<open>filepath.EvalSymlinks gives up after 255 links.\<close>

primrec chase :: "nat \<Rightarrow> world \<Rightarrow> string \<Rightarrow> string option" where
  "chase 0 w p = (if links w p = None \<and> files w p \<noteq> None then Some p else None)"
| "chase (Suc n) w p =
     (case links w p of
        None \<Rightarrow> if files w p \<noteq> None then Some p else None
      | Some q \<Rightarrow> chase n w q)"

definition evalSymlinks :: "world \<Rightarrow> string \<Rightarrow> string option" where
  "evalSymlinks w p = chase 255 w p"

datatype sys_fault = AtCreate | AtWrite nat | AtChmod | AtSync | AtClose | AtRename

text \<open>
  What the environment decides: which paths may be read, the random part of the name os.CreateTemp
  settles on, and the system call of writeFile that fails, if any.
\<close>

record host =
  readable :: "string \<Rightarrow> bool"
  nonce :: string
  fault :: "sys_fault option"

definition ReadFile :: "host \<Rightarrow> world \<Rightarrow> string \<Rightarrow> bytes option" where
  "ReadFile h w p =
     (if readable h p then (case evalSymlinks w p of Some q \<Rightarrow> files w q | None \<Rightarrow> None) else None)"

section \<open>writeFile\<close>

definition tempFor :: "host \<Rightarrow> string \<Rightarrow> string" where
  "tempFor h target = target @ ''.tmp'' @ nonce h"

definition writeTarget :: "world \<Rightarrow> string \<Rightarrow> string" where
  "writeTarget w path = (case evalSymlinks w path of Some q \<Rightarrow> q | None \<Rightarrow> path)"

text \<open>The result is whether the error is nil, and the file system.\<close>

definition writeFile :: "host \<Rightarrow> world \<Rightarrow> string \<Rightarrow> bytes \<Rightarrow> bool \<times> world" where
  "writeFile h w path dat =
     (let target = writeTarget w path;
          tmp = tempFor h target
      in if fault h = Some AtCreate \<or> files w tmp \<noteq> None \<or> links w tmp \<noteq> None then (False, w)
      else (let w = setFile tmp [] w in
        case fault h of
          Some (AtWrite k) \<Rightarrow> (False, removeFile tmp (setFile tmp (take k dat) w))
        | _ \<Rightarrow> (let w = setFile tmp dat w in
            if fault h = Some AtChmod then (False, removeFile tmp w)
            else if fault h = Some AtSync then (False, removeFile tmp w)
            else if fault h = Some AtClose then (False, removeFile tmp w)
            else if fault h = Some AtRename then (False, removeFile tmp w)
            else (True, removeFile tmp (renameFile tmp target w)))))"

section \<open>writeFile as a sequence of system calls\<close>

text \<open>
  Each system call is a step, and each may fail; a crash is a run that stops anywhere. The deferred
  os.Remove runs on every way out, and may fail too.
\<close>

datatype phase = Start | Created | Written | Moded | Synced | Closed | Aborting | Removing bool | Returned bool

inductive write_step :: "string \<Rightarrow> string \<Rightarrow> bytes \<Rightarrow> phase \<times> world \<Rightarrow> phase \<times> world \<Rightarrow> bool"
  for target tmp dat where
  create: "files w tmp = None \<Longrightarrow> links w tmp = None \<Longrightarrow>
     write_step target tmp dat (Start, w) (Created, setFile tmp [] w)"
| create_fails: "write_step target tmp dat (Start, w) (Returned False, w)"
| write_part: "files w tmp = Some (take j dat) \<Longrightarrow> j < k \<Longrightarrow> k < length dat \<Longrightarrow>
     write_step target tmp dat (Created, w) (Created, setFile tmp (take k dat) w)"
| write_all: "write_step target tmp dat (Created, w) (Written, setFile tmp dat w)"
| write_fails: "write_step target tmp dat (Created, w) (Aborting, w)"
| chmod: "write_step target tmp dat (Written, w) (Moded, w)"
| chmod_fails: "write_step target tmp dat (Written, w) (Aborting, w)"
| sync: "write_step target tmp dat (Moded, w) (Synced, w)"
| sync_fails: "write_step target tmp dat (Moded, w) (Aborting, w)"
| close: "write_step target tmp dat (Synced, w) (Closed, w)"
| close_fails: "write_step target tmp dat (Synced, w) (Removing False, w)"
| abort: "write_step target tmp dat (Aborting, w) (Removing False, w)"
| rename: "write_step target tmp dat (Closed, w) (Removing True, renameFile tmp target w)"
| rename_fails: "write_step target tmp dat (Closed, w) (Removing False, w)"
| remove: "write_step target tmp dat (Removing b, w) (Returned b, removeFile tmp w)"
| remove_fails: "write_step target tmp dat (Removing b, w) (Returned b, w)"

text \<open>What holds in every phase, next to the file system \<open>w0\<close> the call started from.\<close>

definition done_phase :: "phase \<Rightarrow> bool" where
  "done_phase ph \<longleftrightarrow> ph = Removing True \<or> ph = Returned True"

definition held_phase :: "phase \<Rightarrow> bool" where
  "held_phase ph \<longleftrightarrow> ph \<in> {Written, Moded, Synced, Closed}"

definition atomic :: "string \<Rightarrow> string \<Rightarrow> bytes \<Rightarrow> world \<Rightarrow> phase \<times> world \<Rightarrow> bool" where
  "atomic target tmp dat w0 s \<longleftrightarrow> (case s of (ph, w) \<Rightarrow>
     (\<forall>p. p \<noteq> tmp \<and> p \<noteq> target \<longrightarrow> files w p = files w0 p)
   \<and> (\<forall>p. p \<noteq> target \<longrightarrow> links w p = links w0 p)
   \<and> (if done_phase ph then files w target = Some dat \<and> links w target = None
      else files w target = files w0 target \<and> links w target = links w0 target)
   \<and> (held_phase ph \<longrightarrow> files w tmp = Some dat))"

lemma atomic_step:
  assumes "tmp \<noteq> target" "atomic target tmp dat w0 s" "write_step target tmp dat s s'"
  shows "atomic target tmp dat w0 s'"
  using assms(3,2,1)
  by cases (auto simp: atomic_def done_phase_def held_phase_def setFile_def removeFile_def renameFile_def)

lemma atomic_reachable:
  assumes "(write_step target tmp dat)\<^sup>*\<^sup>* (Start, w0) s" "tmp \<noteq> target"
  shows "atomic target tmp dat w0 s"
  using assms(1)
proof (induction rule: rtranclp_induct)
  case base
  then show ?case by (simp add: atomic_def done_phase_def held_phase_def)
next
  case (step s s')
  then show ?case using atomic_step assms(2) by blast
qed

lemma temp_differs: "tempFor h target \<noteq> target"
  by (simp add: tempFor_def)

section \<open>The function is a run\<close>

lemma run_cons: "write_step target tmp dat s s' \<Longrightarrow> (write_step target tmp dat)\<^sup>*\<^sup>* s' s''
  \<Longrightarrow> (write_step target tmp dat)\<^sup>*\<^sup>* s s''"
  by (rule converse_rtranclp_into_rtranclp)

lemma setFile_setFile [simp]: "setFile p b (setFile p a w) = setFile p b w"
  by (simp add: setFile_def)

lemma removeFile_setFile [simp]: "removeFile p (setFile p b w) = removeFile p w"
  by (simp add: setFile_def removeFile_def)

lemma run_from_Written:
  assumes "fault h \<noteq> Some AtCreate" "\<forall>k. fault h \<noteq> Some (AtWrite k)"
  shows "(write_step target tmp dat)\<^sup>*\<^sup>* (Written, w)
    (if fault h = None then (Returned True, removeFile tmp (renameFile tmp target w))
     else (Returned False, removeFile tmp w))"
proof -
  have rm: "(write_step target tmp dat)\<^sup>*\<^sup>* (Removing b, w) (Returned b, removeFile tmp w)" for b w
    using remove by (rule r_into_rtranclp)
  have ab: "(write_step target tmp dat)\<^sup>*\<^sup>* (Aborting, w) (Returned False, removeFile tmp w)" for w
    using abort rm by (rule run_cons)
  show ?thesis
  proof (cases "fault h")
    case None
    then show ?thesis
      using run_cons [OF chmod run_cons [OF sync run_cons [OF close run_cons [OF rename rm]]]] by simp
  next
    case (Some f)
    then show ?thesis
      using assms run_cons [OF chmod_fails ab] run_cons [OF chmod run_cons [OF sync_fails ab]]
        run_cons [OF chmod run_cons [OF sync run_cons [OF close_fails rm]]]
        run_cons [OF chmod run_cons [OF sync run_cons [OF close run_cons [OF rename_fails rm]]]]
      by (cases f) simp_all
  qed
qed

lemma writeFile_cases:
  "writeFile h w path dat =
    (let target = writeTarget w path; tmp = tempFor h target in
     if fault h = Some AtCreate \<or> files w tmp \<noteq> None \<or> links w tmp \<noteq> None then (False, w)
     else if fault h = None then (True, removeFile tmp (renameFile tmp target (setFile tmp dat w)))
     else (False, removeFile tmp w))"
  by (cases "fault h")
    (auto simp: writeFile_def Let_def removeFile_def setFile_def split: sys_fault.split)

lemma writeFile_run:
  assumes "writeFile h w path dat = (ok, w')" "target = writeTarget w path" "tmp = tempFor h target"
  shows "(write_step target tmp dat)\<^sup>*\<^sup>* (Start, w) (Returned ok, w')"
proof (cases "fault h = Some AtCreate \<or> files w tmp \<noteq> None \<or> links w tmp \<noteq> None")
  case True
  then have "ok = False" "w' = w" using assms by (auto simp: writeFile_cases Let_def)
  then show ?thesis using create_fails by (simp add: r_into_rtranclp)
next
  case False
  then have fresh: "files w tmp = None" "links w tmp = None" "fault h \<noteq> Some AtCreate" by auto
  have start: "(write_step target tmp dat)\<^sup>*\<^sup>* (Start, w) (Created, setFile tmp [] w)"
    using create [OF fresh(1,2)] by (rule r_into_rtranclp)
  show ?thesis
  proof (cases "\<exists>k. fault h = Some (AtWrite k)")
    case True
    have "(write_step target tmp dat)\<^sup>*\<^sup>* (Created, setFile tmp [] w) (Returned False, removeFile tmp (setFile tmp [] w))"
      by (intro run_cons [OF write_fails] run_cons [OF abort] r_into_rtranclp remove)
    moreover have "ok = False" "w' = removeFile tmp w"
      using True assms False by (auto simp: writeFile_cases Let_def)
    ultimately show ?thesis using start by simp
  next
    case nw: False
    have "(write_step target tmp dat)\<^sup>*\<^sup>* (Written, setFile tmp dat w) (Returned ok, w')"
      using run_from_Written [OF fresh(3), of target tmp dat "setFile tmp dat w"] nw assms False
      by (cases "fault h") (auto simp: writeFile_cases Let_def)
    moreover have "write_step target tmp dat (Created, setFile tmp [] w) (Written, setFile tmp dat w)"
      using write_all [of target tmp dat "setFile tmp [] w"] by simp
    ultimately show ?thesis using start by (meson rtranclp.rtrancl_into_rtrancl rtranclp_trans)
  qed
qed

section \<open>What a crash leaves\<close>

text \<open>
  Data that was written but not synced is lost or mangled by a crash of the machine. Next to the
  file system goes the set of paths whose content has not reached the disk: writing a file puts its
  path into the set, Sync takes the temporary path out, and a rename carries the state of the data
  along to the new name. Directory operations are atomic and reach the disk in order, so a rename
  that was lost shows as a crash before it.
\<close>

definition flushed :: "string \<Rightarrow> string \<Rightarrow> phase \<times> world \<Rightarrow> phase \<times> world \<Rightarrow> string set \<Rightarrow> string set" where
  "flushed target tmp s s' u =
     (if fst s = Moded \<and> fst s' = Synced then u - {tmp}
      else if fst s' = Removing True then (\<lambda>p. if p = tmp then target else p) ` u
      else u \<union> {p. files (snd s') p \<noteq> files (snd s) p \<and> files (snd s') p \<noteq> None})"

inductive durable_step ::
    "string \<Rightarrow> string \<Rightarrow> bytes \<Rightarrow> (phase \<times> world) \<times> string set \<Rightarrow> (phase \<times> world) \<times> string set \<Rightarrow> bool"
  for target tmp dat where
  advance: "write_step target tmp dat s s' \<Longrightarrow> durable_step target tmp dat (s, u) (s', flushed target tmp s s' u)"

inductive_cases durable_cases: "durable_step target tmp dat (s, u) (s', u')"

text \<open>After a crash the paths in the set hold anything, or nothing.\<close>

definition crash_image :: "string set \<Rightarrow> world \<Rightarrow> world \<Rightarrow> bool" where
  "crash_image u w w' \<longleftrightarrow> links w' = links w \<and> (\<forall>p. p \<notin> u \<longrightarrow> files w' p = files w p)"

definition settled :: "phase \<Rightarrow> bool" where
  "settled ph \<longleftrightarrow> ph = Synced \<or> ph = Closed \<or> done_phase ph"

lemma durable_inv:
  assumes "(durable_step target tmp dat)\<^sup>*\<^sup>* ((Start, w0), {}) (s, u)" "tmp \<noteq> target"
  shows "(write_step target tmp dat)\<^sup>*\<^sup>* (Start, w0) s \<and> u \<subseteq> {tmp} \<and> (settled (fst s) \<longrightarrow> u = {})"
  using assms(1)
proof (induction "(s, u)" arbitrary: s u rule: rtranclp_induct)
  case base
  then show ?case by (simp add: settled_def done_phase_def)
next
  case (step m)
  obtain s0 u0 where m: "m = (s0, u0)" by (cases m)
  have st: "write_step target tmp dat s0 s" "u = flushed target tmp s0 s u0"
    using step.hyps(2) unfolding m by (auto elim: durable_cases)
  have ih: "(write_step target tmp dat)\<^sup>*\<^sup>* (Start, w0) s0" "u0 \<subseteq> {tmp}" "settled (fst s0) \<longrightarrow> u0 = {}"
    using step.hyps(3) [OF m] by simp_all
  have "u \<subseteq> {tmp} \<and> (settled (fst s) \<longrightarrow> u = {})"
    using st(1) ih(2,3) unfolding st(2)
    by cases (auto simp: flushed_def settled_def done_phase_def setFile_def removeFile_def split: if_splits)
  then show ?case using ih(1) st(1) by (meson rtranclp.rtrancl_into_rtrancl)
qed

section \<open>Reading what was written\<close>

lemma chase_mono: "chase n w p = Some q \<Longrightarrow> n \<le> m \<Longrightarrow> chase m w p = Some q"
proof (induction n arbitrary: p m)
  case 0
  then show ?case by (cases m) (simp_all split: if_splits)
next
  case (Suc n)
  then obtain m' where m: "m = Suc m'" "n \<le> m'" by (cases m) simp_all
  show ?case
  proof (cases "links w p")
    case None
    then show ?thesis using Suc.prems(1) m by simp
  next
    case (Some r)
    then show ?thesis using Suc.IH [of r m'] Suc.prems(1) m by simp
  qed
qed

lemma chase_end: "chase n w p = Some q \<Longrightarrow> links w q = None \<and> files w q \<noteq> None"
  by (induction n arbitrary: p) (auto split: if_splits option.splits)

lemma chase_kept:
  assumes "chase n w p = Some q" "n \<le> 255" "evalSymlinks w path = None"
    and "\<forall>x. files w x \<noteq> None \<longrightarrow> files w' x \<noteq> None" "\<forall>x. x \<noteq> path \<longrightarrow> links w' x = links w x"
  shows "chase n w' p = Some q"
  using assms(1,2)
proof (induction n arbitrary: p)
  case 0
  have "p \<noteq> path"
  proof
    assume "p = path"
    then have "evalSymlinks w path = Some q" using chase_mono [OF 0(1), of 255] by (simp add: evalSymlinks_def)
    then show False using assms(3) by simp
  qed
  then show ?case using 0 assms(4,5) by (auto split: if_splits)
next
  case (Suc n)
  have "p \<noteq> path"
  proof
    assume "p = path"
    then have "evalSymlinks w path = Some q" using chase_mono [OF Suc.prems(1,2)] by (simp add: evalSymlinks_def)
    then show False using assms(3) by simp
  qed
  then have l: "links w' p = links w p" using assms(5) by simp
  show ?case using Suc l assms(4) by (auto split: option.splits if_splits)
qed

lemma chase_same_links:
  "links w' = links w \<Longrightarrow> \<forall>x. files w x \<noteq> None \<longrightarrow> files w' x \<noteq> None \<Longrightarrow> chase n w p = Some q \<Longrightarrow> chase n w' p = Some q"
  by (induction n arbitrary: p) (auto split: option.splits if_splits)

lemma write_world:
  assumes "writeFile h w path dat = (True, w')"
  shows "files w' = (files w)(writeTarget w path := Some dat)"
    "links w' = (links w)(writeTarget w path := None)" "fault h = None"
proof -
  have nt: "tempFor h (writeTarget w path) \<noteq> writeTarget w path" by (rule temp_differs)
  then show "files w' = (files w)(writeTarget w path := Some dat)"
    "links w' = (links w)(writeTarget w path := None)" "fault h = None"
    using assms by (auto simp: writeFile_cases Let_def removeFile_def renameFile_def setFile_def fun_eq_iff split: if_splits)
qed

lemma written_resolution:
  assumes "writeFile h w path dat = (True, w')"
  shows "evalSymlinks w' path = Some (writeTarget w path)"
    and "evalSymlinks w p = Some q \<Longrightarrow> evalSymlinks w' p = Some q"
proof -
  note ww = write_world [OF assms]
  have keep: "\<forall>x. files w x \<noteq> None \<longrightarrow> files w' x \<noteq> None" using ww(1) by simp
  show kept: "evalSymlinks w' p = Some q" if "evalSymlinks w p = Some q" for p q
  proof (cases "evalSymlinks w path")
    case None
    then have "\<forall>x. x \<noteq> path \<longrightarrow> links w' x = links w x" using ww(2) by (simp add: writeTarget_def)
    from chase_kept [OF that [unfolded evalSymlinks_def] order_refl None keep this] show ?thesis
      by (simp add: evalSymlinks_def)
  next
    case (Some t)
    then have "links w t = None" using chase_end by (auto simp: evalSymlinks_def)
    then have "links w' = links w" using ww(2) Some by (auto simp: writeTarget_def fun_eq_iff)
    from chase_same_links [OF this keep that [unfolded evalSymlinks_def]] show ?thesis
      by (simp add: evalSymlinks_def)
  qed
  show "evalSymlinks w' path = Some (writeTarget w path)"
  proof (cases "evalSymlinks w path")
    case None
    then have "writeTarget w path = path" by (simp add: writeTarget_def)
    then have "links w' path = None" "files w' path \<noteq> None" using ww by simp_all
    then show ?thesis using \<open>writeTarget w path = path\<close> by (simp add: evalSymlinks_def numeral_eq_Suc)
  next
    case (Some t)
    then show ?thesis using kept by (simp add: writeTarget_def)
  qed
qed

lemma ReadFile_written:
  assumes "writeFile h w path dat = (True, w')" "readable g path"
  shows "ReadFile g w' path = Some dat"
  using written_resolution(1) [OF assms(1)] write_world(1) [OF assms(1)] assms(2) by (simp add: ReadFile_def)

lemma ReadFile_other:
  assumes "writeFile h w path dat = (True, w')" "evalSymlinks w p \<noteq> Some (writeTarget w path)" "ReadFile g w p = Some b"
  shows "ReadFile g w' p = Some b"
proof -
  obtain q where q: "evalSymlinks w p = Some q" "files w q = Some b" "readable g p"
    using assms(3) by (auto simp: ReadFile_def split: if_splits option.splits)
  then show ?thesis
    using written_resolution(2) [OF assms(1) q(1)] write_world(1) [OF assms(1)] assms(2) by (auto simp: ReadFile_def)
qed

lemma write_failed:
  assumes "writeFile h w path dat = (False, w')"
  shows "w' = w"
proof (cases "files w (tempFor h (writeTarget w path)) = None \<and> fault h \<noteq> None")
  case True
  then have "removeFile (tempFor h (writeTarget w path)) w = w" by (auto simp: removeFile_def fun_upd_idem)
  then show ?thesis using assms by (auto simp: writeFile_cases Let_def split: if_splits)
next
  case False
  then show ?thesis using assms by (auto simp: writeFile_cases Let_def split: if_splits)
qed

text \<open>A path can be written: no system call fails and the temporary name is free.\<close>

definition writable :: "host \<Rightarrow> world \<Rightarrow> string \<Rightarrow> bool" where
  "writable h w p \<longleftrightarrow> fault h = None \<and> files w (tempFor h (writeTarget w p)) = None
     \<and> links w (tempFor h (writeTarget w p)) = None"

lemma writeFile_ok: "fst (writeFile h w p b) \<longleftrightarrow> writable h w p"
  by (auto simp: writeFile_cases Let_def writable_def)

section \<open>The contract of a file store\<close>

text \<open>
  What the commands rely on: a file that was written is read back, a write leaves the files apart
  from it readable as before, and a write that reports an error changed nothing.
\<close>

locale file_store =
  fixes may :: "string \<Rightarrow> bool"
    and apart :: "'w \<Rightarrow> string \<Rightarrow> string \<Rightarrow> bool"
    and rd :: "'w \<Rightarrow> string \<Rightarrow> bytes option"
    and wr :: "'w \<Rightarrow> string \<Rightarrow> bytes \<Rightarrow> bool \<times> 'w"
  assumes rd_written: "wr w p b = (True, w') \<Longrightarrow> may p \<Longrightarrow> rd w' p = Some b"
    and rd_apart: "wr w p b = (True, w') \<Longrightarrow> apart w p q \<Longrightarrow> rd w q = Some x \<Longrightarrow> rd w' q = Some x"
    and wr_failed: "wr w p b = (False, w') \<Longrightarrow> w' = w"
begin

lemma rd_kept: "wr w p b = (ok, w') \<Longrightarrow> apart w p q \<Longrightarrow> rd w q = Some x \<Longrightarrow> rd w' q = Some x"
  using rd_apart [of w p b w' q x] wr_failed [of w p b w'] by (cases ok) auto

lemma two_files:
  assumes "wr w p b = (True, w1)" "wr w1 q c = (True, w2)" "apart w1 q p" "may p" "may q"
  shows "rd w2 p = Some b \<and> rd w2 q = Some c"
  using rd_written [OF assms(1,4)] rd_apart [OF assms(2,3)] rd_written [OF assms(2,5)] by blast

lemma rewritten: "wr w p b = (True, w1) \<Longrightarrow> wr w1 p c = (ok, w2) \<Longrightarrow> may p
  \<Longrightarrow> rd w2 p = Some (if ok then c else b)"
  using rd_written [of w p b w1] rd_written [of w1 p c w2] wr_failed [of w1 p c w2] by (cases ok) auto

end

interpretation os: file_store "readable g" "\<lambda>w p q. evalSymlinks w q \<noteq> Some (writeTarget w p)"
  "ReadFile g" "writeFile h" for g h
proof unfold_locales
qed (rule ReadFile_written, assumption+, rule ReadFile_other, assumption+, rule write_failed, assumption)

section \<open>Properties\<close>

text \<open>
  C7: writeFile is atomic. Whatever system call fails, and wherever the process is killed, the
  target has its old content or all of the new one, never a part; every other file but the
  temporary one is untouched; a run that returned true has replaced the target, a run that
  returned false has not.
\<close>

theorem writeFile_atomic:
  assumes "(write_step target tmp dat)\<^sup>*\<^sup>* (Start, w0) (ph, w)" "tmp \<noteq> target"
  shows "(files w target = files w0 target \<or> files w target = Some dat)
    \<and> (\<forall>p. p \<noteq> tmp \<and> p \<noteq> target \<longrightarrow> files w p = files w0 p)
    \<and> (ph = Returned True \<longrightarrow> files w target = Some dat)
    \<and> (ph = Returned False \<longrightarrow> files w target = files w0 target \<and> links w target = links w0 target)"
  using atomic_reachable [OF assms] by (auto simp: atomic_def done_phase_def split: if_splits)

theorem writeFile_atomic_witness:
  "files (setFile ''d.tmp7'' [1] \<lparr>files = [''d'' \<mapsto> [9]], links = Map.empty\<rparr>) ''d'' \<in> {Some [9], Some [1, 2 :: byte]}"
proof -
  let ?w = "\<lparr>files = [''d'' \<mapsto> [9]], links = Map.empty\<rparr>"
  have "write_step ''d'' ''d.tmp7'' [1, 2] (Start, ?w) (Created, setFile ''d.tmp7'' [] ?w)"
    by (intro create) simp_all
  moreover have "write_step ''d'' ''d.tmp7'' [1, 2] (Created, setFile ''d.tmp7'' [] ?w) (Created, setFile ''d.tmp7'' [1] ?w)"
    using write_part [of "setFile ''d.tmp7'' [] ?w" "''d.tmp7''" 0 "[1, 2]" 1 "''d''"] by (simp add: setFile_def)
  ultimately have "(write_step ''d'' ''d.tmp7'' [1, 2])\<^sup>*\<^sup>* (Start, ?w) (Created, setFile ''d.tmp7'' [1] ?w)"
    by (meson rtranclp.rtrancl_into_rtrancl rtranclp.rtrancl_refl)
  from writeFile_atomic [OF this] show ?thesis by (auto simp: setFile_def)
qed

text \<open>
  C32: writeFile returns the state one run of its system calls ends in: it succeeds exactly when no
  call fails and the temporary name is free, then the target (the file a link leads to, or the
  literal path) holds the data and nothing else changed; on failure the file system is the old one.
\<close>

theorem writeFile_refines:
  assumes "writeFile h w path dat = (ok, w')"
    and "target = (case evalSymlinks w path of Some q \<Rightarrow> q | None \<Rightarrow> path)" "tmp = target @ ''.tmp'' @ nonce h"
  shows "(write_step target tmp dat)\<^sup>*\<^sup>* (Start, w) (Returned ok, w')
    \<and> (ok \<longleftrightarrow> fault h = None \<and> files w tmp = None \<and> links w tmp = None)
    \<and> (if ok then files w' = (files w)(target := Some dat) \<and> links w' = (links w)(target := None) else w' = w)"
proof -
  have t: "target = writeTarget w path" "tmp = tempFor h target" using assms(2,3) by (simp_all add: writeTarget_def tempFor_def)
  have "ok \<longleftrightarrow> fault h = None \<and> files w tmp = None \<and> links w tmp = None"
    using assms(1) unfolding t by (auto simp: writeFile_cases Let_def split: if_splits)
  moreover have "if ok then files w' = (files w)(target := Some dat) \<and> links w' = (links w)(target := None) else w' = w"
    using assms(1) write_world(1,2) write_failed unfolding t(1) by (cases ok) auto
  ultimately show ?thesis using writeFile_run [OF assms(1) t] by blast
qed

theorem writeFile_refines_witness:
  "\<exists>w'. writeFile \<lparr>readable = (\<lambda>_. True), nonce = ''7'', fault = None\<rparr>
      \<lparr>files = [''d'' \<mapsto> [9]], links = [''l'' \<mapsto> ''d'']\<rparr> ''l'' [1, 2] = (True, w')
    \<and> files w' = [''d'' \<mapsto> [1, 2]] \<and> links w' = [''l'' \<mapsto> ''d'']"
proof -
  let ?w = "\<lparr>files = [''d'' \<mapsto> [9]], links = [''l'' \<mapsto> ''d'']\<rparr>"
  let ?h = "\<lparr>readable = (\<lambda>_. True), nonce = ''7'', fault = None\<rparr>"
  obtain ok w' where wf: "writeFile ?h ?w ''l'' [1, 2] = (ok, w')" by (cases "writeFile ?h ?w ''l'' [1, 2]")
  have e: "''d'' = (case evalSymlinks ?w ''l'' of Some q \<Rightarrow> q | None \<Rightarrow> ''l'')"
    by (simp add: evalSymlinks_def numeral_eq_Suc)
  from writeFile_refines [OF wf e refl]
  have r: "ok" "if ok then files w' = (files ?w)(''d'' := Some [1, 2]) \<and> links w' = (links ?w)(''d'' := None) else w' = ?w"
    by simp_all
  then show ?thesis using wf by (auto simp: fun_upd_twist)
qed

text \<open>
  C33: writeFile is crash-safe. Whenever the machine stops, whatever the crash makes of data that was
  not synced, the target is the old file or all of the new data, and every other file but the
  temporary one is as before: the data is on the disk before the rename puts it in place.
\<close>

theorem writeFile_crash_safe:
  assumes "(durable_step target tmp dat)\<^sup>*\<^sup>* ((Start, w0), {}) ((ph, w), u)" "tmp \<noteq> target"
    and "crash_image u w w'"
  shows "(files w' target = files w0 target \<and> links w' target = links w0 target
       \<or> files w' target = Some dat \<and> links w' target = None)
    \<and> (\<forall>p. p \<noteq> tmp \<and> p \<noteq> target \<longrightarrow> files w' p = files w0 p \<and> links w' p = links w0 p)"
proof -
  have i: "(write_step target tmp dat)\<^sup>*\<^sup>* (Start, w0) (ph, w)" "u \<subseteq> {tmp}"
    using durable_inv [OF assms(1,2)] by simp_all
  then have "files w' p = files w p" "links w' p = links w p" if "p \<noteq> tmp" for p
    using assms(3) that by (auto simp: crash_image_def)
  then show ?thesis
    using atomic_reachable [OF i(1) assms(2)] assms(2) by (auto simp: atomic_def split: if_splits)
qed

theorem writeFile_crash_safe_witness:
  "files (setFile ''d.tmp7'' [5] \<lparr>files = [''d'' \<mapsto> [9]], links = Map.empty\<rparr>) ''d'' \<in> {Some [9], Some [1, 2 :: byte]}"
proof -
  let ?w = "\<lparr>files = [''d'' \<mapsto> [9]], links = Map.empty\<rparr>"
  let ?w1 = "setFile ''d.tmp7'' [] ?w"
  let ?w2 = "setFile ''d.tmp7'' [1, 2] ?w1"
  let ?u1 = "flushed ''d'' ''d.tmp7'' (Start, ?w) (Created, ?w1) {}"
  let ?u2 = "flushed ''d'' ''d.tmp7'' (Created, ?w1) (Written, ?w2) ?u1"
  have "durable_step ''d'' ''d.tmp7'' [1, 2] ((Start, ?w), {}) ((Created, ?w1), ?u1)"
    by (intro advance create) simp_all
  moreover have "durable_step ''d'' ''d.tmp7'' [1, 2] ((Created, ?w1), ?u1) ((Written, ?w2), ?u2)"
    by (intro advance write_all)
  ultimately have r: "(durable_step ''d'' ''d.tmp7'' [1, 2])\<^sup>*\<^sup>* ((Start, ?w), {}) ((Written, ?w2), ?u2)"
    by (meson rtranclp.rtrancl_into_rtrancl rtranclp.rtrancl_refl)
  have "crash_image ?u2 ?w2 (setFile ''d.tmp7'' [5] ?w)"
    by (auto simp: crash_image_def flushed_def setFile_def)
  from writeFile_crash_safe [OF r _ this] show ?thesis by auto
qed

end
