(* ===== verification/Cli.thy ===== *)
theory Cli
  imports Codec Inspect Args Host
begin

text \<open>
  src/cmd/bdev: the three subcommands and main. A command is a function of the environment, the
  file system and the arguments; its outcome is the exit code, what it printed and the file
  system it leaves. Texts the code takes from error values of libraries are fields of \<open>messages\<close>.
\<close>

section \<open>Output\<close>

record outcome =
  exitCode :: int
  stdout :: string
  stderr :: string
  finalFs :: world

record messages =
  osText :: "string \<Rightarrow> string"
  fmtText :: "format_error \<Rightarrow> string"
  devText :: "device_error \<Rightarrow> string"
  flagText :: "flag_error \<Rightarrow> string"
  quoted :: "string list \<Rightarrow> string"

definition nl :: string where "nl = [CHR 0x0A]"

fun dec :: "nat \<Rightarrow> string" where
  "dec n = (if n < 10 then [char_of (48 + n)] else dec (n div 10) @ [char_of (48 + n mod 10)])"

declare dec.simps [simp del]

definition decInt :: "int \<Rightarrow> string" where
  "decInt x = (if x < 0 then CHR ''-'' # dec (nat (- x)) else dec (nat x))"

definition joinSpace :: "string list \<Rightarrow> string" where
  "joinSpace xs = (case xs of [] \<Rightarrow> [] | x # xs \<Rightarrow> x @ concat (map (\<lambda>y. CHR '' '' # y) xs))"

definition showInts :: "int list \<Rightarrow> string" where
  "showInts xs = ''['' @ joinSpace (map decInt xs) @ '']''"

definition showBool :: "bool \<Rightarrow> string" where
  "showBool b = (if b then ''true'' else ''false'')"

definition fail :: "int \<Rightarrow> string \<Rightarrow> world \<Rightarrow> outcome" where
  "fail c msg w = \<lparr>exitCode = c, stdout = [], stderr = ''bdev: '' @ msg @ nl, finalFs = w\<rparr>"

definition exits :: "int \<Rightarrow> string \<Rightarrow> world \<Rightarrow> outcome" where
  "exits c s w = \<lparr>exitCode = c, stdout = s, stderr = [], finalFs = w\<rparr>"

section \<open>Arguments and files\<close>

definition loadBlob :: "host \<Rightarrow> messages \<Rightarrow> world \<Rightarrow> string \<Rightarrow> string + bytes" where
  "loadBlob h ms w p = (case ReadFile h w p of None \<Rightarrow> Inl (osText ms p) | Some b \<Rightarrow> Inr b)"

definition loadImage :: "host \<Rightarrow> messages \<Rightarrow> world \<Rightarrow> string \<Rightarrow> string + bytes" where
  "loadImage h ms w p =
     (case ReadFile h w p of
        None \<Rightarrow> Inl (osText ms p)
      | Some b \<Rightarrow>
          if length b mod BlockSize \<noteq> 0
          then Inl (p @ '': length '' @ dec (length b) @ '' not a multiple of '' @ dec BlockSize)
          else Inr b)"

text \<open>What a command does with the result of parseArgs before its own work.\<close>

definition withArgs ::
    "messages \<Rightarrow> world \<Rightarrow> flag_set \<Rightarrow> string list \<Rightarrow> nat \<Rightarrow> string
     \<Rightarrow> (flag_set \<Rightarrow> string list \<Rightarrow> outcome option) \<Rightarrow> outcome option" where
  "withArgs ms w fs args want synopsis body =
     (case parseArgs fs args want of
        Help \<Rightarrow> Some (exits 0 (synopsis @ nl) w)
      | Usage e \<Rightarrow> Some (fail 2 (flagText ms e @ nl @ synopsis) w)
      | Surplus xs \<Rightarrow> Some (fail 2 (''unexpected argument(s) '' @ quoted ms xs @ nl @ synopsis) w)
      | Missing \<Rightarrow> Some (fail 2 synopsis w)
      | Parsed fs' pos \<Rightarrow> body fs' pos)"

definition strFlag :: "flag_set \<Rightarrow> string \<Rightarrow> string" where
  "strFlag fs n = (case map_of fs n of Some (StrV s) \<Rightarrow> s | _ \<Rightarrow> [])"

definition intFlag :: "flag_set \<Rightarrow> string \<Rightarrow> int" where
  "intFlag fs n = (case map_of fs n of Some (IntV i) \<Rightarrow> i | _ \<Rightarrow> 0)"

section \<open>diff\<close>

definition diffBlock :: "bytes \<Rightarrow> bytes \<Rightarrow> nat \<Rightarrow> device_error + device \<Rightarrow> (device_error + device) option" where
  "diffBlock bs md off st =
     (case st of
        Inl e \<Rightarrow> Some (Inl e)
      | Inr d \<Rightarrow> do {
          a \<leftarrow> subslice bs off (off + BlockSize);
          b \<leftarrow> subslice md off (off + BlockSize);
          if a = b then Some (Inr d)
          else do {
            (d', n, e) \<leftarrow> WriteAt d b (int off);
            (case e of Some e \<Rightarrow> Some (Inl e) | None \<Rightarrow> Some (Inr d'))
          }
        })"

definition diffBlocks :: "bytes \<Rightarrow> bytes \<Rightarrow> device \<Rightarrow> (device_error + device) option" where
  "diffBlocks bs md d = for_list (diffBlock bs md) (range_lt 0 (length bs) BlockSize) (Inr d)"

definition diffFlags :: flag_set where
  "diffFlags = [(''o'', StrV []), (''tier'', IntV 0)]"

definition diffUsage :: string where
  "diffUsage = ''usage: bdev diff <base> <modified> -o <delta> [-tier 0|1|2]''"

definition diffImages ::
    "rs_lib \<Rightarrow> nat \<Rightarrow> nat list \<Rightarrow> nat list \<Rightarrow> host \<Rightarrow> messages \<Rightarrow> world
     \<Rightarrow> string \<Rightarrow> int \<Rightarrow> bytes \<Rightarrow> bytes \<Rightarrow> outcome option" where
  "diffImages rs procs sched hsched h ms w out t bs md = do {
     d \<leftarrow> New bs;
     r \<leftarrow> diffBlocks bs md d;
     (case r of
        Inl e \<Rightarrow> Some (fail 1 (devText ms e) w)
      | Inr d \<Rightarrow> do {
          s \<leftarrow> SerializeTier rs procs sched hsched d (word_of_int t);
          (case s of
             Inl e \<Rightarrow> Some (fail 1 (''serialize: '' @ fmtText ms e) w)
           | Inr blob \<Rightarrow>
               (case writeFile h w out blob of (ok, w') \<Rightarrow>
                  Some (if ok then exits 0 [] w' else fail 1 (osText ms out) w')))
        })
   }"

definition cmdDiff ::
    "rs_lib \<Rightarrow> nat \<Rightarrow> nat list \<Rightarrow> nat list \<Rightarrow> host \<Rightarrow> messages \<Rightarrow> world \<Rightarrow> string list \<Rightarrow> outcome option" where
  "cmdDiff rs procs sched hsched h ms w args =
     withArgs ms w diffFlags args 2 diffUsage (\<lambda>fs pos. do {
       let out = strFlag fs ''o'';
       let t = intFlag fs ''tier'';
       if out = [] then Some (fail 2 ''diff needs <base> <modified> and -o <delta>'' w)
       else if t < 0 \<or> 2 < t then Some (fail 2 ''-tier must be 0, 1 or 2'' w)
       else do {
         p0 \<leftarrow> elem_at pos 0;
         p1 \<leftarrow> elem_at pos 1;
         (case loadImage h ms w p0 of
            Inl m \<Rightarrow> Some (fail 1 m w)
          | Inr bs \<Rightarrow>
              (case loadImage h ms w p1 of
                 Inl m \<Rightarrow> Some (fail 1 m w)
               | Inr md \<Rightarrow>
                   if length bs \<noteq> length md
                   then Some (fail 1 (''base and modified must be equal length and '' @ dec BlockSize @ ''-aligned'') w)
                   else diffImages rs procs sched hsched h ms w out t bs md))
       }
     })"

section \<open>apply\<close>

definition applyFlags :: flag_set where
  "applyFlags = [(''o'', StrV [])]"

definition applyUsage :: string where
  "applyUsage = ''usage: bdev apply <base> <delta> -o <out>''"

definition partialMessage :: "partial_recovery \<Rightarrow> string" where
  "partialMessage q = ''bdev: partial recovery '' @ [CHR 0xE2, CHR 0x80, CHR 0x94] @ '' ''
     @ dec (length (BadBlocks q)) @ '' block(s) degraded to base: '' @ showInts (BadBlocks q)
     @ '' (unattributed loss: '' @ showBool (Truncated q) @ '')'' @ nl"

definition applyDelta ::
    "rs_lib \<Rightarrow> host \<Rightarrow> messages \<Rightarrow> world \<Rightarrow> string \<Rightarrow> bytes \<Rightarrow> bytes \<Rightarrow> outcome option" where
  "applyDelta rs h ms w out bs blob = do {
     r \<leftarrow> Deserialize rs blob bs;
     (case r of
        Inl e \<Rightarrow> Some (fail 1 (''deserialize: '' @ fmtText ms e) w)
      | Inr (d, rep) \<Rightarrow> do {
          (img, n, e) \<leftarrow> ReadAt d (replicate (length bs) 0) 0;
          (case e of
             Some e \<Rightarrow> Some (fail 1 (''read: '' @ devText ms e) w)
           | None \<Rightarrow>
               (case writeFile h w out img of (ok, w') \<Rightarrow>
                  Some (if \<not> ok then fail 1 (osText ms out) w'
                        else (case rep of
                            Some q \<Rightarrow> \<lparr>exitCode = 3, stdout = [], stderr = partialMessage q, finalFs = w'\<rparr>
                          | None \<Rightarrow> exits 0 [] w'))))
        })
   }"

definition cmdApply :: "rs_lib \<Rightarrow> host \<Rightarrow> messages \<Rightarrow> world \<Rightarrow> string list \<Rightarrow> outcome option" where
  "cmdApply rs h ms w args =
     withArgs ms w applyFlags args 2 applyUsage (\<lambda>fs pos. do {
       let out = strFlag fs ''o'';
       if out = [] then Some (fail 2 ''apply needs <base> <delta> and -o <out>'' w)
       else do {
         p0 \<leftarrow> elem_at pos 0;
         p1 \<leftarrow> elem_at pos 1;
         (case loadImage h ms w p0 of
            Inl m \<Rightarrow> Some (fail 1 m w)
          | Inr bs \<Rightarrow>
              (case loadBlob h ms w p1 of
                 Inl m \<Rightarrow> Some (fail 1 m w)
               | Inr blob \<Rightarrow> applyDelta rs h ms w out bs blob))
       }
     })"

section \<open>inspect\<close>

definition tierName :: "tier \<Rightarrow> string" where
  "tierName t =
     (if t = TierL0 then ''L0'' else if t = TierL1 then ''L1'' else if t = TierL2 then ''L2''
      else ''unknown('' @ dec (unat t) @ '')'')"

text \<open>The size the records stand for: int(BlockCount) * BlockSize, in 64 bits.\<close>

definition payloadSize :: "info \<Rightarrow> int" where
  "payloadSize i = i64 (sint (BlockCount i) * int BlockSize)"

definition payloadOverhead :: "info \<Rightarrow> int" where
  "payloadOverhead i = i64 (int (BlobSize i) - payloadSize i)"

definition inspectReport :: "info \<Rightarrow> string" where
  "inspectReport i =
     ''version: '' @ dec (unat (Version i)) @ nl
     @ ''tier: '' @ tierName (InfoTier i) @ nl
     @ ''blocks: '' @ dec (unat (BlockCount i)) @ nl
     @ ''blob-size: '' @ dec (BlobSize i) @ nl
     @ ''payload-overhead: '' @ decInt (payloadOverhead i) @ nl
     @ (if InfoBadBlocks i = [] then ''bad-blocks: none'' @ nl
        else ''bad-blocks: '' @ showInts (InfoBadBlocks i) @ nl)
     @ (if UnattributedLoss i > 0 then ''unattributed-loss: '' @ dec (UnattributedLoss i) @ nl else [])
     @ (if InfoTruncated i then ''truncated: true'' @ nl else [])"

definition cmdInspect :: "rs_lib \<Rightarrow> host \<Rightarrow> messages \<Rightarrow> world \<Rightarrow> string list \<Rightarrow> outcome option" where
  "cmdInspect rs h ms w args =
     (if \<exists>a\<in>set args. a = ''-h'' \<or> a = ''--help'' \<or> a = ''-help''
      then Some (exits 0 (''usage: bdev inspect <delta>'' @ nl) w)
      else if length args \<noteq> 1 then Some (fail 2 ''inspect needs exactly one <delta>'' w)
      else do {
        p \<leftarrow> elem_at args 0;
        (case loadBlob h ms w p of
           Inl m \<Rightarrow> Some (fail 1 m w)
         | Inr blob \<Rightarrow> do {
             (i, err) \<leftarrow> Inspect rs blob;
             (case err of
                Some e \<Rightarrow> Some (fail 1 (''inspect: '' @ fmtText ms e) w)
              | None \<Rightarrow>
                  Some (exits (if InfoBadBlocks i \<noteq> [] \<or> InfoTruncated i then 3 else 0) (inspectReport i) w))
           })
      })"

section \<open>main\<close>

definition mainUsage :: string where
  "mainUsage = ''usage:'' @ nl
     @ ''  bdev diff <base> <modified> -o <delta> [-tier 0|1|2]'' @ nl
     @ ''  bdev apply <base> <delta> -o <out>'' @ nl
     @ ''  bdev inspect <delta>'' @ nl @ nl
     @ ''exit codes: 0 ok '' @ [CHR 0xC2, CHR 0xB7] @ '' 1 error '' @ [CHR 0xC2, CHR 0xB7]
     @ '' 2 usage '' @ [CHR 0xC2, CHR 0xB7] @ '' 3 partial recovery'' @ nl"

definition bdevMain ::
    "rs_lib \<Rightarrow> nat \<Rightarrow> nat list \<Rightarrow> nat list \<Rightarrow> host \<Rightarrow> messages \<Rightarrow> world \<Rightarrow> string list \<Rightarrow> outcome option" where
  "bdevMain rs procs sched hsched h ms w argv =
     (case argv of
        _ # name # args \<Rightarrow>
          if name = ''-h'' \<or> name = ''--help'' \<or> name = ''-help'' then Some (exits 0 mainUsage w)
          else if name = ''diff'' then cmdDiff rs procs sched hsched h ms w args
          else if name = ''apply'' then cmdApply rs h ms w args
          else if name = ''inspect'' then cmdInspect rs h ms w args
          else Some \<lparr>exitCode = 2, stdout = [],
                     stderr = ''bdev: unknown command '' @ quoted ms [name] @ nl @ mainUsage, finalFs = w\<rparr>
      | _ \<Rightarrow> Some \<lparr>exitCode = 2, stdout = [], stderr = mainUsage, finalFs = w\<rparr>)"

end
