(* ===== verification/CliSpec.thy ===== *)
theory CliSpec
  imports Cli TierTheorems
begin

text \<open>
  Lemmas on the commands of src/cmd/bdev: what the block loop of diff leaves on the device, and what
  each command does once its arguments and its input files are known.
\<close>

section \<open>The loop of diff\<close>

lemma for_list_upt:
  assumes "P 0 s" and "\<And>i t. i < n \<Longrightarrow> P i t \<Longrightarrow> \<exists>t'. f (g i) t = Some t' \<and> P (Suc i) t'"
  shows "\<exists>s'. for_list f (map g [0..<n]) s = Some s' \<and> P n s'"
  using assms(2)
proof (induction n)
  case 0
  then show ?case using assms(1) by simp
next
  case (Suc n)
  then obtain t where "for_list f (map g [0..<n]) s = Some t" "P n t" by fastforce
  with Suc.prems [of n t] show ?case by (auto simp: for_list_append)
qed

definition blk :: "bytes \<Rightarrow> nat \<Rightarrow> bytes" where
  "blk xs i = take BlockSize (drop (i * BlockSize) xs)"

lemma blk_splice:
  assumes "Suc i * BlockSize \<le> length ys" "length xs = length ys"
  shows "overwrite (take (i * BlockSize) xs @ drop (i * BlockSize) ys) (i * BlockSize) (blk xs i)
    = take (Suc i * BlockSize) xs @ drop (Suc i * BlockSize) ys"
    and "blk xs i = blk ys i \<Longrightarrow> take (i * BlockSize) xs @ drop (i * BlockSize) ys
      = take (Suc i * BlockSize) xs @ drop (Suc i * BlockSize) ys"
proof -
  have len: "length (blk xs i) = BlockSize" using assms by (simp add: blk_def)
  have t: "take (Suc i * BlockSize) xs = take (i * BlockSize) xs @ blk xs i"
    by (simp add: blk_def take_add add.commute [of BlockSize])
  have d: "drop (i * BlockSize) ys = blk ys i @ drop (Suc i * BlockSize) ys"
    by (simp add: blk_def add.commute [of BlockSize] flip: drop_drop)
      (metis append_take_drop_id drop_drop add.commute)
  show "overwrite (take (i * BlockSize) xs @ drop (i * BlockSize) ys) (i * BlockSize) (blk xs i)
    = take (Suc i * BlockSize) xs @ drop (Suc i * BlockSize) ys"
    unfolding t using assms len by (simp add: overwrite_def add.commute [of BlockSize])
  show "take (i * BlockSize) xs @ drop (i * BlockSize) ys = take (Suc i * BlockSize) xs @ drop (Suc i * BlockSize) ys"
    if "blk xs i = blk ys i"
    unfolding t d that by simp
qed

text \<open>After \<open>i\<close> passes the device shows the first \<open>i\<close> blocks of the modified image.\<close>

definition diffed :: "bytes \<Rightarrow> bytes \<Rightarrow> nat \<Rightarrow> device_error + device \<Rightarrow> bool" where
  "diffed bs md i st \<longleftrightarrow> (\<exists>d. st = Inr d \<and> valid_device d \<and> base d = bs
     \<and> disk_image d = take (i * BlockSize) md @ drop (i * BlockSize) bs
     \<and> Mapping.keys (dirty d) = int ` {j. j < i \<and> blk md j \<noteq> blk bs j})"

lemma diffBlock_pass:
  assumes "valid_base bs" "length md = length bs" "i < nblocks bs" "diffed bs md i st"
  shows "\<exists>st'. diffBlock bs md (i * BlockSize) st = Some st' \<and> diffed bs md (Suc i) st'"
proof -
  obtain d where d: "st = Inr d" "valid_device d" "base d = bs"
    "disk_image d = take (i * BlockSize) md @ drop (i * BlockSize) bs"
    "Mapping.keys (dirty d) = int ` {j. j < i \<and> blk md j \<noteq> blk bs j}"
    using assms(4) by (auto simp: diffed_def)
  have le: "Suc i * BlockSize \<le> length bs"
    using assms(3) valid_base_length [OF assms(1)] mult_le_mono1 [of "Suc i" "nblocks bs" BlockSize] by simp
  then have sub: "subslice bs (i * BlockSize) (i * BlockSize + BlockSize) = Some (blk bs i)"
    "subslice md (i * BlockSize) (i * BlockSize + BlockSize) = Some (blk md i)"
    using assms(2) by (simp_all add: subslice_def blk_def)
  have run: "diffBlock bs md (i * BlockSize) st = (if blk bs i = blk md i then Some (Inr d)
      else do { (d', n, e) \<leftarrow> WriteAt d (blk md i) (int (i * BlockSize));
        (case e of Some e \<Rightarrow> Some (Inl e) | None \<Rightarrow> Some (Inr d')) })"
    by (simp add: diffBlock_def d(1) sub)
  note sp = blk_splice [OF le assms(2)]
  show ?thesis
  proof (cases "blk md i = blk bs i")
    case True
    have "{j. j < Suc i \<and> blk md j \<noteq> blk bs j} = {j. j < i \<and> blk md j \<noteq> blk bs j}"
      using True by (auto simp: less_Suc_eq)
    then have "diffed bs md (Suc i) (Inr d)" using d(2-5) sp(2) [OF True] by (simp add: diffed_def)
    then show ?thesis using run True by simp
  next
    case False
    have len: "length (blk md i) = BlockSize" using le assms(2) by (simp add: blk_def)
    have "checkRange d (length (blk md i)) (int (i * BlockSize)) = None"
      using assms(1) le d(3) by (auto simp: checkRange_eq valid_base_def len simp flip: of_nat_add of_nat_mult)
    from WriteAt_eq [OF d(2) this, unfolded nat_int len] obtain d' where
      d': "WriteAt d (blk md i) (int (i * BlockSize)) = Some (d', BlockSize, None)"
      "valid_device d'" "base d' = base d" "disk_image d' = overwrite (disk_image d) (i * BlockSize) (blk md i)"
      "Mapping.keys (dirty d') = Mapping.keys (dirty d) \<union> int ` {i * BlockSize div BlockSize..<(i * BlockSize + BlockSize) div BlockSize}"
      by blast
    have "(i * BlockSize + BlockSize) div BlockSize = Suc i" by simp
    then have "Mapping.keys (dirty d') = int ` {j. j < Suc i \<and> blk md j \<noteq> blk bs j}"
      using d'(5) d(5) False by (auto simp: less_Suc_eq)
    then have "diffed bs md (Suc i) (Inr d')" using d'(2,3,4) d(3,4) sp(1) by (simp add: diffed_def)
    then show ?thesis using run d'(1) False by auto
  qed
qed

lemma diffBlocks_device:
  assumes "valid_base bs" "length md = length bs"
  obtains d where "New bs = Some \<lparr>base = bs, dirty = Mapping.empty\<rparr>"
    "diffBlocks bs md \<lparr>base = bs, dirty = Mapping.empty\<rparr> = Some (Inr d)"
    "valid_device d" "base d = bs" "disk_image d = md"
    "Mapping.keys (dirty d) = int ` {j. j < nblocks bs \<and> blk md j \<noteq> blk bs j}"
proof -
  let ?d = "\<lparr>base = bs, dirty = Mapping.empty\<rparr>"
  have n: "range_lt 0 (length bs) BlockSize = map (\<lambda>i. i * BlockSize) [0..<nblocks bs]"
    using range_lt_mult [of BlockSize 0 "nblocks bs"] valid_base_length [OF assms(1)] by simp
  have "diffed bs md 0 (Inr ?d)"
    using assms by (simp add: diffed_def valid_device_fresh disk_image_fresh)
  from for_list_upt [where P = "diffed bs md" and f = "diffBlock bs md" and g = "\<lambda>i. i * BlockSize" and n = "nblocks bs",
      OF this diffBlock_pass [OF assms]]
  obtain st where st: "diffBlocks bs md ?d = Some st" "diffed bs md (nblocks bs) st"
    unfolding diffBlocks_def n by blast
  then obtain d where "st = Inr d" "valid_device d" "base d = bs" "disk_image d = md"
    "Mapping.keys (dirty d) = int ` {j. j < nblocks bs \<and> blk md j \<noteq> blk bs j}"
    using assms valid_base_length [OF assms(1)] by (auto simp: diffed_def)
  then show ?thesis using that st(1) New_valid [OF assms(1)] by blast
qed

section \<open>Arguments and input files\<close>

lemma parsed_two:
  assumes "parseArgs fs args 2 = Parsed fs' pos"
  obtains a b where "pos = [a, b]"
proof -
  have "length pos = 2" using assms by (auto simp: parseArgs_def split: prod.splits sum.splits if_splits)
  then show ?thesis using that by (auto simp: numeral_2_eq_2 length_Suc_conv)
qed

lemma loadImage_eq:
  "ReadFile h w p = Some b \<Longrightarrow> length b mod BlockSize = 0 \<Longrightarrow> loadImage h ms w p = Inr b"
  by (simp add: loadImage_def)

lemma loadImageD: "loadImage h ms w p = Inr b \<Longrightarrow> ReadFile h w p = Some b \<and> length b mod BlockSize = 0"
  by (auto simp: loadImage_def split: option.splits if_splits)

lemma loadBlob_eq: "ReadFile h w p = Some b \<Longrightarrow> loadBlob h ms w p = Inr b"
  by (simp add: loadBlob_def)

lemma loadBlobD: "loadBlob h ms w p = Inr b \<Longrightarrow> ReadFile h w p = Some b"
  by (auto simp: loadBlob_def split: option.splits)

lemma elem_at_pair [simp]: "elem_at [a, b] 0 = Some a" "elem_at [a, b] (Suc 0) = Some b"
  by (simp_all add: elem_at_def)

lemma outcome_simps [simp]:
  "exitCode (fail c msg w) = c" "finalFs (fail c msg w) = w" "stdout (fail c msg w) = []"
  "exitCode (exits c s w) = c" "finalFs (exits c s w) = w" "stdout (exits c s w) = s" "stderr (exits c s w) = []"
  by (simp_all add: fail_def exits_def)

text \<open>A command whose arguments do not parse ends with code 0 (help) or 2, and changes nothing.\<close>

lemma withArgs_cases:
  obtains (stop) r where "\<And>body. withArgs ms w fs args want synopsis body = Some r"
      "exitCode r = (if parseArgs fs args want = Help then 0 else 2)" "finalFs r = w"
      "\<And>fs' pos. parseArgs fs args want \<noteq> Parsed fs' pos"
  | (go) fs' pos where "parseArgs fs args want = Parsed fs' pos"
      "\<And>body. withArgs ms w fs args want synopsis body = body fs' pos"
  by (cases "parseArgs fs args want") (auto simp: withArgs_def)

section \<open>apply\<close>

lemma full_read:
  assumes "valid_device d"
  shows "ReadAt d (replicate (length (base d)) 0) 0 = Some (disk_image d, length (disk_image d), None)"
proof -
  have "checkRange d (length (replicate (length (base d)) (0 :: byte))) 0 = None"
    using assms by (simp add: checkRange_eq valid_device_def valid_base_def)
  from ReadAt_eq [OF assms this] show ?thesis by (simp add: disk_image_length [OF assms])
qed

text \<open>The outcome of apply for what Deserialize returned.\<close>

definition applied_outcome ::
    "host \<Rightarrow> messages \<Rightarrow> world \<Rightarrow> string \<Rightarrow> format_error + device \<times> partial_recovery option \<Rightarrow> outcome" where
  "applied_outcome h ms w out r =
     (case r of
        Inl e \<Rightarrow> fail 1 (''deserialize: '' @ fmtText ms e) w
      | Inr (d, rep) \<Rightarrow>
          (case writeFile h w out (disk_image d) of (ok, w') \<Rightarrow>
             if \<not> ok then fail 1 (osText ms out) w'
             else (case rep of
                 Some q \<Rightarrow> \<lparr>exitCode = 3, stdout = [], stderr = partialMessage q, finalFs = w'\<rparr>
               | None \<Rightarrow> exits 0 [] w')))"

lemma applyDelta_eq:
  assumes "Deserialize rs blob bs = Some r" "sound_result bs r"
  shows "applyDelta rs h ms w out bs blob = Some (applied_outcome h ms w out r)"
proof (cases r)
  case (Inl e)
  then show ?thesis using assms(1) by (simp add: applyDelta_def applied_outcome_def)
next
  case (Inr x)
  obtain d rep where x: "x = (d, rep)" by (cases x)
  then have "valid_device d" "base d = bs" using assms(2) Inr by (simp_all add: sound_result_def)
  then have "ReadAt d (replicate (length bs) 0) 0 = Some (disk_image d, length (disk_image d), None)"
    using full_read by blast
  then show ?thesis
    using assms(1) Inr x by (cases rep) (simp_all add: applyDelta_def applied_outcome_def split: prod.split)
qed

lemma applied_fs:
  assumes "exitCode (applied_outcome h ms w out r) \<in> {1, 2}"
  shows "finalFs (applied_outcome h ms w out r) = w"
  using assms os.wr_failed [of h w out]
  by (auto simp: applied_outcome_def split: sum.splits prod.splits option.splits if_splits)

lemma applied_ok:
  assumes "exitCode (applied_outcome h ms w out r) \<in> {0, 3}"
  obtains d rep where "r = Inr (d, rep)" "writeFile h w out (disk_image d) = (True, finalFs (applied_outcome h ms w out r))"
    "exitCode (applied_outcome h ms w out r) = (if rep = None then 0 else 3)"
  using assms
  by (auto simp: applied_outcome_def split: sum.splits prod.splits option.splits if_splits)

lemma cmdApply_parsed:
  assumes "parseArgs applyFlags args 2 = Parsed fs [bp, dp]"
  shows "cmdApply rs h ms w args =
    (if strFlag fs ''o'' = [] then Some (fail 2 ''apply needs <base> <delta> and -o <out>'' w)
     else (case loadImage h ms w bp of
         Inl m \<Rightarrow> Some (fail 1 m w)
       | Inr bs \<Rightarrow> (case loadBlob h ms w dp of
           Inl m \<Rightarrow> Some (fail 1 m w)
         | Inr blob \<Rightarrow> applyDelta rs h ms w (strFlag fs ''o'') bs blob)))"
  using assms by (simp add: cmdApply_def withArgs_def Let_def)

lemma cmdApply_go:
  assumes "parseArgs applyFlags args 2 = Parsed fs [bp, dp]" "strFlag fs ''o'' \<noteq> []"
    "ReadFile h w bp = Some bs" "length bs mod BlockSize = 0" "ReadFile h w dp = Some blob"
  shows "cmdApply rs h ms w args = applyDelta rs h ms w (strFlag fs ''o'') bs blob"
  using assms by (simp add: cmdApply_parsed loadImage_eq loadBlob_eq)

text \<open>Every run of apply either stops before the decoder, changing nothing, or is a decoding.\<close>

lemma cmdApply_cases:
  obtains (stop) r where "cmdApply rs h ms w args = Some r" "finalFs r = w"
      "exitCode r \<in> {0, 1, 2}" "exitCode r = 0 \<longrightarrow> parseArgs applyFlags args 2 = Help"
  | (go) fs bp dp bs blob where "parseArgs applyFlags args 2 = Parsed fs [bp, dp]" "strFlag fs ''o'' \<noteq> []"
      "ReadFile h w bp = Some bs" "length bs mod BlockSize = 0" "ReadFile h w dp = Some blob"
proof (cases rule: withArgs_cases [of ms w applyFlags args 2 applyUsage])
  case (stop r)
  have c: "cmdApply rs h ms w args = Some r" by (simp add: cmdApply_def stop(1))
  have "exitCode r \<in> {0, 1, 2}" "exitCode r = 0 \<longrightarrow> parseArgs applyFlags args 2 = Help"
    using stop(2) by (simp_all split: if_splits)
  with c stop(3) show ?thesis by (rule that(1))
next
  case (go fs pos)
  obtain bp dp where pos: "pos = [bp, dp]" using go(1) by (rule parsed_two)
  note run = cmdApply_parsed [OF go(1) [unfolded pos], of rs h ms w]
  show ?thesis
  proof (cases "\<exists>r. cmdApply rs h ms w args = Some r \<and> finalFs r = w \<and> exitCode r \<in> {1, 2}")
    case True
    then obtain r where r: "cmdApply rs h ms w args = Some r" "finalFs r = w" "exitCode r \<in> {1, 2}" by blast
    then show ?thesis using that(1) [OF r(1,2)] by auto
  next
    case False
    have o: "strFlag fs ''o'' \<noteq> []" using False unfolding run by auto
    obtain bs where bs: "loadImage h ms w bp = Inr bs"
      using False unfolding run by (cases "loadImage h ms w bp") (simp_all add: o)
    obtain blob where blob: "loadBlob h ms w dp = Inr blob"
      using False unfolding run by (cases "loadBlob h ms w dp") (simp_all add: o bs)
    note b = loadImageD [OF bs]
    show ?thesis
      by (rule that(2) [OF go(1) [unfolded pos] o conjunct1 [OF b] conjunct2 [OF b] loadBlobD [OF blob]])
  qed
qed

section \<open>diff\<close>

text \<open>The tier of \<open>-tier\<close>, and the codec it needs for the blocks that differ.\<close>

definition changed :: "bytes \<Rightarrow> bytes \<Rightarrow> nat set" where
  "changed bs md = {i. i < length bs div BlockSize \<and> blk md i \<noteq> blk bs i}"

definition diff_codec :: "rs_lib \<Rightarrow> int \<Rightarrow> bytes \<Rightarrow> bytes \<Rightarrow> bool" where
  "diff_codec rs t bs md \<longleftrightarrow> (t = 2 \<longrightarrow> rs_shape rs
     \<and> rs_contract rs (nat (fst (rsDefaultShards (card (changed bs md) * l1RecordSize)))) 2)"

lemma tier_flag:
  assumes "t = 0 \<or> t = 1 \<or> t = 2"
  shows "word_of_int t = TierL2 \<longleftrightarrow> t = 2" "word_of_int t = TierL0 \<or> word_of_int t = TierL1 \<or> word_of_int t = TierL2"
  using assms by (auto simp: TierL0_def TierL1_def TierL2_def)

lemma diff_serves:
  assumes "valid_device d" "Mapping.keys (dirty d) = int ` changed bs md" "t = 0 \<or> t = 1 \<or> t = 2"
    "diff_codec rs t bs md"
  shows "codec_serves rs d (word_of_int t)"
proof -
  have "card (Mapping.keys (dirty d)) = card (changed bs md)"
    unfolding assms(2) by (rule card_image) simp
  then have n: "nat (fst (rsDefaultShards (card (changed bs md) * l1RecordSize))) = default_data d"
    by (simp add: default_data_def payload_of_length [OF assms(1)])
  show ?thesis
  proof (cases "t = 2")
    case True
    then show ?thesis using assms(4) tier_flag(1) [OF assms(3)] by (simp add: codec_serves_def diff_codec_def n)
  next
    case False
    then show ?thesis using tier_flag [OF assms(3)] by (auto simp: codec_serves_def)
  qed
qed

lemma diffImages_cases:
  assumes "valid_base bs" "length bs < 2 ^ 62" "length md = length bs" "rs_shape rs"
  obtains d s where "valid_device d" "base d = bs" "disk_image d = md" "Mapping.keys (dirty d) = int ` changed bs md"
    "SerializeTier rs procs sched hsched d (word_of_int t) = Some s"
    "diffImages rs procs sched hsched h ms w out t bs md = Some (case s of
       Inl e \<Rightarrow> fail 1 (''serialize: '' @ fmtText ms e) w
     | Inr blob \<Rightarrow> (case writeFile h w out blob of (ok, w') \<Rightarrow> if ok then exits 0 [] w' else fail 1 (osText ms out) w'))"
proof -
  obtain d where d: "New bs = Some \<lparr>base = bs, dirty = Mapping.empty\<rparr>"
    "diffBlocks bs md \<lparr>base = bs, dirty = Mapping.empty\<rparr> = Some (Inr d)"
    "valid_device d" "base d = bs" "disk_image d = md" "Mapping.keys (dirty d) = int ` changed bs md"
    by (rule diffBlocks_device [OF assms(1,3)]) (simp only: changed_def nblocks_def)
  obtain s where s: "SerializeTier rs procs sched hsched d (word_of_int t) = Some s"
    using SerializeTier_returns [OF d(3) assms(4)] payload_small [OF d(3)] assms(2) d(4) by blast
  have "diffImages rs procs sched hsched h ms w out t bs md = Some (case s of
       Inl e \<Rightarrow> fail 1 (''serialize: '' @ fmtText ms e) w
     | Inr blob \<Rightarrow> (case writeFile h w out blob of (ok, w') \<Rightarrow> if ok then exits 0 [] w' else fail 1 (osText ms out) w'))"
    by (cases s) (simp_all add: diffImages_def d(1,2) s split: prod.split)
  then show ?thesis using that d(3-6) s by blast
qed

lemma cmdDiff_parsed:
  assumes "parseArgs diffFlags args 2 = Parsed fs [bp, mp]"
  shows "cmdDiff rs procs sched hsched h ms w args =
    (if strFlag fs ''o'' = [] then Some (fail 2 ''diff needs <base> <modified> and -o <delta>'' w)
     else if intFlag fs ''tier'' < 0 \<or> 2 < intFlag fs ''tier'' then Some (fail 2 ''-tier must be 0, 1 or 2'' w)
     else (case loadImage h ms w bp of
         Inl m \<Rightarrow> Some (fail 1 m w)
       | Inr bs \<Rightarrow> (case loadImage h ms w mp of
           Inl m \<Rightarrow> Some (fail 1 m w)
         | Inr md \<Rightarrow>
             if length bs \<noteq> length md
             then Some (fail 1 (''base and modified must be equal length and '' @ dec BlockSize @ ''-aligned'') w)
             else diffImages rs procs sched hsched h ms w (strFlag fs ''o'') (intFlag fs ''tier'') bs md)))"
  using assms by (simp add: cmdDiff_def withArgs_def Let_def)

lemma cmdDiff_cases:
  obtains (stop) r where "cmdDiff rs procs sched hsched h ms w args = Some r" "finalFs r = w"
      "exitCode r \<in> {0, 1, 2}" "exitCode r = 0 \<longrightarrow> parseArgs diffFlags args 2 = Help"
  | (go) fs bp mp bs md where "parseArgs diffFlags args 2 = Parsed fs [bp, mp]" "strFlag fs ''o'' \<noteq> []"
      "intFlag fs ''tier'' \<in> {0, 1, 2}" "ReadFile h w bp = Some bs" "length bs mod BlockSize = 0"
      "ReadFile h w mp = Some md" "length md = length bs"
      "cmdDiff rs procs sched hsched h ms w args
        = diffImages rs procs sched hsched h ms w (strFlag fs ''o'') (intFlag fs ''tier'') bs md"
proof (cases rule: withArgs_cases [of ms w diffFlags args 2 diffUsage])
  case (stop r)
  have c: "cmdDiff rs procs sched hsched h ms w args = Some r" by (simp add: cmdDiff_def stop(1))
  have "exitCode r \<in> {0, 1, 2}" "exitCode r = 0 \<longrightarrow> parseArgs diffFlags args 2 = Help"
    using stop(2) by (simp_all split: if_splits)
  with c stop(3) show ?thesis by (rule that(1))
next
  case (go fs pos)
  obtain bp mp where pos: "pos = [bp, mp]" using go(1) by (rule parsed_two)
  note run = cmdDiff_parsed [OF go(1) [unfolded pos], of rs procs sched hsched h ms w]
  show ?thesis
  proof (cases "\<exists>r. cmdDiff rs procs sched hsched h ms w args = Some r \<and> finalFs r = w \<and> exitCode r \<in> {1, 2}")
    case True
    then obtain r where r: "cmdDiff rs procs sched hsched h ms w args = Some r" "finalFs r = w" "exitCode r \<in> {1, 2}" by blast
    then show ?thesis using that(1) [OF r(1,2)] by auto
  next
    case False
    have o: "strFlag fs ''o'' \<noteq> []" using False unfolding run by auto
    have t: "\<not> (intFlag fs ''tier'' < 0 \<or> 2 < intFlag fs ''tier'')" using False unfolding run by (auto simp: o)
    obtain bs where bs: "loadImage h ms w bp = Inr bs"
      using False unfolding run if_not_P [OF o] if_not_P [OF t] by (cases "loadImage h ms w bp") simp_all
    obtain md where md: "loadImage h ms w mp = Inr md"
      using False unfolding run if_not_P [OF o] if_not_P [OF t] by (cases "loadImage h ms w mp") (simp_all add: bs)
    have l: "length bs = length md"
    proof (rule ccontr)
      assume n: "length bs \<noteq> length md"
      show False using False unfolding run if_not_P [OF o] if_not_P [OF t] bs md sum.case if_P [OF n] by simp
    qed
    have t': "intFlag fs ''tier'' \<in> {0, 1, 2}" using t by auto
    have "cmdDiff rs procs sched hsched h ms w args
        = diffImages rs procs sched hsched h ms w (strFlag fs ''o'') (intFlag fs ''tier'') bs md"
      unfolding run if_not_P [OF o] if_not_P [OF t] by (simp add: bs md l)
    note run' = this and b = loadImageD [OF bs] and m = loadImageD [OF md]
    show ?thesis
      by (rule that(2) [OF go(1) [unfolded pos] o t' conjunct1 [OF b] conjunct2 [OF b] conjunct1 [OF m] l [symmetric] run'])
  qed
qed

section \<open>What each command ends with\<close>

definition small_files :: "host \<Rightarrow> world \<Rightarrow> bool" where
  "small_files h w \<longleftrightarrow> (\<forall>p b. ReadFile h w p = Some b \<longrightarrow> int (length b) < 2 ^ 61)"

definition apply_done :: "rs_lib \<Rightarrow> host \<Rightarrow> world \<Rightarrow> string list \<Rightarrow> outcome \<Rightarrow> bool" where
  "apply_done rs h w args r \<longleftrightarrow> (\<exists>fs bp dp bs blob d rep. parseArgs applyFlags args 2 = Parsed fs [bp, dp]
     \<and> ReadFile h w bp = Some bs \<and> ReadFile h w dp = Some blob \<and> Deserialize rs blob bs = Some (Inr (d, rep))
     \<and> (exitCode r = 3 \<longleftrightarrow> rep \<noteq> None) \<and> writeFile h w (strFlag fs ''o'') (disk_image d) = (True, finalFs r))"

lemma cmdApply_outcome:
  assumes "rs_shape rs" "small_files h w"
  shows "\<exists>r. cmdApply rs h ms w args = Some r \<and> exitCode r \<in> {0, 1, 2, 3}
    \<and> (exitCode r \<in> {1, 2} \<longrightarrow> finalFs r = w)
    \<and> (exitCode r \<in> {0, 3} \<longrightarrow> parseArgs applyFlags args 2 = Help \<and> exitCode r = 0 \<and> finalFs r = w \<or> apply_done rs h w args r)"
proof (cases rule: cmdApply_cases [of rs h ms w args])
  case (stop r)
  then show ?thesis by (intro exI [of _ r]) auto
next
  case (go fs bp dp bs blob)
  have l: "int (length blob) < 2 ^ 61" "int (length bs) < 2 ^ 61" using assms(2) go(3,5) by (auto simp: small_files_def)
  then have "int (length bs) < 2 ^ 63" by simp
  from Deserialize_sound [OF assms(1) l(1) this] obtain res where
    res: "Deserialize rs blob bs = Some res" "sound_result bs res" by blast
  let ?r = "applied_outcome h ms w (strFlag fs ''o'') res"
  have run: "cmdApply rs h ms w args = Some ?r" unfolding cmdApply_go [OF go] by (rule applyDelta_eq [OF res])
  have "exitCode ?r \<in> {0, 1, 2, 3}" by (simp add: applied_outcome_def split: sum.split prod.split option.split)
  moreover have "apply_done rs h w args ?r" if ok: "exitCode ?r \<in> {0, 3}"
  proof -
    obtain d rep where d: "res = Inr (d, rep)" "writeFile h w (strFlag fs ''o'') (disk_image d) = (True, finalFs ?r)"
      "exitCode ?r = (if rep = None then 0 else 3)"
      using ok by (rule applied_ok)
    then have "Deserialize rs blob bs = Some (Inr (d, rep))" "exitCode ?r = 3 \<longleftrightarrow> rep \<noteq> None" using res(1) by simp_all
    then show ?thesis unfolding apply_done_def using go(1,3,5) d(2) by blast
  qed
  ultimately show ?thesis using run applied_fs by blast
qed

definition diff_done ::
    "rs_lib \<Rightarrow> nat \<Rightarrow> nat list \<Rightarrow> nat list \<Rightarrow> host \<Rightarrow> world \<Rightarrow> string list \<Rightarrow> outcome \<Rightarrow> bool" where
  "diff_done rs procs sched hsched h w args r \<longleftrightarrow> (\<exists>fs bp mp bs md d blob. parseArgs diffFlags args 2 = Parsed fs [bp, mp]
     \<and> ReadFile h w bp = Some bs \<and> ReadFile h w mp = Some md \<and> valid_device d \<and> base d = bs \<and> disk_image d = md
     \<and> Mapping.keys (dirty d) = int ` changed bs md
     \<and> SerializeTier rs procs sched hsched d (word_of_int (intFlag fs ''tier'')) = Some (Inr blob)
     \<and> writeFile h w (strFlag fs ''o'') blob = (True, finalFs r))"

lemma cmdDiff_outcome:
  assumes "rs_shape rs" "small_files h w"
  shows "\<exists>r. cmdDiff rs procs sched hsched h ms w args = Some r \<and> exitCode r \<in> {0, 1, 2}
    \<and> (exitCode r \<in> {1, 2} \<longrightarrow> finalFs r = w)
    \<and> (exitCode r = 0 \<longrightarrow> parseArgs diffFlags args 2 = Help \<and> finalFs r = w \<or> diff_done rs procs sched hsched h w args r)"
proof (cases rule: cmdDiff_cases [of rs procs sched hsched h ms w args])
  case (stop r)
  then show ?thesis by (intro exI [of _ r]) auto
next
  case (go fs bp mp bs md)
  have l: "int (length bs) < 2 ^ 61" using assms(2) go(4) by (auto simp: small_files_def)
  then have vb: "valid_base bs" "length bs < 2 ^ 62" using go(5) by (simp_all add: valid_base_def)
  let ?out = "strFlag fs ''o''" and ?t = "intFlag fs ''tier''"
  note images = diffImages_cases [OF vb go(7) assms(1), of procs sched hsched ?t h ms w ?out]
  obtain d s where d: "valid_device d" "base d = bs" "disk_image d = md" "Mapping.keys (dirty d) = int ` changed bs md"
    "SerializeTier rs procs sched hsched d (word_of_int ?t) = Some s"
    and run: "diffImages rs procs sched hsched h ms w ?out ?t bs md = Some (case s of
       Inl e \<Rightarrow> fail 1 (''serialize: '' @ fmtText ms e) w
     | Inr blob \<Rightarrow> (case writeFile h w ?out blob of (ok, w') \<Rightarrow> if ok then exits 0 [] w' else fail 1 (osText ms ?out) w'))"
    by (rule images)
  show ?thesis
  proof (cases s)
    case (Inl e)
    then show ?thesis unfolding go(8) run by (intro exI [of _ "fail 1 (''serialize: '' @ fmtText ms e) w"]) simp
  next
    case (Inr blob)
    obtain ok w' where wf: "writeFile h w ?out blob = (ok, w')" by (cases "writeFile h w ?out blob")
    show ?thesis
    proof (cases ok)
      case True
      then have ser: "SerializeTier rs procs sched hsched d (word_of_int ?t) = Some (Inr blob)"
        and wr: "writeFile h w ?out blob = (True, w')" using d(5) Inr wf by simp_all
      have "diff_done rs procs sched hsched h w args (exits 0 [] w')"
        unfolding diff_done_def outcome_simps
        by (intro exI conjI) (rule go(1), rule go(4), rule go(6), (rule d ser wr)+)
      then show ?thesis
        unfolding go(8) run using Inr wf True by (intro exI [of _ "exits 0 [] w'"]) simp
    next
      case False
      then have "w' = w" using os.wr_failed [of h w ?out blob] wf by simp
      then show ?thesis
        unfolding go(8) run using Inr wf False by (intro exI [of _ "fail 1 (osText ms ?out) w"]) simp
    qed
  qed
qed

definition help_flags :: "string set" where
  "help_flags = {''-h'', ''--help'', ''-help''}"

definition reports_loss :: "info \<Rightarrow> bool" where
  "reports_loss i \<longleftrightarrow> InfoBadBlocks i \<noteq> [] \<or> InfoTruncated i"

lemma cmdInspect_one:
  assumes "p \<notin> help_flags" "ReadFile h w p = Some blob"
  shows "cmdInspect rs h ms w [p] = do {
      (i, err) \<leftarrow> Inspect rs blob;
      (case err of Some e \<Rightarrow> Some (fail 1 (''inspect: '' @ fmtText ms e) w)
       | None \<Rightarrow> Some (exits (if reports_loss i then 3 else 0) (inspectReport i) w)) }"
proof -
  have h: "\<not> (\<exists>a\<in>set [p]. a = ''-h'' \<or> a = ''--help'' \<or> a = ''-help'')" using assms(1) by (simp add: help_flags_def)
  have e: "elem_at [p] 0 = Some p" by (simp add: elem_at_def)
  show ?thesis
    unfolding cmdInspect_def if_not_P [OF h] e reports_loss_def
    by (cases "Inspect rs blob") (simp_all add: loadBlob_eq [OF assms(2)] split: prod.split option.split, blast)
qed

lemma cmdInspect_outcome:
  assumes "rs_shape rs" "small_files h w"
  shows "\<exists>r. cmdInspect rs h ms w args = Some r \<and> exitCode r \<in> {0, 1, 2, 3} \<and> finalFs r = w
    \<and> (exitCode r = 3 \<longleftrightarrow> (\<exists>p blob i. args = [p] \<and> p \<notin> help_flags \<and> ReadFile h w p = Some blob
          \<and> Inspect rs blob = Some (i, None) \<and> reports_loss i \<and> stdout r = inspectReport i))"
proof (cases "\<exists>p blob. args = [p] \<and> p \<notin> help_flags \<and> ReadFile h w p = Some blob")
  case True
  then obtain p blob where p: "args = [p]" "p \<notin> help_flags" "ReadFile h w p = Some blob" by blast
  have "int (length blob) < 2 ^ 61" using assms(2) p(3) by (auto simp: small_files_def)
  from Inspect_sound [OF assms(1) this] obtain i err where i: "Inspect rs blob = Some (i, err)" by blast
  show ?thesis
    unfolding p(1) cmdInspect_one [OF p(2,3)] using p i by (cases err) auto
next
  case False
  then show ?thesis
    by (cases args rule: remdups_adj.cases) (auto simp: cmdInspect_def help_flags_def loadBlob_def elem_at_def split: option.split)
qed

end
