(* ===== verification/CliTheorems.thy ===== *)
theory CliTheorems
  imports CliSpec
begin

text \<open>
  Properties of the bdev command: diff followed by apply gives the modified image back, and what
  each command promises by its exit code.
\<close>

section \<open>diff, then apply\<close>

text \<open>
  C4: bdev diff followed by bdev apply reproduces the modified image, at every tier: both
  commands exit with 0 and print nothing, and the output file holds the image diff was given.
  The flags may stand anywhere on either command line, and diff and apply may run in different
  environments; at L2 the images are at most 1 GiB.
\<close>

theorem diff_then_apply:
  assumes "ReadFile h w basep = Some bs" "ReadFile h w modp = Some md"
    and "length bs mod BlockSize = 0" "length md = length bs" "length bs \<le> (if t = 2 then 2 ^ 30 else 2 ^ 61)"
    and "parseArgs diffFlags dargs 2 = Parsed df [basep, modp]" "parseArgs applyFlags aargs 2 = Parsed af [basep, delta]"
    and "strFlag df ''o'' = delta" "intFlag df ''tier'' = t" "t = 0 \<or> t = 1 \<or> t = 2" "delta \<noteq> []"
    and "strFlag af ''o'' = out" "out \<noteq> []"
    and "rs_shape rs" "t = 2 \<longrightarrow> rs_contract rs (nat (fst (rsDefaultShards (card {i. i < length bs div BlockSize
          \<and> take BlockSize (drop (i * BlockSize) md) \<noteq> take BlockSize (drop (i * BlockSize) bs)} * l1RecordSize)))) 2"
    and "writable h w delta" "evalSymlinks w basep \<noteq> Some (writeTarget w delta)"
  shows "\<exists>w1 blob. cmdDiff rs procs sched hsched h ms w dargs = Some (exits 0 [] w1)
    \<and> writeFile h w delta blob = (True, w1)
    \<and> (\<forall>g. readable g basep \<and> readable g delta \<and> readable g out \<and> writable g w1 out \<longrightarrow>
         (\<exists>w2. cmdApply rs g ms w1 aargs = Some (exits 0 [] w2) \<and> ReadFile g w2 out = Some md))"
proof -
  have vb: "valid_base bs" "length bs < 2 ^ 62" using assms(3,5) by (simp_all add: valid_base_def split: if_splits)
  have dc: "diff_codec rs t bs md" using assms(14,15) by (simp add: diff_codec_def changed_def blk_def)
  note images = diffImages_cases [OF vb assms(4,14), of procs sched hsched t h ms w delta]
  obtain d s where d: "valid_device d" "base d = bs" "disk_image d = md" "Mapping.keys (dirty d) = int ` changed bs md"
    "SerializeTier rs procs sched hsched d (word_of_int t) = Some s"
    and run: "diffImages rs procs sched hsched h ms w delta t bs md = Some (case s of
       Inl e \<Rightarrow> fail 1 (''serialize: '' @ fmtText ms e) w
     | Inr blob \<Rightarrow> (case writeFile h w delta blob of (ok, w') \<Rightarrow> if ok then exits 0 [] w' else fail 1 (osText ms delta) w'))"
    by (rule images)
  have serves: "valid_device d \<and> length (base d) < 2 ^ 62 \<and> codec_serves rs d (word_of_int t)"
    using d(1,2) vb(2) diff_serves [OF d(1,4) assms(10) dc] by simp
  obtain blob where s: "s = Inr blob" using tiers.enc_once [OF serves] d(5) by (metis option.inject)
  have admits: "word_of_int t = TierL2 \<longrightarrow> length blob \<le> 2 ^ 33"
    using parity_blob_small [of d rs procs sched hsched blob] serves d(2,5) s assms(5) tier_flag(1) [OF assms(10)] by auto
  note ret = tiers.image_back [OF serves d(5) [unfolded s] admits, unfolded d(2,3)]
  obtain w1 where w1: "writeFile h w delta blob = (True, w1)"
    using assms(16) writeFile_ok [of h w delta blob] by (metis prod.collapse)
  have "\<not> (t < 0 \<or> 2 < t)" using assms(10) by auto
  then have "cmdDiff rs procs sched hsched h ms w dargs = Some (exits 0 [] w1)"
    using assms(8,9,11) loadImage_eq [OF assms(1,3)] loadImage_eq [OF assms(2)] assms(3,4) run
    by (simp add: cmdDiff_parsed [OF assms(6)] s w1)
  moreover have "\<exists>w2. cmdApply rs g ms w1 aargs = Some (exits 0 [] w2) \<and> ReadFile g w2 out = Some md"
    if g: "readable g basep \<and> readable g delta \<and> readable g out \<and> writable g w1 out" for g
  proof -
    have "ReadFile g w basep = Some bs" using assms(1) g by (simp add: ReadFile_def split: if_splits)
    then have rb: "ReadFile g w1 basep = Some bs" using os.rd_apart [OF w1 assms(17)] by blast
    have rd: "ReadFile g w1 delta = Some blob" using os.rd_written [OF w1] g by blast
    obtain w2 where w2: "writeFile g w1 out md = (True, w2)"
      using g writeFile_ok [of g w1 out md] by (metis prod.collapse)
    have "sound_result bs (Inr (d, None))" using d(1,2) by (simp add: sound_result_def sound_report_def)
    from applyDelta_eq [OF ret(1) this] have "applyDelta rs g ms w1 out bs blob = Some (exits 0 [] w2)"
      by (simp add: applied_outcome_def d(3) w2)
    then have "cmdApply rs g ms w1 aargs = Some (exits 0 [] w2)"
      using cmdApply_go [OF assms(7) _ rb assms(3) rd] assms(12,13) by simp
    then show ?thesis using os.rd_written [OF w2] g by blast
  qed
  ultimately show ?thesis using w1 by blast
qed

definition sample_image :: bytes where
  "sample_image = sample_block @ replicate BlockSize 0"

definition sample_world :: world where
  "sample_world = \<lparr>files = [''base'' \<mapsto> sample_base, ''mod'' \<mapsto> sample_image], links = Map.empty\<rparr>"

definition sample_host :: host where
  "sample_host = \<lparr>readable = (\<lambda>_. True), nonce = ''7'', fault = None\<rparr>"

definition sample_messages :: messages where
  "sample_messages = \<lparr>osText = (\<lambda>p. p), fmtText = (\<lambda>_. []), devText = (\<lambda>_. []), flagText = (\<lambda>_. []), quoted = concat\<rparr>"

lemma sample_image_blocks:
  "{i. i < length sample_base div BlockSize \<and> take BlockSize (drop (i * BlockSize) sample_image)
      \<noteq> take BlockSize (drop (i * BlockSize) sample_base)} = {0}"
  "length sample_image = length sample_base" "length sample_base = 2 * 4096"
proof -
  have n: "length sample_base div BlockSize = 2" using sample_base_valid(2) by (simp add: nblocks_def)
  have "take BlockSize (drop (0 * BlockSize) sample_image) \<noteq> take BlockSize (drop (0 * BlockSize) sample_base)"
    by (simp add: sample_image_def sample_base_def sample_block_def replicate_eq_replicate)
  moreover have "take BlockSize (drop (1 * BlockSize) sample_image) = take BlockSize (drop (1 * BlockSize) sample_base)"
    by (simp add: sample_image_def sample_base_def)
  ultimately show "{i. i < length sample_base div BlockSize \<and> take BlockSize (drop (i * BlockSize) sample_image)
      \<noteq> take BlockSize (drop (i * BlockSize) sample_base)} = {0}"
    unfolding n by (auto simp: less_2_cases_iff)
qed (simp_all add: sample_image_def sample_base_def BlockSize_def)

lemma sample_world_facts:
  "ReadFile sample_host sample_world ''base'' = Some sample_base" "ReadFile sample_host sample_world ''mod'' = Some sample_image"
  "writable sample_host sample_world ''d''" "writeTarget sample_world ''d'' = ''d''"
  "evalSymlinks sample_world ''base'' = Some ''base''"
proof -
  have c: "chase n sample_world p = (if files sample_world p = None then None else Some p)" for n p
    by (cases n) (simp_all add: sample_world_def)
  then have e: "evalSymlinks sample_world p = (if files sample_world p = None then None else Some p)" for p
    by (simp add: evalSymlinks_def)
  show "ReadFile sample_host sample_world ''base'' = Some sample_base" "ReadFile sample_host sample_world ''mod'' = Some sample_image"
    "evalSymlinks sample_world ''base'' = Some ''base''" "writeTarget sample_world ''d'' = ''d''"
    by (simp_all add: ReadFile_def e writeTarget_def sample_host_def) (simp_all add: sample_world_def)
  then show "writable sample_host sample_world ''d''"
    by (simp add: writable_def tempFor_def sample_host_def) (simp add: sample_world_def)
qed

theorem diff_then_apply_witness:
  "\<exists>w1 w2. cmdDiff replica_rs 4 [1, 0] [] sample_host sample_messages sample_world [''base'', ''-tier=2'', ''mod'', ''-o'', ''d''] = Some (exits 0 [] w1)
    \<and> cmdApply replica_rs sample_host sample_messages w1 [''-o'', ''x'', ''base'', ''d''] = Some (exits 0 [] w2)
    \<and> ReadFile sample_host w2 ''x'' = Some sample_image"
proof -
  have pd: "parseArgs diffFlags [''base'', ''-tier=2'', ''mod'', ''-o'', ''d''] 2
      = Parsed [(''o'', StrV ''d''), (''tier'', IntV 2)] [''base'', ''mod'']" by code_simp
  have pa: "parseArgs applyFlags [''-o'', ''x'', ''base'', ''d''] 2 = Parsed [(''o'', StrV ''x'')] [''base'', ''d'']" by code_simp
  have rs: "(2 :: int) = 2 \<longrightarrow> rs_contract replica_rs (nat (fst (rsDefaultShards (card {i. i < length sample_base div BlockSize
          \<and> take BlockSize (drop (i * BlockSize) sample_image) \<noteq> take BlockSize (drop (i * BlockSize) sample_base)} * l1RecordSize)))) 2"
    using sample_serves(2) unfolding sample_image_blocks(1) by (simp add: sample_payload(1))
  have sz: "length sample_base \<le> (if (2 :: int) = 2 then 2 ^ 30 else 2 ^ 61)" by (simp add: sample_image_blocks(3))
  have ne: "evalSymlinks sample_world ''base'' \<noteq> Some (writeTarget sample_world ''d'')" by (simp add: sample_world_facts)
  have fl: "strFlag [(''o'', StrV ''d''), (''tier'', IntV 2)] ''o'' = ''d''" "intFlag [(''o'', StrV ''d''), (''tier'', IntV 2)] ''tier'' = 2"
    "(2 :: int) = 0 \<or> (2 :: int) = 1 \<or> (2 :: int) = 2" "''d'' \<noteq> []" "strFlag [(''o'', StrV ''x'')] ''o'' = ''x''" "''x'' \<noteq> []"
    by (simp_all add: strFlag_def intFlag_def)
  obtain w1 blob where w1:
    "cmdDiff replica_rs 4 [1, 0] [] sample_host sample_messages sample_world [''base'', ''-tier=2'', ''mod'', ''-o'', ''d''] = Some (exits 0 [] w1)"
    "writeFile sample_host sample_world ''d'' blob = (True, w1)"
    "\<forall>g. readable g ''base'' \<and> readable g ''d'' \<and> readable g ''x'' \<and> writable g w1 ''x'' \<longrightarrow>
       (\<exists>w2. cmdApply replica_rs g sample_messages w1 [''-o'', ''x'', ''base'', ''d''] = Some (exits 0 [] w2) \<and> ReadFile g w2 ''x'' = Some sample_image)"
    using diff_then_apply [OF sample_world_facts(1,2) sample_base_valid(3) sample_image_blocks(2) sz pd pa fl replica_shape rs sample_world_facts(3) ne]
    by blast
  have l: "files w1 = (files sample_world)(''d'' := Some blob)" "links w1 = Map.empty"
    using write_world(1,2) [OF w1(2)] sample_world_facts(4) by (simp_all add: sample_world_def)
  then have "evalSymlinks w1 ''x'' = None" by (simp add: evalSymlinks_def numeral_eq_Suc sample_world_def)
  then have "writable sample_host w1 ''x''"
    using l by (simp add: writable_def writeTarget_def tempFor_def sample_host_def sample_world_def)
  moreover have "readable sample_host p" for p by (simp add: sample_host_def)
  ultimately show ?thesis using w1(1,3) by blast
qed

section \<open>Exit codes\<close>

text \<open>
  C11: what bdev apply promises. Whatever the arguments and the files, it ends with one of the four
  codes; with 1 or 2 the file system is unchanged; with 0 or 3 (help apart) the output holds the
  whole image of the device that Deserialize returned, and the code is 3 exactly when a partial
  recovery was reported.
\<close>

theorem apply_outcome:
  assumes "rs_shape rs" "\<forall>p b. ReadFile h w p = Some b \<longrightarrow> int (length b) < 2 ^ 61"
  shows "\<exists>r. cmdApply rs h ms w args = Some r \<and> exitCode r \<in> {0, 1, 2, 3}
    \<and> (exitCode r \<in> {1, 2} \<longrightarrow> finalFs r = w)
    \<and> (exitCode r \<in> {0, 3} \<longrightarrow> parseArgs applyFlags args 2 = Help \<and> exitCode r = 0 \<and> finalFs r = w
       \<or> (\<exists>fs bp dp bs blob d rep. parseArgs applyFlags args 2 = Parsed fs [bp, dp]
            \<and> ReadFile h w bp = Some bs \<and> ReadFile h w dp = Some blob \<and> Deserialize rs blob bs = Some (Inr (d, rep))
            \<and> (exitCode r = 3 \<longleftrightarrow> rep \<noteq> None) \<and> writeFile h w (strFlag fs ''o'') (disk_image d) = (True, finalFs r)))"
proof -
  have "small_files h w" using assms(2) by (simp add: small_files_def)
  from cmdApply_outcome [OF assms(1) this] show ?thesis unfolding apply_done_def .
qed

lemma sample_files_small:
  "\<forall>p b. ReadFile sample_host sample_world p = Some b \<longrightarrow> int (length b) < 2 ^ 61"
proof (intro allI impI)
  fix p b assume "ReadFile sample_host sample_world p = Some b"
  then have "b = sample_base \<or> b = sample_image"
    by (auto simp: ReadFile_def sample_world_def split: if_splits option.splits)
  then show "int (length b) < 2 ^ 61" using sample_image_blocks(2,3) by auto
qed

theorem apply_outcome_witness:
  "\<exists>r. cmdApply replica_rs sample_host sample_messages sample_world [''base'', ''mod'', ''-o'', ''x''] = Some r
    \<and> (exitCode r \<in> {1, 2} \<longrightarrow> finalFs r = sample_world)"
  using apply_outcome [where rs = replica_rs and h = sample_host and w = sample_world and ms = sample_messages
      and args = "[''base'', ''mod'', ''-o'', ''x'']", OF replica_shape sample_files_small]
  by blast

text \<open>
  C36: what bdev diff promises. It ends with 0, 1 or 2; with 1 or 2 the file system is unchanged;
  with 0 (help apart) the output holds the serialization, at the tier asked for, of a device over
  the base that presents the modified image and whose overlay is exactly the blocks that differ.
\<close>

theorem diff_outcome:
  assumes "rs_shape rs" "\<forall>p b. ReadFile h w p = Some b \<longrightarrow> int (length b) < 2 ^ 61"
  shows "\<exists>r. cmdDiff rs procs sched hsched h ms w args = Some r \<and> exitCode r \<in> {0, 1, 2}
    \<and> (exitCode r \<in> {1, 2} \<longrightarrow> finalFs r = w)
    \<and> (exitCode r = 0 \<longrightarrow> parseArgs diffFlags args 2 = Help \<and> finalFs r = w
       \<or> (\<exists>fs bp mp bs md d blob. parseArgs diffFlags args 2 = Parsed fs [bp, mp]
            \<and> ReadFile h w bp = Some bs \<and> ReadFile h w mp = Some md
            \<and> valid_device d \<and> base d = bs \<and> disk_image d = md
            \<and> Mapping.keys (dirty d) = int ` {i. i < length bs div BlockSize
                \<and> take BlockSize (drop (i * BlockSize) md) \<noteq> take BlockSize (drop (i * BlockSize) bs)}
            \<and> SerializeTier rs procs sched hsched d (word_of_int (intFlag fs ''tier'')) = Some (Inr blob)
            \<and> writeFile h w (strFlag fs ''o'') blob = (True, finalFs r)))"
proof -
  have "small_files h w" using assms(2) by (simp add: small_files_def)
  from cmdDiff_outcome [OF assms(1) this] show ?thesis unfolding diff_done_def changed_def blk_def .
qed

theorem diff_outcome_witness:
  "\<exists>r. cmdDiff replica_rs 4 [1, 0] [] sample_host sample_messages sample_world [''base'', ''mod'', ''-tier'', ''3'', ''-o'', ''x''] = Some r
    \<and> (exitCode r \<in> {1, 2} \<longrightarrow> finalFs r = sample_world)"
  using diff_outcome [where rs = replica_rs and h = sample_host and w = sample_world and ms = sample_messages and procs = 4 and sched = "[1, 0]"
      and hsched = "[]" and args = "[''base'', ''mod'', ''-tier'', ''3'', ''-o'', ''x'']", OF replica_shape sample_files_small]
  by blast

text \<open>
  C37: what bdev inspect promises. It ends with one of the four codes and never changes the file
  system; the code is 3 exactly when Inspect returned without an error and reported loss, and then
  the report is on standard output.
\<close>

theorem inspect_outcome:
  assumes "rs_shape rs" "\<forall>p b. ReadFile h w p = Some b \<longrightarrow> int (length b) < 2 ^ 61"
  shows "\<exists>r. cmdInspect rs h ms w args = Some r \<and> exitCode r \<in> {0, 1, 2, 3} \<and> finalFs r = w
    \<and> (exitCode r = 3 \<longleftrightarrow> (\<exists>p blob i. args = [p] \<and> p \<notin> {''-h'', ''--help'', ''-help''} \<and> ReadFile h w p = Some blob
          \<and> Inspect rs blob = Some (i, None) \<and> (InfoBadBlocks i \<noteq> [] \<or> InfoTruncated i) \<and> stdout r = inspectReport i))"
proof -
  have "small_files h w" using assms(2) by (simp add: small_files_def)
  from cmdInspect_outcome [OF assms(1) this] show ?thesis unfolding help_flags_def reports_loss_def .
qed

theorem inspect_outcome_witness:
  "\<exists>r. cmdInspect replica_rs sample_host sample_messages sample_world [''base''] = Some r \<and> finalFs r = sample_world"
  using inspect_outcome [where rs = replica_rs and h = sample_host and w = sample_world and ms = sample_messages
      and args = "[''base'']", OF replica_shape sample_files_small]
  by blast



text \<open>
  C39: main ends for every command line, with one of the documented codes; with 1 or 2 nothing has
  changed, and with any code at most one path has: the target of the one atomic write.
\<close>

theorem bdevMain_ends:
  assumes "rs_shape rs" "\<forall>p b. ReadFile h w p = Some b \<longrightarrow> int (length b) < 2 ^ 61"
  shows "\<exists>r. bdevMain rs procs sched hsched h ms w argv = Some r \<and> exitCode r \<in> {0, 1, 2, 3}
    \<and> (exitCode r \<in> {1, 2} \<longrightarrow> finalFs r = w)
    \<and> (\<exists>t. \<forall>p. p \<noteq> t \<longrightarrow> files (finalFs r) p = files w p \<and> links (finalFs r) p = links w p)"
proof -
  have sm: "small_files h w" using assms(2) by (simp add: small_files_def)
  have one: "\<exists>t. \<forall>p. p \<noteq> t \<longrightarrow> files w' p = files w p \<and> links w' p = links w p"
    if "w' = w \<or> (\<exists>q b. writeFile h w q b = (True, w'))" for w'
    using that write_world(1,2) [of h w] by (metis fun_upd_other)
  let ?R = "\<lambda>r. exitCode r \<in> {0, 1, 2, 3} \<and> (exitCode r \<in> {1, 2} \<longrightarrow> finalFs r = w)
    \<and> (finalFs r = w \<or> (\<exists>q b. writeFile h w q b = (True, finalFs r)))"
  have a: "\<exists>r. cmdApply rs h ms w args = Some r \<and> ?R r" for args
  proof -
    obtain r where r: "cmdApply rs h ms w args = Some r" "exitCode r \<in> {0, 1, 2, 3}" "exitCode r \<in> {1, 2} \<longrightarrow> finalFs r = w"
      "exitCode r \<in> {0, 3} \<longrightarrow> parseArgs applyFlags args 2 = Help \<and> exitCode r = 0 \<and> finalFs r = w \<or> apply_done rs h w args r"
      using cmdApply_outcome [OF assms(1) sm, of ms args] by blast
    then show ?thesis unfolding apply_done_def by blast
  qed
  have d: "\<exists>r. cmdDiff rs procs sched hsched h ms w args = Some r \<and> ?R r" for args
  proof -
    obtain r where r: "cmdDiff rs procs sched hsched h ms w args = Some r" "exitCode r \<in> {0, 1, 2}" "exitCode r \<in> {1, 2} \<longrightarrow> finalFs r = w"
      "exitCode r = 0 \<longrightarrow> parseArgs diffFlags args 2 = Help \<and> finalFs r = w \<or> diff_done rs procs sched hsched h w args r"
      using cmdDiff_outcome [OF assms(1) sm, of procs sched hsched ms args] by blast
    then show ?thesis unfolding diff_done_def by blast
  qed
  have i: "\<exists>r. cmdInspect rs h ms w args = Some r \<and> ?R r" for args
    using cmdInspect_outcome [OF assms(1) sm, of ms args] by blast
  have "\<exists>r. bdevMain rs procs sched hsched h ms w argv = Some r \<and> ?R r"
    using a d i by (auto simp: bdevMain_def split: list.split)
  then show ?thesis using one by blast
qed

theorem bdevMain_ends_witness:
  "\<exists>r. bdevMain replica_rs 4 [1, 0] [] sample_host sample_messages sample_world [''bdev'', ''diff'', ''base'', ''mod'', ''-o'', ''x''] = Some r
    \<and> exitCode r \<in> {0, 1, 2, 3}"
  using bdevMain_ends [where rs = replica_rs and h = sample_host and w = sample_world and ms = sample_messages and procs = 4
      and sched = "[1, 0]" and hsched = "[]" and argv = "[''bdev'', ''diff'', ''base'', ''mod'', ''-o'', ''x'']",
      OF replica_shape sample_files_small]
  by blast

section \<open>What inspect prints\<close>

text \<open>An intact header, no body, and a count of 2^52 blocks.\<close>

definition hostile_blob :: bytes where
  "hostile_blob = header TierL0 (2 ^ 52)"

lemma hostile_info:
  "Inspect rs hostile_blob = Some (\<lparr>Version = 1, InfoTier = TierL0, BlockCount = of_nat (2 ^ 52), BlobSize = 18,
     InfoBadBlocks = [], UnattributedLoss = 1, InfoTruncated = True\<rparr>, None)"
proof -
  note f = header_fields [of TierL0 "2 ^ 52" "[]", unfolded append_Nil2, folded hostile_blob_def]
  have l: "length hostile_blob = 18" by (simp add: hostile_blob_def headerSize_def)
  then have "headerSize \<le> length hostile_blob" "int (length hostile_blob) < 2 ^ 63" by (simp_all add: headerSize_def)
  from Inspect_record_tier [OF this(1) f(1,2) this(2) f(3) [symmetric] _ f(5) [symmetric] f(4) [symmetric], of rs]
  have "Inspect rs hostile_blob = Some (info_of hostile_blob (layout_bad TierL0 [] (of_nat (2 ^ 52)))
      (layout_unattr TierL0 [] (of_nat (2 ^ 52))) (\<not> exact_body TierL0 [] (of_nat (2 ^ 52))), None)"
    by (simp add: TierL0_def TierL1_def)
  moreover have "layout_bad TierL0 [] (of_nat (2 ^ 52)) = []" "layout_unattr TierL0 [] (of_nat (2 ^ 52)) = 1"
    "\<not> exact_body TierL0 [] (of_nat (2 ^ 52))"
    by (simp_all add: layout_bad_def layout_unattr_def exact_body_def cut_short_def cut_tail_def l0RecordSize_def)
  moreover have "hostile_blob ! 4 = 1" using f(1) by (simp add: hdr_magic_ok_def formatVersion_def)
  ultimately show ?thesis using f(3,4) l by (simp add: info_of_def)
qed

lemma dec_digits: "dec 4503599627370496 = ''4503599627370496''" "dec 18 = ''18''" "dec (Suc 0) = ''1''" "dec 1 = ''1''"
  by (simp_all add: dec.simps char_of_def bit_0)

lemma i64_mod: "i64 x mod 2 ^ 64 = x mod 2 ^ 64"
  by (simp add: i64_def mod_diff_left_eq)

lemma i64_cong: "x mod 2 ^ 64 = y mod 2 ^ 64 \<Longrightarrow> i64 x = i64 y"
  unfolding i64_def by (metis mod_add_left_eq)

lemma overhead_eq: "payloadOverhead i = i64 (int (BlobSize i) - int (unat (BlockCount i) * BlockSize))"
proof -
  let ?b = "BlockCount i"
  have "sint ?b mod 2 ^ 64 = uint ?b mod 2 ^ 64" by (simp add: uint_sint take_bit_eq_mod)
  then have "sint ?b * int BlockSize mod 2 ^ 64 = uint ?b * int BlockSize mod 2 ^ 64"
    by (rule mod_mult_cong) (rule refl)
  then have "payloadSize i mod 2 ^ 64 = int (unat ?b * BlockSize) mod 2 ^ 64"
    unfolding payloadSize_def i64_mod by simp
  then show ?thesis unfolding payloadOverhead_def by (intro i64_cong mod_diff_cong refl)
qed

lemma hostile_overhead:
  "BlobSize i = 18 \<Longrightarrow> BlockCount i = 2 ^ 52 \<Longrightarrow> decInt (payloadOverhead i) = ''18''"
  by (simp add: overhead_eq i64_def BlockSize_def decInt_def dec_digits)

text \<open>
  C40: the payload overhead inspect prints is the blob size less int(BlockCount) * BlockSize, computed
  in 64 bits. It is the true difference exactly when the header claims few enough blocks; the count
  of a damaged or hostile blob is not bounded: for an 18-byte blob that claims 2^52 blocks inspect
  prints an overhead of 18 bytes, as if the blocks took no space.
\<close>

theorem overhead_wraps:
  assumes "BlobSize i < 2 ^ 61" "ReadFile h w p = Some (header TierL0 (2 ^ 52))" "p \<notin> {''-h'', ''--help'', ''-help''}"
  shows "(payloadOverhead i = int (BlobSize i) - int (unat (BlockCount i) * BlockSize)
      \<longleftrightarrow> int (unat (BlockCount i) * BlockSize) \<le> 2 ^ 63 + int (BlobSize i))
    \<and> cmdInspect rs h ms w [p] = Some (exits 3
        (''version: 1'' @ nl @ ''tier: L0'' @ nl @ ''blocks: 4503599627370496'' @ nl @ ''blob-size: 18'' @ nl
         @ ''payload-overhead: 18'' @ nl @ ''bad-blocks: none'' @ nl @ ''unattributed-loss: 1'' @ nl @ ''truncated: true'' @ nl) w)"
proof
  let ?n = "unat (BlockCount i)" and ?B = "int (BlobSize i)"
  let ?x = "?B - int (?n * BlockSize)"
  have B: "?B < 2 ^ 61" using assms(1) by (metis of_nat_less_iff of_nat_numeral of_nat_power)
  have "i64 ?x = ?x \<longleftrightarrow> - (2 ^ 63) \<le> ?x"
  proof
    show "i64 ?x = ?x \<Longrightarrow> - (2 ^ 63) \<le> ?x" using i64_in_range [of ?x] by (simp add: in_i64_def)
    have "a - b < 2 ^ 63" if "0 \<le> b" "a < 2 ^ 61" for a b :: int using that by simp
    then have "?x < 2 ^ 63" using of_nat_0_le_iff B by blast
    then show "- (2 ^ 63) \<le> ?x \<Longrightarrow> i64 ?x = ?x" by (intro i64_id)
  qed
  then show "payloadOverhead i = ?B - int (?n * BlockSize) \<longleftrightarrow> int (?n * BlockSize) \<le> 2 ^ 63 + ?B"
    unfolding overhead_eq by linarith
  have "p \<notin> help_flags" using assms(3) by (simp add: help_flags_def)
  from cmdInspect_one [OF this assms(2) [folded hostile_blob_def]]
  show "cmdInspect rs h ms w [p] = Some (exits 3
        (''version: 1'' @ nl @ ''tier: L0'' @ nl @ ''blocks: 4503599627370496'' @ nl @ ''blob-size: 18'' @ nl
         @ ''payload-overhead: 18'' @ nl @ ''bad-blocks: none'' @ nl @ ''unattributed-loss: 1'' @ nl @ ''truncated: true'' @ nl) w)"
    by (simp add: hostile_info reports_loss_def inspectReport_def tierName_def hostile_overhead dec_digits)
qed

theorem overhead_wraps_witness:
  "payloadOverhead \<lparr>Version = 1, InfoTier = TierL1, BlockCount = 1, BlobSize = 4126, InfoBadBlocks = [], UnattributedLoss = 0,
      InfoTruncated = False\<rparr> = 30
    \<and> (\<exists>r. cmdInspect replica_rs sample_host sample_messages \<lparr>files = [''h'' \<mapsto> header TierL0 (2 ^ 52)], links = Map.empty\<rparr> [''h''] = Some r
      \<and> exitCode r = 3 \<and> finalFs r = \<lparr>files = [''h'' \<mapsto> header TierL0 (2 ^ 52)], links = Map.empty\<rparr>)"
proof -
  let ?i = "\<lparr>Version = 1, InfoTier = TierL1, BlockCount = 1 :: uint64, BlobSize = 4126, InfoBadBlocks = [], UnattributedLoss = 0,
      InfoTruncated = False\<rparr>"
  let ?w = "\<lparr>files = [''h'' \<mapsto> header TierL0 (2 ^ 52)], links = Map.empty\<rparr>"
  have "chase n \<lparr>files = [''h'' \<mapsto> x], links = Map.empty\<rparr> ''h'' = Some ''h''" for n x by (cases n) simp_all
  then have "evalSymlinks ?w ''h'' = Some ''h''" by (simp only: evalSymlinks_def)
  then have rd: "ReadFile sample_host ?w ''h'' = Some (header TierL0 (2 ^ 52))" by (simp add: ReadFile_def sample_host_def)
  have "BlobSize ?i < 2 ^ 61" "''h'' \<notin> {''-h'', ''--help'', ''-help''}" by simp_all
  note o = overhead_wraps [where h = sample_host and rs = replica_rs and ms = sample_messages, OF this(1) rd this(2)]
  have "payloadOverhead ?i = 30" using conjunct1 [OF o] by (simp add: BlockSize_def)
  moreover have "exitCode (exits 3 x ?w) = 3" "finalFs (exits 3 x ?w) = ?w" for x by (simp_all add: exits_def)
  ultimately show ?thesis using conjunct2 [OF o] by blast
qed

end
