(* ===== verification/Spec2Isabelle.thy ===== *)
theory Spec2Isabelle
  imports RSDamage RSLimits RSLossTheorems LossGaps Lifecycle CliTheorems
begin

text \<open>
  A verification development for the blockdevice library and the bdev command (Go):
  src/blockdevice and src/cmd/bdev.

  THE PROGRAM. A Device is a read-only base image and an overlay of the 4096-byte blocks written
  since (blockdevice.go). The overlay is serialized as a blob: an 18-byte header with a CRC, then
  one record per dirty block, at tier L0 bare, at tier L1 with a CRC per record (format.go), and at
  tier L2 as an L1 payload cut into N data and K parity shards of a Reed-Solomon code (rs.go).
  Deserialize puts a blob on a base again and reports what it could not recover; Inspect reports
  on a blob without a base (inspect.go). The command bdev makes deltas (diff), applies them and
  inspects them (src/cmd/bdev).

  CONVENTIONS. The result \<open>None\<close> of an \<open>option\<close>-typed model is a panic of the Go code (a slice or
  an index out of range), so a property that states \<open>f x = Some y\<close> includes that nothing panics;
  every model is a total function. Go errors are values: a sum \<open>error + 'a\<close>, or an optional error
  next to the result where Go returns both. Go's int and int64 are \<open>int\<close> with the wrap-around
  written out (\<open>i64\<close>, Prelude); uint64, uint32 and uint16 fields are words. Loops are folds over the
  list of their indices (\<open>for_list\<close> over \<open>range_lt\<close> and \<open>range_le\<close>) or functions with a measure.
  Mutation of the big output buffer by several goroutines is a list of buffer operations per task,
  merged by an arbitrary schedule (Goroutines).

  THEORIES, with the code they model.
  Prelude: bytes, checked slices, 64-bit arithmetic, loops, block lists, little-endian fields.
  Crc32: hash/crc32 (IEEE), bit by bit as a linear function; one changed byte always changes it.
  Device: Device, New, checkRange, ReadAt, WriteAt (blockdevice.go), against a flat image; the
  contract \<open>flat_store\<close> and its interpretation \<open>cow\<close>.
  Goroutines: tasks on disjoint parts of a buffer; any interleaving gives the sequential result
  (\<open>disjoint_tasks\<close>, interpreted as \<open>buf\<close>).
  Records: the constants, errors, record writer and its fan-out, applyRecords, finalizeBad,
  deserializeHeaderless (format.go). RecordSpec: the record format as a contract (\<open>record_format\<close>,
  interpreted as \<open>rt\<close>) and what the writer puts where. DecodeSpec: the record decoders against a
  declarative loss report. RecordTiers, Damage, RecordTheorems: round trip, truncated, extended and
  damaged blobs.
  ReedSolomon: SerializeRS, the sharded writer, rsMeta, the shard section, salvage (rs.go). The
  module klauspost/reedsolomon is the parameter \<open>rs_lib\<close>; \<open>rs_shape\<close> states that Encode and
  Reconstruct return shards of the sizes given, \<open>rs_contract\<close> that New accepts the geometry and, for
  shards that are not empty (empty ones the library refuses with ErrShardNoData, and the code never
  passes them), that Encode leaves the data shards alone and that Reconstruct restores up to K
  missing shards. Both are met by concrete codecs (\<open>replica_rs\<close>, which refuses empty shards too, and
  \<open>xor_rs\<close> in RSDamage). What Inspect and Deserialize say of each other on arbitrary blobs needs only
  that New accepts every geometry of 1 to 64 shards (\<open>new_accepts\<close>).
  Codec: SerializeTier, Serialize, Deserialize. RSGeometry, RSWrite, RSBlob: what SerializeRS
  writes. RSDecode, RSTheorems: decoding and recovery. RSDamage, RSLimits: single changed bytes, the
  bounds of rsMeta and the memory cap. RSSalvage, RSLoss, RSLossTheorems: more lost shards than
  parity. Totality: Deserialize on arbitrary bytes. LossGaps: a loss the report does not show.
  Inspect: inspect.go. InspectSpec, InspectTheorems: Inspect against the same declarative report,
  and that it mirrors Deserialize.
  Tiers, TierTheorems: all tiers at once; the contract \<open>delta_codec\<close>, interpreted as \<open>tiers\<close>.
  Lifecycle: the devices a client can reach.
  Args: parseArgs of io.go over the parts of the packages flag and strconv it relies on.
  Host: a file system with symbolic links and failing system calls; loadImage's and loadBlob's
  os.ReadFile and the atomic writeFile of io.go, also as a step relation with crashes; the contract
  \<open>file_store\<close>, interpreted as \<open>os\<close>.
  Cli: loadImage, loadBlob, fail (io.go), cmdDiff, cmdApply, cmdInspect, main. CliSpec,
  CliTheorems: what the commands do.

  WHAT THE THEOREMS SHOW. Round trips: every tier, for every number of processors and every schedule
  of the goroutines, and diff followed by apply on files. Recovery: up to K lost or damaged shards;
  beyond that, exactly the records in surviving shards are kept and nothing is lost silently. Error
  behaviour: truncation, appended bytes, one changed byte anywhere. Totality: Deserialize, Inspect,
  SerializeTier, SerializeRS, the device operations and main return for all inputs, never panicking.
  Refinement: the device is a flat image; writeFile is one run of its system calls, atomic in every
  state such a run reaches, and crash-safe when data that was not synced may be lost (\<open>durable_step\<close>
  tracks it). Inspect against Deserialize: an exact description of when they differ in rejecting a
  blob, and what a clean result of one says of the other; the exit codes of inspect and apply follow. The places where the code falls short of its documentation are
  theorems too: misindexed_shard_loses_data, oversize_blob_rejected, truncation_hides_records and
  overhead_wraps.

  BOUNDS. Blobs shorter than 2^61 bytes and bases shorter than 2^63 (for serializing, 2^62): Go
  slices are far smaller, and below these the offsets of the code do not wrap. The L2 round trip
  asks for shard memory of at most 2^33 bytes, the decoder's own cap; bases of up to 2^30 bytes
  cannot exceed it. \<open>chase\<close>, the resolution of symbolic links, has the fuel 255 of
  filepath.EvalSymlinks itself.

  NOT MODELLED. doc.go (comments only) and the build flags for the race detector. The texts of Go
  errors: PartialRecoveryError.Error and messages of os, fmt and flag are parameters (\<open>messages\<close>)
  or left out. File modes, and the directory part of os.CreateTemp's name (the temporary file is the
  target's path with a suffix). Memory exhaustion, and calls of one Device from several goroutines,
  which its documentation forbids.
\<close>

end
